(* ===== verification/Prelude.thy ===== *)
theory Prelude
  imports Main
begin

text \<open>
  The prelude of the development: the theorem collections the components fill and use,
  and the facts on lists, maps and decimal digits that more than one component needs.
\<close>

section \<open>Theorem collections\<close>

named_theorems name_chars \<open>which characters the rendered names are made of\<close>
named_theorems prog_simps \<open>unfolding of the client wrappers and of program composition\<close>

section \<open>Types every component uses\<close>

text \<open>
  A Go string is a sequence of bytes, here a list of 8-bit characters. A Go
  \<open>map[string]string\<close> is a partial function; a nil map and an empty map read the same.
\<close>

type_synonym strmap = "string \<rightharpoonup> string"

text \<open>Go's map read of a missing key yields the zero value, the empty string.\<close>

definition mget :: "strmap \<Rightarrow> string \<Rightarrow> string" where
  "mget m k = (case m k of None \<Rightarrow> [] | Some v \<Rightarrow> v)"

lemma mget_simps [simp]:
  "mget Map.empty k = []"
  "mget (m(k \<mapsto> v)) j = (if j = k then v else mget m j)"
  "mget (m(k := None)) j = (if j = k then [] else mget m j)"
  by (simp_all add: mget_def)

lemma mget_map_add: "mget (m ++ n) k = (case n k of None \<Rightarrow> mget m k | Some v \<Rightarrow> v)"
  by (simp add: mget_def map_add_def split: option.splits)

lemma mget_nonempty_dom: "mget m k \<noteq> [] \<Longrightarrow> k \<in> dom m"
  by (auto simp: mget_def split: option.splits)

section \<open>Lists\<close>

definition trimRightWhile :: "('a \<Rightarrow> bool) \<Rightarrow> 'a list \<Rightarrow> 'a list" where
  "trimRightWhile P xs = rev (dropWhile P (rev xs))"

lemma trimRightWhile_Nil [simp]: "trimRightWhile P [] = []"
  by (simp add: trimRightWhile_def)

lemma trimRightWhile_snoc [simp]:
  "trimRightWhile P (xs @ [x]) = (if P x then trimRightWhile P xs else xs @ [x])"
  by (simp add: trimRightWhile_def)

lemma trimRightWhile_prefix: "\<exists>ys. xs = trimRightWhile P xs @ ys \<and> (\<forall>y \<in> set ys. P y)"
proof (induction xs rule: rev_induct)
  case Nil
  then show ?case by simp
next
  case (snoc x xs)
  then obtain ys where "xs = trimRightWhile P xs @ ys" and "\<forall>y \<in> set ys. P y"
    by blast
  show ?case
  proof (cases "P x")
    case True
    have "xs @ [x] = trimRightWhile P xs @ (ys @ [x])"
      using \<open>xs = trimRightWhile P xs @ ys\<close> by (metis append_assoc)
    with True \<open>\<forall>y \<in> set ys. P y\<close> show ?thesis
      by (intro exI [of _ "ys @ [x]"]) simp
  next
    case False
    then show ?thesis by simp
  qed
qed

lemma length_trimRightWhile: "length (trimRightWhile P xs) \<le> length xs"
  by (simp add: trimRightWhile_def) (metis length_dropWhile_le length_rev)

lemma set_trimRightWhile: "set (trimRightWhile P xs) \<subseteq> set xs"
  using trimRightWhile_prefix [of xs P] by (metis set_append Un_upper1)

lemma last_trimRightWhile: "trimRightWhile P xs \<noteq> [] \<Longrightarrow> \<not> P (last (trimRightWhile P xs))"
  by (induction xs rule: rev_induct) auto

lemma trimRightWhile_eq_Nil: "trimRightWhile P xs = [] \<longleftrightarrow> (\<forall>x \<in> set xs. P x)"
  by (induction xs rule: rev_induct) auto

lemma hd_trimRightWhile: "trimRightWhile P xs \<noteq> [] \<Longrightarrow> hd (trimRightWhile P xs) = hd xs"
  using trimRightWhile_prefix [of xs P] by (metis hd_append2)

lemma trimRightWhile_id: "xs = [] \<or> \<not> P (last xs) \<Longrightarrow> trimRightWhile P xs = xs"
  by (cases xs rule: rev_cases) auto

text \<open>Cutting two lists at the first occurrence of a separator that their heads avoid.\<close>

lemma separator_inject:
  assumes "xs @ c # ys = xs' @ c # ys'" and "c \<notin> set xs" and "c \<notin> set xs'"
  shows "xs = xs'" and "ys = ys'"
proof -
  have "takeWhile (\<lambda>x. x \<noteq> c) (xs @ c # ys) = xs"
    using assms(2) by (subst takeWhile_append2) auto
  moreover have "takeWhile (\<lambda>x. x \<noteq> c) (xs' @ c # ys') = xs'"
    using assms(3) by (subst takeWhile_append2) auto
  ultimately show "xs = xs'" using assms(1) by simp
  then show "ys = ys'" using assms(1) by simp
qed

lemma append_eq_same_suffix:
  "xs @ zs = ys @ ws \<Longrightarrow> length zs = length ws \<Longrightarrow> xs = ys \<and> zs = ws"
  by simp

section \<open>Updating the first element with a property\<close>

text \<open>The shape of the code's \<open>for i := range xs { if p(xs[i]) { update; return } }\<close>.\<close>

fun updateFirst :: "('a \<Rightarrow> bool) \<Rightarrow> ('a \<Rightarrow> 'a) \<Rightarrow> 'a list \<Rightarrow> 'a list" where
  "updateFirst p f [] = []"
| "updateFirst p f (x # xs) = (if p x then f x # xs else x # updateFirst p f xs)"

lemma updateFirst_none: "(\<forall>x \<in> set xs. \<not> p x) \<Longrightarrow> updateFirst p f xs = xs"
  by (induction xs) auto

lemma find_updateFirst:
  "(\<And>x. p x \<Longrightarrow> p (f x)) \<Longrightarrow> find p (updateFirst p f xs) = map_option f (find p xs)"
  by (induction xs) auto

lemma updateFirst_idem:
  assumes "\<And>x. p x \<Longrightarrow> p (f x)" and "\<And>x. p x \<Longrightarrow> f (f x) = f x"
  shows "updateFirst p f (updateFirst p f xs) = updateFirst p f xs"
  using assms by (induction xs) auto

lemma updateFirst_twice:
  assumes "\<And>x. p x \<Longrightarrow> p (f x)" and "\<And>x. p x \<Longrightarrow> p (g x)"
  shows "updateFirst p f (updateFirst p g xs) = updateFirst p (f \<circ> g) xs"
  using assms by (induction xs) auto

lemma map_updateFirst: "(\<And>x. g (f x) = g x) \<Longrightarrow> map g (updateFirst p f xs) = map g xs"
  by (induction xs) auto

lemma find_not_None: "x \<in> set xs \<Longrightarrow> p x \<Longrightarrow> find p xs \<noteq> None"
  by (induction xs) auto

lemma find_SomeD: "find p xs = Some x \<Longrightarrow> x \<in> set xs \<and> p x"
  by (induction xs) (auto split: if_splits)

end
