(* ===== verification/GoStrings.thy ===== *)
theory GoStrings
  imports Prelude
begin

text \<open>
  What the program uses of Go's strings: iteration by rune (the UTF-8 decoder of a
  \<open>range\<close> loop), \<open>unicode.ToLower\<close> as far as ASCII results are concerned, the functions of
  package strings, decimal formatting and parsing of integers, and the interface of a
  value printer with its parser.
\<close>

section \<open>Bytes and runes\<close>

definition byte :: "char \<Rightarrow> nat" where
  "byte c = of_char c"

definition cont :: "nat \<Rightarrow> nat \<Rightarrow> nat \<Rightarrow> bool" where
  "cont lo hi b \<longleftrightarrow> lo \<le> b \<and> b \<le> hi"

definition runeError :: nat where
  "runeError = 65533"

text \<open>
  One step of \<open>for i, r := range s\<close>: the rune at the front of a non-empty string and its
  width. An invalid encoding yields the replacement rune and consumes one byte. The lower
  and upper bounds of the second byte exclude overlong forms and surrogates.
\<close>

definition secondRange :: "nat \<Rightarrow> nat \<times> nat" where
  "secondRange b = (if b = 224 then (160, 191) else if b = 237 then (128, 159)
     else if b = 240 then (144, 191) else if b = 244 then (128, 143) else (128, 191))"

definition decodeRune :: "nat list \<Rightarrow> nat \<times> nat" where
  "decodeRune bs =
     (case bs of [] \<Rightarrow> (runeError, 1)
      | b0 # r0 \<Rightarrow>
        (if b0 < 128 then (b0, 1)
         else if b0 < 194 \<or> 244 < b0 then (runeError, 1)
         else (case r0 of [] \<Rightarrow> (runeError, 1)
           | b1 # r1 \<Rightarrow>
             (if \<not> cont (fst (secondRange b0)) (snd (secondRange b0)) b1 then (runeError, 1)
              else if b0 < 224 then ((b0 mod 32) * 64 + b1 mod 64, 2)
              else (case r1 of [] \<Rightarrow> (runeError, 1)
                | b2 # r2 \<Rightarrow>
                  (if \<not> cont 128 191 b2 then (runeError, 1)
                   else if b0 < 240 then (((b0 mod 16) * 64 + b1 mod 64) * 64 + b2 mod 64, 3)
                   else (case r2 of [] \<Rightarrow> (runeError, 1)
                     | b3 # _ \<Rightarrow>
                       (if \<not> cont 128 191 b3 then (runeError, 1)
                        else ((((b0 mod 8) * 64 + b1 mod 64) * 64 + b2 mod 64) * 64 + b3 mod 64, 4)))))))))"

lemma decodeRune_width_pos: "0 < snd (decodeRune bs)"
  by (auto simp: decodeRune_def split: list.splits)

lemma decodeRune_ascii [simp]: "b < 128 \<Longrightarrow> decodeRune (b # bs) = (b, 1)"
  by (simp add: decodeRune_def)

function rangeFrom :: "nat \<Rightarrow> nat list \<Rightarrow> (nat \<times> nat) list" where
  "rangeFrom i bs = (if bs = [] then []
     else (i, fst (decodeRune bs)) #
          rangeFrom (i + snd (decodeRune bs)) (drop (snd (decodeRune bs)) bs))"
  by pat_completeness auto
termination
  by (relation "measure (\<lambda>(i, bs). length bs)") (use decodeRune_width_pos in auto)

declare rangeFrom.simps [simp del]

lemma rangeFrom_Nil [simp]: "rangeFrom i [] = []"
  by (simp add: rangeFrom.simps)

lemma rangeFrom_ascii [simp]: "b < 128 \<Longrightarrow> rangeFrom i (b # bs) = (i, b) # rangeFrom (Suc i) bs"
  by (subst rangeFrom.simps) simp

text \<open>The index and rune pairs of a \<open>range\<close> loop over a string.\<close>

definition rangeRunes :: "string \<Rightarrow> (nat \<times> nat) list" where
  "rangeRunes s = rangeFrom 0 (map byte s)"

definition runes :: "string \<Rightarrow> nat list" where
  "runes s = map snd (rangeRunes s)"

lemma byte_less_256 [simp]: "byte c < 256"
  by (simp add: byte_def)

lemma char_of_byte [simp]: "char_of (byte c) = c"
  by (simp add: byte_def)

lemma byte_inject [simp]: "byte c = byte d \<longleftrightarrow> c = d"
  by (metis char_of_byte)

lemma rangeFrom_all_ascii:
  "\<forall>b \<in> set bs. b < 128 \<Longrightarrow> rangeFrom i bs = zip [i..<i + length bs] bs"
proof (induction bs arbitrary: i)
  case Nil
  then show ?case by simp
next
  case (Cons b bs)
  then show ?case by (simp add: upt_conv_Cons del: upt_Suc)
qed

lemma rangeRunes_ascii:
  "\<forall>c \<in> set s. byte c < 128 \<Longrightarrow> rangeRunes s = zip [0..<length s] (map byte s)"
  unfolding rangeRunes_def by (subst rangeFrom_all_ascii) auto

lemma runes_ascii: "\<forall>c \<in> set s. byte c < 128 \<Longrightarrow> runes s = map byte s"
  by (simp add: runes_def rangeRunes_ascii)

text \<open>
  \<open>unicode.ToLower\<close>. The program only asks whether the result lies in \<open>a-z\<close> or \<open>0-9\<close>, and
  writes it then. Besides the ASCII capitals two runes have an ASCII lower case: U+0130
  (capital I with dot) and U+212A (the Kelvin sign). Every other rune is left alone here:
  its lower case is no ASCII letter or digit unless it is one itself.
\<close>

definition toLowerRune :: "nat \<Rightarrow> nat" where
  "toLowerRune r = (if 65 \<le> r \<and> r \<le> 90 then r + 32 else if r = 304 then 105
     else if r = 8490 then 107 else r)"

definition isLowerRune :: "nat \<Rightarrow> bool" where
  "isLowerRune r \<longleftrightarrow> 97 \<le> r \<and> r \<le> 122"

definition isUpperRune :: "nat \<Rightarrow> bool" where
  "isUpperRune r \<longleftrightarrow> 65 \<le> r \<and> r \<le> 90"

definition isDigitRune :: "nat \<Rightarrow> bool" where
  "isDigitRune r \<longleftrightarrow> 48 \<le> r \<and> r \<le> 57"

section \<open>Package strings\<close>

definition TrimRight :: "string \<Rightarrow> char \<Rightarrow> string" where
  "TrimRight s c = trimRightWhile (\<lambda>x. x = c) s"

definition HasPrefix :: "string \<Rightarrow> string \<Rightarrow> bool" where
  "HasPrefix s p \<longleftrightarrow> take (length p) s = p"

definition ContainsAny :: "string \<Rightarrow> string \<Rightarrow> bool" where
  "ContainsAny s cs \<longleftrightarrow> list_ex (\<lambda>c. c \<in> set cs) s"

lemma HasPrefix_append: "HasPrefix s p \<longleftrightarrow> (\<exists>t. s = p @ t)"
  unfolding HasPrefix_def by (metis append_eq_conv_conj append_take_drop_id)

text \<open>
  \<open>strings.TrimSpace\<close> trims by rune: ASCII white space, U+0085, U+00A0 and the Unicode
  space separators. \<open>isSpaceRune\<close> is \<open>unicode.IsSpace\<close>.
\<close>

definition isSpaceRune :: "nat \<Rightarrow> bool" where
  "isSpaceRune r \<longleftrightarrow> (9 \<le> r \<and> r \<le> 13) \<or> r = 32 \<or> r = 133 \<or> r = 160 \<or> r = 5760 \<or>
     (8192 \<le> r \<and> r \<le> 8202) \<or> r = 8232 \<or> r = 8233 \<or> r = 8239 \<or> r = 8287 \<or> r = 12288"

text \<open>The byte offset of the first rune that is no space, or the length.\<close>

definition firstNonSpace :: "string \<Rightarrow> nat" where
  "firstNonSpace s = (case find (\<lambda>(i, r). \<not> isSpaceRune r) (rangeRunes s) of
     None \<Rightarrow> length s | Some (i, r) \<Rightarrow> i)"

text \<open>
  From the right the code decodes runes backwards. A suffix is trimmed while it starts with
  a space rune that ends exactly where the trimmed part begins.
\<close>

function trimSpaceRight :: "string \<Rightarrow> string" where
  "trimSpaceRight s =
     (if s = [] then []
      else case find (\<lambda>w. w \<le> length s \<and>
               (let d = decodeRune (map byte (drop (length s - w) s))
                in snd d = w \<and> isSpaceRune (fst d))) [1, 2, 3] of
             None \<Rightarrow> s
           | Some w \<Rightarrow> trimSpaceRight (take (length s - w) s))"
  by pat_completeness auto
termination
proof (relation "measure length")
  fix s :: string and w
  assume s: "s \<noteq> []"
    and w: "find (\<lambda>w. w \<le> length s \<and> (let d = decodeRune (map byte (drop (length s - w) s))
           in snd d = w \<and> isSpaceRune (fst d))) [1, 2, 3] = Some w"
  from find_SomeD [OF w] s show "(take (length s - w) s, s) \<in> measure length"
    by auto
qed simp

declare trimSpaceRight.simps [simp del]

definition TrimSpace :: "string \<Rightarrow> string" where
  "TrimSpace s = trimSpaceRight (drop (firstNonSpace s) s)"

section \<open>A printer and its parser\<close>

text \<open>
  The interface of a textual encoding: what is printed on a valid value parses back to the
  value (up to what the encoding forgets, \<open>norm\<close>). Annotations of a Sandbox carry integers
  and times in this way.
\<close>

locale text_codec =
  fixes enc :: "'a \<Rightarrow> string"
    and dec :: "string \<Rightarrow> 'a option"
    and valid :: "'a \<Rightarrow> bool"
    and norm :: "'a \<Rightarrow> 'a"
  assumes dec_enc: "valid x \<Longrightarrow> dec (enc x) = Some (norm x)"
    and enc_nonempty: "valid x \<Longrightarrow> enc x \<noteq> []"
begin

lemma enc_inject: "valid x \<Longrightarrow> valid y \<Longrightarrow> enc x = enc y \<Longrightarrow> norm x = norm y"
  by (metis dec_enc option.inject)

lemma enc_readable: "valid x \<Longrightarrow> dec (enc x) \<noteq> None"
  by (simp add: dec_enc)

end

section \<open>Decimal integers\<close>

definition digitChar :: "nat \<Rightarrow> char" where
  "digitChar d = char_of (48 + d)"

definition isDigit :: "char \<Rightarrow> bool" where
  "isDigit c \<longleftrightarrow> isDigitRune (byte c)"

definition digitVal :: "char \<Rightarrow> nat" where
  "digitVal c = byte c - 48"

lemma byte_digitChar: "d < 10 \<Longrightarrow> byte (digitChar d) = 48 + d"
  by (simp add: digitChar_def byte_def)

lemma isDigit_digitChar [simp]: "d < 10 \<Longrightarrow> isDigit (digitChar d)"
  by (simp add: isDigit_def isDigitRune_def byte_digitChar)

lemma digitVal_digitChar [simp]: "d < 10 \<Longrightarrow> digitVal (digitChar d) = d"
  by (simp add: digitVal_def byte_digitChar)

fun decNat :: "nat \<Rightarrow> string" where
  "decNat n = (if n < 10 then [digitChar n] else decNat (n div 10) @ [digitChar (n mod 10)])"

declare decNat.simps [simp del]

definition digitsVal :: "string \<Rightarrow> nat" where
  "digitsVal s = foldl (\<lambda>n c. 10 * n + digitVal c) 0 s"

lemma digitsVal_snoc: "digitsVal (s @ [c]) = 10 * digitsVal s + digitVal c"
  by (simp add: digitsVal_def)

lemma decNat_digits: "list_all isDigit (decNat n)"
proof (induction n rule: decNat.induct)
  case (1 n)
  show ?case
  proof (cases "n < 10")
    case True
    then show ?thesis by (simp add: decNat.simps [of n])
  next
    case False
    with "1.IH" show ?thesis by (simp add: decNat.simps [of n])
  qed
qed

lemma decNat_nonempty [simp]: "decNat n \<noteq> []"
  by (subst decNat.simps) simp

lemma digitsVal_decNat [simp]: "digitsVal (decNat n) = n"
proof (induction n rule: decNat.induct)
  case (1 n)
  show ?case
  proof (cases "n < 10")
    case True
    then show ?thesis by (simp add: decNat.simps [of n] digitsVal_def)
  next
    case False
    with "1.IH" show ?thesis by (simp add: decNat.simps [of n] digitsVal_snoc)
  qed
qed

lemma decNat_inject [simp]: "decNat m = decNat n \<longleftrightarrow> m = n"
  by (metis digitsVal_decNat)

text \<open>\<open>strconv.FormatInt(i, 10)\<close> and \<open>strconv.ParseInt(s, 10, 64)\<close>; \<open>None\<close> is its error.\<close>

definition minInt64 :: int where "minInt64 = - (2 ^ 63)"
definition maxInt64 :: int where "maxInt64 = 2 ^ 63 - 1"

definition inInt64 :: "int \<Rightarrow> bool" where
  "inInt64 i \<longleftrightarrow> minInt64 \<le> i \<and> i \<le> maxInt64"

definition FormatInt :: "int \<Rightarrow> string" where
  "FormatInt i = (if i < 0 then CHR ''-'' # decNat (nat (- i)) else decNat (nat i))"

definition ParseInt :: "string \<Rightarrow> int option" where
  "ParseInt s =
     (let neg = (s \<noteq> [] \<and> hd s = CHR ''-'');
          d = (if s \<noteq> [] \<and> (hd s = CHR ''-'' \<or> hd s = CHR ''+'') then tl s else s)
      in if d = [] \<or> \<not> list_all isDigit d then None
         else let v = (if neg then - int (digitsVal d) else int (digitsVal d))
              in if inInt64 v then Some v else None)"

lemma decNat_hd_digit: "isDigit (hd (decNat n))"
  using decNat_digits [of n] decNat_nonempty [of n] by (cases "decNat n") auto

lemma sign_not_digit: "\<not> isDigit CHR ''-''" "\<not> isDigit CHR ''+''" "\<not> isDigit CHR '':''"
  by (simp_all add: isDigit_def isDigitRune_def byte_def)

lemma ParseInt_decNat: "inInt64 (int n) \<Longrightarrow> ParseInt (decNat n) = Some (int n)"
  using decNat_hd_digit [of n] sign_not_digit decNat_digits [of n]
  by (auto simp: ParseInt_def Let_def)

lemma ParseInt_neg_decNat: "inInt64 (- int n) \<Longrightarrow> ParseInt (CHR ''-'' # decNat n) = Some (- int n)"
  using decNat_digits [of n] by (simp add: ParseInt_def)

lemma ParseInt_FormatInt: "inInt64 i \<Longrightarrow> ParseInt (FormatInt i) = Some i"
  by (auto simp: FormatInt_def ParseInt_decNat ParseInt_neg_decNat)

lemma FormatInt_nonempty [simp]: "FormatInt i \<noteq> []"
  by (simp add: FormatInt_def)

lemma ParseInt_range: "ParseInt s = Some i \<Longrightarrow> inInt64 i"
  by (auto simp: ParseInt_def Let_def split: if_splits)

interpretation dec_int: text_codec FormatInt ParseInt inInt64 "\<lambda>i. i"
  by unfold_locales (simp_all add: ParseInt_FormatInt)

end
