(* ===== verification/GoHash.thy ===== *)
theory GoHash
  imports GoStrings "HOL-Library.Word"
begin

unbundle bit_operations_syntax

text \<open>
  The two digests the names are built from: 32-bit FNV-1a (hash/fnv) and SHA-256
  (crypto/sha256), each on words of their width, with their lower-case hexadecimal
  rendering, and the interface the naming rules use of a digest.
\<close>

section \<open>Hexadecimal\<close>

definition hexChar :: "nat \<Rightarrow> char" where
  "hexChar d = (if d < 10 then char_of (48 + d) else char_of (87 + d))"

definition isHexLower :: "char \<Rightarrow> bool" where
  "isHexLower c \<longleftrightarrow> isDigitRune (byte c) \<or> (97 \<le> byte c \<and> byte c \<le> 102)"

lemma byte_hexChar: "d < 16 \<Longrightarrow> byte (hexChar d) = (if d < 10 then 48 + d else 87 + d)"
  by (simp add: hexChar_def byte_def)

lemma isHexLower_hexChar: "d < 16 \<Longrightarrow> isHexLower (hexChar d)"
  by (simp add: isHexLower_def isDigitRune_def byte_hexChar)

lemma hexChar_inject: "d < 16 \<Longrightarrow> e < 16 \<Longrightarrow> hexChar d = hexChar e \<Longrightarrow> d = e"
  by (auto simp: byte_hexChar dest!: arg_cong [of _ _ byte] split: if_splits)

text \<open>\<open>n\<close> hexadecimal digits of a number, most significant first.\<close>

fun hexDigits :: "nat \<Rightarrow> nat \<Rightarrow> string" where
  "hexDigits 0 v = []"
| "hexDigits (Suc n) v = hexDigits n (v div 16) @ [hexChar (v mod 16)]"

lemma length_hexDigits [simp]: "length (hexDigits n v) = n"
  by (induction n arbitrary: v) auto

lemma hexDigits_lower: "list_all isHexLower (hexDigits n v)"
  by (induction n arbitrary: v) (auto simp: isHexLower_hexChar)

lemma hexDigits_inject:
  "v < 16 ^ n \<Longrightarrow> w < 16 ^ n \<Longrightarrow> hexDigits n v = hexDigits n w \<Longrightarrow> v = w"
proof (induction n arbitrary: v w)
  case 0
  then show ?case by simp
next
  case (Suc n)
  from Suc.prems have "hexDigits n (v div 16) = hexDigits n (w div 16)"
    and d: "hexChar (v mod 16) = hexChar (w mod 16)" by simp_all
  with Suc.prems have "v div 16 = w div 16"
    by (intro Suc.IH) (simp_all add: less_mult_imp_div_less mult.commute)
  moreover from d have "v mod 16 = w mod 16"
    by (intro hexChar_inject) simp_all
  ultimately show ?case by (metis div_mult_mod_eq)
qed

text \<open>\<open>hex.EncodeToString\<close>: two digits for each byte.\<close>

definition hexEncode :: "string \<Rightarrow> string" where
  "hexEncode bs = concat (map (\<lambda>c. hexDigits 2 (byte c)) bs)"

lemma length_hexEncode: "length (hexEncode bs) = 2 * length bs"
  by (induction bs) (auto simp: hexEncode_def)

lemma hexEncode_lower: "list_all isHexLower (hexEncode bs)"
  using hexDigits_lower by (induction bs) (auto simp: hexEncode_def)

lemma hexEncode_inject: "hexEncode as = hexEncode bs \<Longrightarrow> as = bs"
proof (induction as arbitrary: bs)
  case Nil
  then have "length (hexEncode bs) = 0" by (simp add: hexEncode_def)
  then show ?case by (simp add: length_hexEncode)
next
  case (Cons a as)
  then have "length (hexEncode (a # as)) = length (hexEncode bs)" by simp
  then have "bs \<noteq> []" by (auto simp: length_hexEncode)
  then obtain b bs' where bs: "bs = b # bs'" by (cases bs) auto
  with Cons.prems have eq: "hexDigits 2 (byte a) = hexDigits 2 (byte b) \<and> hexEncode as = hexEncode bs'"
    by (simp add: hexEncode_def)
  then have "byte a = byte b"
    by (intro hexDigits_inject [of _ 2]) simp_all
  moreover from eq have "as = bs'" by (intro Cons.IH) simp
  ultimately show ?case by (simp add: bs)
qed

section \<open>FNV-1a\<close>

definition fnvStep :: "32 word \<Rightarrow> char \<Rightarrow> 32 word" where
  "fnvStep h c = (h XOR of_nat (byte c)) * 16777619"

definition fnv32a :: "string \<Rightarrow> 32 word" where
  "fnv32a s = foldl fnvStep 2166136261 s"

section \<open>SHA-256\<close>

type_synonym u32 = "32 word"

definition rotr :: "nat \<Rightarrow> u32 \<Rightarrow> u32" where
  "rotr n x = drop_bit n x OR push_bit (32 - n) x"

definition shaK :: "u32 list" where
  "shaK =
    [1116352408, 1899447441, 3049323471, 3921009573, 961987163, 1508970993, 2453635748, 2870763221,
     3624381080, 310598401, 607225278, 1426881987, 1925078388, 2162078206, 2614888103, 3248222580,
     3835390401, 4022224774, 264347078, 604807628, 770255983, 1249150122, 1555081692, 1996064986,
     2554220882, 2821834349, 2952996808, 3210313671, 3336571891, 3584528711, 113926993, 338241895,
     666307205, 773529912, 1294757372, 1396182291, 1695183700, 1986661051, 2177026350, 2456956037,
     2730485921, 2820302411, 3259730800, 3345764771, 3516065817, 3600352804, 4094571909, 275423344,
     430227734, 506948616, 659060556, 883997877, 958139571, 1322822218, 1537002063, 1747873779,
     1955562222, 2024104815, 2227730452, 2361852424, 2428436474, 2756734187, 3204031479, 3329325298]"

text \<open>The chaining value: the eight working variables.\<close>

datatype shaState = ShaState u32 u32 u32 u32 u32 u32 u32 u32

definition shaInit :: shaState where
  "shaInit = ShaState 1779033703 3144134277 1013904242 2773480762 1359893119 2600822924 528734635 1541459225"

definition bigEndian :: "nat \<Rightarrow> nat \<Rightarrow> string" where
  "bigEndian n v = rev (map (\<lambda>i. char_of ((v div 256 ^ i) mod 256)) [0..<n])"

definition shaPad :: "string \<Rightarrow> string" where
  "shaPad m = (let l = length m in
     m @ char_of (128 :: nat) # replicate ((119 - l mod 64) mod 64) (char_of (0 :: nat)) @ bigEndian 8 (8 * l))"

fun words32 :: "string \<Rightarrow> u32 list" where
  "words32 (a # b # c # d # r) =
     of_nat (((byte a * 256 + byte b) * 256 + byte c) * 256 + byte d) # words32 r"
| "words32 _ = []"

text \<open>The message schedule, newest word first.\<close>

fun extend :: "nat \<Rightarrow> u32 list \<Rightarrow> u32 list" where
  "extend 0 ws = ws"
| "extend (Suc n) ws =
     (let w2 = ws ! 1; w7 = ws ! 6; w15 = ws ! 14; w16 = ws ! 15;
          s0 = rotr 7 w15 XOR rotr 18 w15 XOR drop_bit 3 w15;
          s1 = rotr 17 w2 XOR rotr 19 w2 XOR drop_bit 10 w2
      in extend n ((w16 + s0 + w7 + s1) # ws))"

fun shaRound :: "shaState \<Rightarrow> u32 \<times> u32 \<Rightarrow> shaState" where
  "shaRound (ShaState a b c d e f g h) (k, w) =
     (let s1 = rotr 6 e XOR rotr 11 e XOR rotr 25 e;
          ch = (e AND f) XOR (NOT e AND g);
          t1 = h + s1 + ch + k + w;
          s0 = rotr 2 a XOR rotr 13 a XOR rotr 22 a;
          mj = (a AND b) XOR (a AND c) XOR (b AND c);
          t2 = s0 + mj
      in ShaState (t1 + t2) a b c (d + t1) e f g)"

fun shaAdd :: "shaState \<Rightarrow> shaState \<Rightarrow> shaState" where
  "shaAdd (ShaState a b c d e f g h) (ShaState a' b' c' d' e' f' g' h') =
     ShaState (a + a') (b + b') (c + c') (d + d') (e + e') (f + f') (g + g') (h + h')"

definition shaBlock :: "shaState \<Rightarrow> u32 list \<Rightarrow> shaState" where
  "shaBlock st ws = shaAdd st (foldl shaRound st (zip shaK (rev (extend 48 (rev ws)))))"

function shaBlocks :: "shaState \<Rightarrow> u32 list \<Rightarrow> shaState" where
  "shaBlocks st ws = (if length ws < 16 then st else shaBlocks (shaBlock st (take 16 ws)) (drop 16 ws))"
  by pat_completeness auto
termination
  by (relation "measure (\<lambda>(st, ws). length ws)") auto

declare shaBlocks.simps [simp del]

fun shaBytes :: "shaState \<Rightarrow> string" where
  "shaBytes (ShaState a b c d e f g h) =
     concat (map (\<lambda>x. bigEndian 4 (unat x)) [a, b, c, d, e, f, g, h])"

definition sha256 :: "string \<Rightarrow> string" where
  "sha256 m = shaBytes (shaBlocks shaInit (words32 (shaPad m)))"

lemma length_bigEndian [simp]: "length (bigEndian n v) = n"
  by (simp add: bigEndian_def)

lemma length_sha256 [simp]: "length (sha256 m) = 32"
  unfolding sha256_def by (cases "shaBlocks shaInit (words32 (shaPad m))") simp

section \<open>What the naming rules use of a digest\<close>

text \<open>
  A name ends in a digest of fixed length over the lower-case hexadecimal digits. Two
  facts follow for every such digest: a name that ends in it ends in a letter or digit,
  and two names with the same text can be split into the same stem and the same digest.
\<close>

locale hex_digest =
  fixes digest :: "string \<Rightarrow> string"
    and len :: nat
  assumes digest_length: "length (digest s) = len"
    and digest_hex: "list_all isHexLower (digest s)"
    and len_pos: "0 < len"
begin

lemma digest_nonempty: "digest s \<noteq> []"
  using digest_length [of s] len_pos by auto

lemma split_name: "p @ digest s = q @ digest t \<Longrightarrow> p = q \<and> digest s = digest t"
  by (rule append_eq_same_suffix) (simp_all add: digest_length)

lemma last_name: "isHexLower (last (p @ digest s))"
  using digest_hex [of s] digest_nonempty [of s]
  by (metis last_appendR last_in_set list_all_iff)

lemma set_digest: "c \<in> set (digest s) \<Longrightarrow> isHexLower c"
  using digest_hex [of s] by (simp add: list_all_iff)

end

end
