(* ===== verification/Naming.thy ===== *)
theory Naming
  imports GoHash
begin

text \<open>
  internal/naming: the names, labels and annotations the hook and the session controller
  share. The definitions follow the file; the lemmas show that a sanitized text is empty or
  a DNS label, that every Sandbox name is a DNS label of at most 63 bytes, when a label value
  is valid, and what two equal names say about what they were derived from.
\<close>

section \<open>Label and annotation keys\<close>

definition LabelName :: string where "LabelName = ''app.kubernetes.io/name''"
definition LabelInstance :: string where "LabelInstance = ''app.kubernetes.io/instance''"
definition LabelVersion :: string where "LabelVersion = ''app.kubernetes.io/version''"
definition LabelManagedBy :: string where "LabelManagedBy = ''app.kubernetes.io/managed-by''"
definition LabelPartOf :: string where "LabelPartOf = ''app.kubernetes.io/part-of''"
definition LabelChart :: string where "LabelChart = ''helm.sh/chart''"
definition LabelSessionID :: string where "LabelSessionID = ''shock.invalid/session-id''"
definition LabelAccountID :: string where "LabelAccountID = ''shock.invalid/account-id''"

definition PartOf :: string where "PartOf = ''shock''"
definition ComponentOrchestrator :: string where "ComponentOrchestrator = ''orchestrator''"
definition ComponentSessionController :: string where "ComponentSessionController = ''session-controller''"
definition ComponentRunner :: string where "ComponentRunner = ''runner''"

definition AnnotationPrefix :: string where "AnnotationPrefix = ''shock.invalid/''"
definition AnnotationPendingSpawn :: string where "AnnotationPendingSpawn = AnnotationPrefix @ ''pending-spawn''"
definition AnnotationPendingSpawnAt :: string where "AnnotationPendingSpawnAt = AnnotationPrefix @ ''pending-spawn-at''"
definition AnnotationAppliedSpawn :: string where "AnnotationAppliedSpawn = AnnotationPrefix @ ''applied-spawn''"
definition AnnotationPendingSecret :: string where "AnnotationPendingSecret = AnnotationPrefix @ ''pending-secret''"
definition AnnotationLastOrderID :: string where "AnnotationLastOrderID = AnnotationPrefix @ ''last-order-id''"
definition AnnotationLastOrderAttempt :: string where "AnnotationLastOrderAttempt = AnnotationPrefix @ ''last-order-attempt''"
definition AnnotationLastOrderSecret :: string where "AnnotationLastOrderSecret = AnnotationPrefix @ ''last-order-secret''"
definition AnnotationLastSuspendedAt :: string where "AnnotationLastSuspendedAt = AnnotationPrefix @ ''last-suspended-at''"
definition AnnotationOrderID :: string where "AnnotationOrderID = AnnotationPrefix @ ''order-id''"
definition AnnotationOrderAttempt :: string where "AnnotationOrderAttempt = AnnotationPrefix @ ''order-attempt''"
definition AnnotationSessionID :: string where "AnnotationSessionID = AnnotationPrefix @ ''session-id''"

definition RunnerContainerName :: string where "RunnerContainerName = ''runner''"
definition WorkOrderVolumeName :: string where "WorkOrderVolumeName = ''work-order''"
definition WorkOrderMountPath :: string where "WorkOrderMountPath = ''/var/run/claude/work-order''"
definition WorkOrderSecretKey :: string where "WorkOrderSecretKey = ''work-order''"
definition WorkspaceClaimName :: string where "WorkspaceClaimName = ''workspace''"
definition PlaceholderSecretName :: string where "PlaceholderSecretName = ''shock-placeholder-never-materialized''"

definition sandboxPrefix :: string where "sandboxPrefix = ''cs''"
definition secretPrefix :: string where "secretPrefix = ''wo''"
definition maxNameLen :: nat where "maxNameLen = 63"
definition maxReleaseLen :: nat where "maxReleaseLen = 24"
definition hashSuffixLength :: nat where "hashSuffixLength = 8"

text \<open>
  The keys are used as keys of maps only; what the proofs need of them is that they differ.
\<close>

lemmas annotation_defs = AnnotationPrefix_def AnnotationPendingSpawn_def AnnotationPendingSpawnAt_def
  AnnotationAppliedSpawn_def AnnotationPendingSecret_def AnnotationLastOrderID_def
  AnnotationLastOrderAttempt_def AnnotationLastOrderSecret_def AnnotationLastSuspendedAt_def
  AnnotationOrderID_def AnnotationOrderAttempt_def AnnotationSessionID_def

lemmas label_defs = LabelName_def LabelInstance_def LabelVersion_def LabelManagedBy_def
  LabelPartOf_def LabelChart_def LabelSessionID_def LabelAccountID_def

lemma annotation_neq [simp]:
  "AnnotationPendingSpawn \<noteq> AnnotationPendingSpawnAt" "AnnotationPendingSpawn \<noteq> AnnotationAppliedSpawn"
  "AnnotationPendingSpawn \<noteq> AnnotationPendingSecret" "AnnotationPendingSpawn \<noteq> AnnotationLastOrderID"
  "AnnotationPendingSpawn \<noteq> AnnotationLastOrderAttempt" "AnnotationPendingSpawn \<noteq> AnnotationLastOrderSecret"
  "AnnotationPendingSpawn \<noteq> AnnotationLastSuspendedAt"
  "AnnotationPendingSpawnAt \<noteq> AnnotationAppliedSpawn" "AnnotationPendingSpawnAt \<noteq> AnnotationPendingSecret"
  "AnnotationPendingSpawnAt \<noteq> AnnotationLastOrderID" "AnnotationPendingSpawnAt \<noteq> AnnotationLastOrderAttempt"
  "AnnotationPendingSpawnAt \<noteq> AnnotationLastOrderSecret" "AnnotationPendingSpawnAt \<noteq> AnnotationLastSuspendedAt"
  "AnnotationAppliedSpawn \<noteq> AnnotationPendingSecret" "AnnotationAppliedSpawn \<noteq> AnnotationLastOrderID"
  "AnnotationAppliedSpawn \<noteq> AnnotationLastOrderAttempt" "AnnotationAppliedSpawn \<noteq> AnnotationLastOrderSecret"
  "AnnotationAppliedSpawn \<noteq> AnnotationLastSuspendedAt"
  "AnnotationPendingSecret \<noteq> AnnotationLastOrderID" "AnnotationPendingSecret \<noteq> AnnotationLastOrderAttempt"
  "AnnotationPendingSecret \<noteq> AnnotationLastOrderSecret" "AnnotationPendingSecret \<noteq> AnnotationLastSuspendedAt"
  "AnnotationLastOrderID \<noteq> AnnotationLastOrderAttempt" "AnnotationLastOrderID \<noteq> AnnotationLastOrderSecret"
  "AnnotationLastOrderID \<noteq> AnnotationLastSuspendedAt"
  "AnnotationLastOrderAttempt \<noteq> AnnotationLastOrderSecret"
  "AnnotationLastOrderAttempt \<noteq> AnnotationLastSuspendedAt"
  "AnnotationLastOrderSecret \<noteq> AnnotationLastSuspendedAt"
  "AnnotationOrderID \<noteq> AnnotationOrderAttempt" "AnnotationOrderID \<noteq> AnnotationSessionID"
  "AnnotationOrderAttempt \<noteq> AnnotationSessionID"
  by (simp_all add: annotation_defs)

lemmas annotation_neq_sym [simp] = annotation_neq [symmetric]

lemma label_neq [simp]:
  "LabelName \<noteq> LabelInstance" "LabelName \<noteq> LabelPartOf" "LabelName \<noteq> LabelSessionID"
  "LabelName \<noteq> LabelAccountID" "LabelInstance \<noteq> LabelPartOf" "LabelInstance \<noteq> LabelSessionID"
  "LabelInstance \<noteq> LabelAccountID" "LabelPartOf \<noteq> LabelSessionID" "LabelPartOf \<noteq> LabelAccountID"
  "LabelSessionID \<noteq> LabelAccountID"
  by (simp_all add: label_defs)

lemmas label_neq_sym [simp] = label_neq [symmetric]

lemma volume_name_neq [simp]:
  "WorkOrderVolumeName \<noteq> WorkspaceClaimName" "WorkspaceClaimName \<noteq> WorkOrderVolumeName"
  by (simp_all add: WorkOrderVolumeName_def WorkspaceClaimName_def)

section \<open>The code\<close>

definition SelectorLabels :: "string \<Rightarrow> string \<Rightarrow> strmap" where
  "SelectorLabels component release = [LabelName \<mapsto> component, LabelInstance \<mapsto> release]"

text \<open>
  \<open>sanitizeRFC1123\<close>: the loop over the runes with the bytes written so far and \<open>lastDash\<close>.
\<close>

fun sanitizeLoop :: "nat list \<Rightarrow> string \<Rightarrow> bool \<Rightarrow> string" where
  "sanitizeLoop [] b lastDash = b"
| "sanitizeLoop (r0 # rs) b lastDash =
     (let r = toLowerRune r0
      in if isLowerRune r \<or> isDigitRune r then sanitizeLoop rs (b @ [char_of r]) False
         else sanitizeLoop rs (if \<not> lastDash \<and> b \<noteq> [] then b @ ''-'' else b) True)"

definition sanitizeRFC1123 :: "string \<Rightarrow> string \<times> bool" where
  "sanitizeRFC1123 s = (let out = TrimRight (sanitizeLoop (runes s) [] False) CHR ''-''
     in (out, out \<noteq> s))"

definition fnvHash :: "string \<Rightarrow> string" where
  "fnvHash s = hexDigits 8 (unat (fnv32a s))"

definition releasePrefix :: "string \<Rightarrow> string" where
  "releasePrefix release =
     (let rel = fst (sanitizeRFC1123 release);
          rel = (if length rel > maxReleaseLen then TrimRight (take maxReleaseLen rel) CHR ''-'' else rel)
      in if rel = [] then [] else rel @ ''-'')"

definition scopedName :: "string \<Rightarrow> string \<Rightarrow> string \<Rightarrow> string" where
  "scopedName release kind raw =
     (let prefix = releasePrefix release @ kind @ ''-'';
          maxID = maxNameLen - length prefix - 1 - hashSuffixLength;
          sanitized = fst (sanitizeRFC1123 raw);
          altered = snd (sanitizeRFC1123 raw);
          cut = length sanitized > maxID;
          sanitized = (if cut then TrimRight (take maxID sanitized) CHR ''-'' else sanitized);
          altered = (altered \<or> cut)
      in if altered \<or> sanitized = [] then prefix @ sanitized @ ''-'' @ fnvHash raw
         else prefix @ sanitized)"

definition SandboxName :: "string \<Rightarrow> string \<Rightarrow> string" where
  "SandboxName release sessionID = scopedName release sandboxPrefix sessionID"

definition PVCName :: "string \<Rightarrow> string" where
  "PVCName sandboxName = WorkspaceClaimName @ ''-'' @ sandboxName"

text \<open>The bytes \<open>WorkOrderSecretName\<close> writes into the hash: \<open>%d:%s\<close> for each part.\<close>

definition lengthPrefixed :: "string \<Rightarrow> string" where
  "lengthPrefixed part = decNat (length part) @ '':'' @ part"

definition secretEncoding :: "string list \<Rightarrow> string" where
  "secretEncoding parts = concat (map lengthPrefixed parts)"

definition secretDigest :: "string \<Rightarrow> string" where
  "secretDigest m = hexEncode (sha256 m)"

definition WorkOrderSecretName :: "string \<Rightarrow> string \<Rightarrow> string \<Rightarrow> string \<Rightarrow> string" where
  "WorkOrderSecretName release sessionID sandboxUID orderID =
     releasePrefix release @ secretPrefix @ ''-'' @
       secretDigest (secretEncoding [release, sessionID, sandboxUID, orderID])"

definition alnumRune :: "nat \<Rightarrow> bool" where
  "alnumRune r \<longleftrightarrow> isLowerRune r \<or> isUpperRune r \<or> isDigitRune r"

definition isValidLabelValue :: "string \<Rightarrow> bool" where
  "isValidLabelValue v \<longleftrightarrow> \<not> length v > 63 \<and>
     list_all (\<lambda>(i, r). if i = 0 \<or> int i = int (length v) - 1 then alnumRune r
                        else alnumRune r \<or> r = 45 \<or> r = 95 \<or> r = 46) (rangeRunes v)"

definition LabelValue :: "string \<Rightarrow> string" where
  "LabelValue v =
     (if v = [] then []
      else if isValidLabelValue v then v
      else (let sanitized = fst (sanitizeRFC1123 v);
                sanitized = (if length sanitized > 63 - hashSuffixLength - 1
                   then TrimRight (take (63 - hashSuffixLength - 1) sanitized) CHR ''-'' else sanitized)
            in sanitized @ ''-'' @ fnvHash v))"

section \<open>The digests end a name\<close>

interpretation fnv: hex_digest fnvHash 8
  by unfold_locales (simp_all add: fnvHash_def hexDigits_lower)

interpretation sha: hex_digest secretDigest 64
  by unfold_locales (simp_all add: secretDigest_def length_hexEncode hexEncode_lower)

section \<open>Sanitized text\<close>

text \<open>The letters of a DNS label, and a DNS label as the API server's RFC 1123 check has it.\<close>

definition lowerAlnum :: "char \<Rightarrow> bool" where
  "lowerAlnum c \<longleftrightarrow> isLowerRune (byte c) \<or> isDigitRune (byte c)"

definition dnsChar :: "char \<Rightarrow> bool" where
  "dnsChar c \<longleftrightarrow> lowerAlnum c \<or> c = CHR ''-''"

definition dnsLabel :: "string \<Rightarrow> bool" where
  "dnsLabel s \<longleftrightarrow> s \<noteq> [] \<and> length s \<le> 63 \<and> lowerAlnum (hd s) \<and> lowerAlnum (last s) \<and> list_all dnsChar s"

fun noDoubleDash :: "string \<Rightarrow> bool" where
  "noDoubleDash (a # b # s) \<longleftrightarrow> \<not> (a = CHR ''-'' \<and> b = CHR ''-'') \<and> noDoubleDash (b # s)"
| "noDoubleDash _ \<longleftrightarrow> True"

definition clean :: "string \<Rightarrow> bool" where
  "clean s \<longleftrightarrow> list_all dnsChar s \<and> noDoubleDash s \<and> (s \<noteq> [] \<longrightarrow> lowerAlnum (hd s) \<and> lowerAlnum (last s))"

lemma lowerAlnum_not_dash [simp]: "\<not> lowerAlnum CHR ''-''"
  by (simp add: lowerAlnum_def isLowerRune_def isDigitRune_def byte_def)

lemma lowerAlnum_dnsChar [simp]: "lowerAlnum c \<Longrightarrow> dnsChar c"
  by (simp add: dnsChar_def)

lemma dnsChar_dash [simp]: "dnsChar CHR ''-''"
  by (simp add: dnsChar_def)

lemma hex_lowerAlnum: "isHexLower c \<Longrightarrow> lowerAlnum c"
  by (auto simp: isHexLower_def lowerAlnum_def isLowerRune_def)

lemma dnsChar_ascii: "dnsChar c \<Longrightarrow> byte c < 128"
  by (auto simp: dnsChar_def lowerAlnum_def isLowerRune_def isDigitRune_def byte_def)

lemma noDoubleDash_snoc:
  "noDoubleDash (s @ [c]) \<longleftrightarrow> noDoubleDash s \<and> \<not> (s \<noteq> [] \<and> last s = CHR ''-'' \<and> c = CHR ''-'')"
  by (induction s rule: noDoubleDash.induct) auto

lemma noDoubleDash_appendD: "noDoubleDash (s @ t) \<Longrightarrow> noDoubleDash s"
  by (induction s rule: noDoubleDash.induct) auto

text \<open>What the loop keeps of the bytes written so far.\<close>

definition partial :: "string \<Rightarrow> bool \<Rightarrow> bool" where
  "partial b lastDash \<longleftrightarrow> list_all dnsChar b \<and> noDoubleDash b \<and> (b \<noteq> [] \<longrightarrow> lowerAlnum (hd b)) \<and>
     (b \<noteq> [] \<and> last b = CHR ''-'' \<longrightarrow> lastDash)"

lemma partial_alnum: "partial b d \<Longrightarrow> lowerAlnum c \<Longrightarrow> partial (b @ [c]) False"
  by (cases "b = []") (auto simp: partial_def noDoubleDash_snoc)

lemma partial_dash: "partial b False \<Longrightarrow> b \<noteq> [] \<Longrightarrow> partial (b @ ''-'') True"
  by (auto simp: partial_def noDoubleDash_snoc)

lemma written_lowerAlnum: "isLowerRune r \<or> isDigitRune r \<Longrightarrow> lowerAlnum (char_of r)"
  by (auto simp: lowerAlnum_def isLowerRune_def isDigitRune_def byte_def)

lemma sanitizeLoop_partial: "partial b d \<Longrightarrow> \<exists>d'. partial (sanitizeLoop rs b d) d'"
proof (induction rs b d rule: sanitizeLoop.induct)
  case (1 b d)
  then show ?case by auto
next
  case (2 r0 rs b d)
  let ?r = "toLowerRune r0"
  show ?case
  proof (cases "isLowerRune ?r \<or> isDigitRune ?r")
    case True
    with 2 show ?thesis by (simp add: Let_def partial_alnum written_lowerAlnum)
  next
    case False
    have "partial (if \<not> d \<and> b \<noteq> [] then b @ ''-'' else b) True"
      using 2(3) partial_dash [of b] by (cases d) (auto simp: partial_def)
    with False 2(2) show ?thesis by (simp add: Let_def)
  qed
qed

lemma clean_trimmed:
  assumes "list_all dnsChar b" "noDoubleDash b" "b \<noteq> [] \<Longrightarrow> lowerAlnum (hd b)"
  shows "clean (TrimRight b CHR ''-'')"
proof -
  let ?t = "TrimRight b CHR ''-''"
  obtain ys where b: "b = ?t @ ys"
    using trimRightWhile_prefix [of b "\<lambda>x. x = CHR ''-''"] by (auto simp: TrimRight_def)
  have all: "list_all dnsChar ?t" "noDoubleDash ?t"
    using assms(1,2) b noDoubleDash_appendD by (metis list_all_append)+
  moreover have "?t \<noteq> [] \<Longrightarrow> lowerAlnum (hd ?t)"
    using assms(3) b by (metis append_is_Nil_conv hd_append2)
  moreover have "lowerAlnum (last ?t)" if "?t \<noteq> []"
  proof -
    have "last ?t \<noteq> CHR ''-''"
      using that last_trimRightWhile [of "\<lambda>x. x = CHR ''-''" b] by (simp add: TrimRight_def)
    moreover have "dnsChar (last ?t)" using all(1) that by (simp add: list_all_iff)
    ultimately show ?thesis by (simp add: dnsChar_def)
  qed
  ultimately show ?thesis by (simp add: clean_def)
qed

lemma sanitize_clean: "clean (fst (sanitizeRFC1123 s))"
proof -
  have "partial [] False" by (simp add: partial_def)
  then obtain d where "partial (sanitizeLoop (runes s) [] False) d"
    using sanitizeLoop_partial by blast
  then show ?thesis
    by (simp add: sanitizeRFC1123_def Let_def partial_def clean_trimmed)
qed

text \<open>A clean text passes unchanged.\<close>

lemma sanitizeLoop_clean:
  "list_all dnsChar (b @ s) \<Longrightarrow> noDoubleDash (b @ s) \<Longrightarrow> (b = [] \<Longrightarrow> s \<noteq> [] \<Longrightarrow> lowerAlnum (hd s)) \<Longrightarrow>
     (d \<longrightarrow> b \<noteq> [] \<and> last b = CHR ''-'') \<Longrightarrow> sanitizeLoop (map byte s) b d = b @ s"
proof (induction s arbitrary: b d)
  case Nil
  then show ?case by simp
next
  case (Cons c s)
  have lower: "lowerAlnum c \<Longrightarrow> toLowerRune (byte c) = byte c \<and> (isLowerRune (byte c) \<or> isDigitRune (byte c))"
    by (auto simp: lowerAlnum_def toLowerRune_def isLowerRune_def isDigitRune_def)
  have dash: "toLowerRune (byte CHR ''-'') = 45" "\<not> isLowerRune 45" "\<not> isDigitRune 45"
    by (simp_all add: toLowerRune_def isLowerRune_def isDigitRune_def byte_def)
  have app: "(b @ [c]) @ s = b @ c # s" by simp
  from Cons.prems(1) have "dnsChar c" by simp
  then consider "lowerAlnum c" | "c = CHR ''-''" by (auto simp: dnsChar_def)
  then show ?case
  proof cases
    case 1
    have "sanitizeLoop (map byte s) (b @ [c]) False = (b @ [c]) @ s"
      using Cons.prems by (intro Cons.IH) (simp_all only: app, simp_all)
    with 1 lower show ?thesis by (simp add: Let_def)
  next
    case 2
    with Cons.prems(3) have b: "b \<noteq> []" by auto
    have nd: "\<not> d"
    proof
      assume d
      with Cons.prems(4) b obtain b' where "b = b' @ ''-''" by (cases b rule: rev_cases) auto
      with Cons.prems(2) 2 have "noDoubleDash ((b' @ ''-'') @ ''-'' @ s)" by simp
      then have "noDoubleDash ((b' @ ''-'') @ ''-'')"
        using noDoubleDash_appendD [of "(b' @ ''-'') @ ''-''" s] by simp
      then show False by (simp add: noDoubleDash_snoc del: append_assoc)
    qed
    have "sanitizeLoop (map byte s) (b @ [c]) True = (b @ [c]) @ s"
      using Cons.prems 2 by (intro Cons.IH) (simp_all only: app, simp_all)
    with 2 dash nd b show ?thesis by (simp add: Let_def)
  qed
qed

lemma clean_sanitize: "clean s \<Longrightarrow> sanitizeRFC1123 s = (s, False)"
proof -
  assume c: "clean s"
  then have "runes s = map byte s"
    using dnsChar_ascii by (auto simp: clean_def list_all_iff intro: runes_ascii)
  moreover have "sanitizeLoop (map byte s) [] False = [] @ s"
    using c by (intro sanitizeLoop_clean) (auto simp: clean_def)
  moreover have "TrimRight s CHR ''-'' = s"
    unfolding TrimRight_def using c by (intro trimRightWhile_id) (auto simp: clean_def)
  ultimately show ?thesis by (simp add: sanitizeRFC1123_def)
qed

lemma sanitize_unaltered: "snd (sanitizeRFC1123 s) = False \<longleftrightarrow> clean s"
  using sanitize_clean [of s] clean_sanitize [of s] by (auto simp: sanitizeRFC1123_def Let_def)

lemma unaltered_fst: "\<not> snd (sanitizeRFC1123 s) \<Longrightarrow> fst (sanitizeRFC1123 s) = s"
  by (simp add: sanitizeRFC1123_def Let_def)

text \<open>Cutting a clean text and trimming dashes leaves a clean, non-empty text.\<close>

lemma clean_cut:
  assumes "clean s" and "s \<noteq> []" and "0 < n"
  shows "clean (TrimRight (take n s) CHR ''-'')" and "TrimRight (take n s) CHR ''-'' \<noteq> []"
    and "length (TrimRight (take n s) CHR ''-'') \<le> n"
proof -
  have t: "take n s \<noteq> []" "hd (take n s) = hd s" "s = take n s @ drop n s"
    using assms(2,3) by (simp_all add: hd_take)
  have "list_all dnsChar (take n s)" "noDoubleDash (take n s)"
    using assms(1) t(3) noDoubleDash_appendD unfolding clean_def by (metis list_all_append)+
  then show "clean (TrimRight (take n s) CHR ''-'')"
    using assms t(2) by (intro clean_trimmed) (auto simp: clean_def)
  show "TrimRight (take n s) CHR ''-'' \<noteq> []"
  proof
    assume "TrimRight (take n s) CHR ''-'' = []"
    then have "\<forall>c \<in> set (take n s). c = CHR ''-''"
      by (simp add: TrimRight_def trimRightWhile_eq_Nil)
    then have "hd (take n s) = CHR ''-''" using t(1) hd_in_set by blast
    moreover have "lowerAlnum (hd s)" using assms(1,2) by (simp add: clean_def)
    ultimately show False using t(2) lowerAlnum_not_dash by simp
  qed
  show "length (TrimRight (take n s) CHR ''-'') \<le> n"
    unfolding TrimRight_def
    by (rule le_trans [OF length_trimRightWhile]) simp
qed

lemma clean_cut_if:
  assumes "clean s" and "0 < n"
  defines "t \<equiv> if length s > n then TrimRight (take n s) CHR ''-'' else s"
  shows "clean t" and "length t \<le> n" and "t = [] \<longleftrightarrow> s = []"
proof -
  have "s \<noteq> []" if "length s > n" using that by auto
  then show "clean t" "length t \<le> n" "t = [] \<longleftrightarrow> s = []"
    using clean_cut [OF assms(1) _ assms(2)] assms(1) by (cases "length s > n"; simp add: t_def)+
qed

section \<open>Scoped names\<close>

text \<open>The part of the raw id a scoped name shows, and whether the hash is appended.\<close>

definition namePrefix :: "string \<Rightarrow> string \<Rightarrow> string" where
  "namePrefix release kind = releasePrefix release @ kind @ ''-''"

definition idRoom :: "string \<Rightarrow> string \<Rightarrow> nat" where
  "idRoom release kind = maxNameLen - length (namePrefix release kind) - 1 - hashSuffixLength"

definition shownID :: "string \<Rightarrow> string \<Rightarrow> string \<Rightarrow> string" where
  "shownID release kind raw =
     (let out = fst (sanitizeRFC1123 raw); n = idRoom release kind
      in if length out > n then TrimRight (take n out) CHR ''-'' else out)"

definition hashed :: "string \<Rightarrow> string \<Rightarrow> string \<Rightarrow> bool" where
  "hashed release kind raw \<longleftrightarrow> raw = [] \<or> \<not> clean raw \<or> idRoom release kind < length raw"

lemma scopedName_eq:
  "scopedName release kind raw = namePrefix release kind @ shownID release kind raw @
     (if hashed release kind raw then ''-'' @ fnvHash raw else [])"
proof -
  have "snd (sanitizeRFC1123 raw) \<longleftrightarrow> \<not> clean raw" using sanitize_unaltered [of raw] by blast
  moreover have "clean raw \<Longrightarrow> fst (sanitizeRFC1123 raw) = raw" by (simp add: clean_sanitize)
  ultimately show ?thesis
    by (cases "clean raw")
      (auto simp: scopedName_def Let_def shownID_def hashed_def idRoom_def namePrefix_def)
qed

lemma shownID_not_hashed: "\<not> hashed release kind raw \<Longrightarrow> shownID release kind raw = raw"
  by (simp add: hashed_def shownID_def Let_def clean_sanitize)

lemma releasePrefix_cases:
  obtains "releasePrefix release = []"
  | rel where "releasePrefix release = rel @ ''-''" "clean rel" "rel \<noteq> []" "length rel \<le> maxReleaseLen"
proof -
  let ?rel = "fst (sanitizeRFC1123 release)"
  let ?cut = "if length ?rel > maxReleaseLen then TrimRight (take maxReleaseLen ?rel) CHR ''-'' else ?rel"
  have "clean ?cut" "length ?cut \<le> maxReleaseLen"
    by (rule clean_cut_if [OF sanitize_clean]; simp add: maxReleaseLen_def)+
  then show ?thesis
    using that by (cases "?cut = []") (simp_all add: releasePrefix_def Let_def split del: if_split)
qed

lemma length_releasePrefix: "length (releasePrefix release) \<le> 25"
  by (rule releasePrefix_cases [of release]) (simp_all add: maxReleaseLen_def)

lemma releasePrefix_chars: "list_all dnsChar (releasePrefix release)"
  by (rule releasePrefix_cases [of release]) (simp_all add: clean_def)

lemma shownID_clean:
  assumes "0 < idRoom release kind"
  shows "clean (shownID release kind raw)" and "length (shownID release kind raw) \<le> idRoom release kind"
  unfolding shownID_def Let_def by (rule clean_cut_if [OF sanitize_clean assms])+

lemma shownID_nonempty: "\<not> hashed release kind raw \<Longrightarrow> shownID release kind raw \<noteq> []"
  using shownID_not_hashed [of release kind raw] by (auto simp: hashed_def)

lemma hd_namePrefix: "lowerAlnum (hd kind) \<Longrightarrow> kind \<noteq> [] \<Longrightarrow> lowerAlnum (hd (namePrefix release kind))"
  by (rule releasePrefix_cases [of release]) (auto simp: namePrefix_def clean_def)

lemma scopedName_dnsLabel:
  assumes "clean kind" and "kind \<noteq> []" and "length kind \<le> 24"
  shows "dnsLabel (scopedName release kind raw)"
proof -
  let ?p = "namePrefix release kind"
  let ?id = "shownID release kind raw"
  have p: "length ?p + idRoom release kind \<le> 54" "0 < idRoom release kind" "?p \<noteq> []"
    using length_releasePrefix [of release] assms(3)
    by (simp_all add: idRoom_def namePrefix_def maxNameLen_def hashSuffixLength_def)
  have id: "clean ?id" "length ?id \<le> idRoom release kind" using p(2) by (rule shownID_clean)+
  have chars: "list_all dnsChar ?p" "list_all dnsChar ?id" "list_all dnsChar (fnvHash raw)"
    using releasePrefix_chars assms(1) id(1) fnv.digest_hex [of raw] hex_lowerAlnum
    by (auto simp: namePrefix_def clean_def list_all_iff)
  have "lowerAlnum (hd ?p)" using assms by (intro hd_namePrefix) (simp_all add: clean_def)
  moreover have "lowerAlnum (last (scopedName release kind raw))"
  proof (cases "hashed release kind raw")
    case True
    then show ?thesis
      using hex_lowerAlnum [OF fnv.last_name [of "?p @ ?id @ ''-''" raw]] by (simp add: scopedName_eq)
  next
    case False
    then have "?id \<noteq> []" by (rule shownID_nonempty)
    with False id(1) show ?thesis by (simp add: scopedName_eq clean_def)
  qed
  ultimately show ?thesis
    using p id(2) chars fnv.digest_length [of raw]
    by (simp add: dnsLabel_def scopedName_eq)
qed

lemma sandboxPrefix_ok: "clean sandboxPrefix" "sandboxPrefix \<noteq> []" "length sandboxPrefix \<le> 24"
  by (simp_all add: sandboxPrefix_def clean_def dnsChar_def lowerAlnum_def isLowerRune_def byte_def)

text \<open>
  Two ids with the same name under the same release: equal, or an FNV collision, or one is
  shown in full and ends in the hash of the other.
\<close>

lemma scopedName_eq_iff:
  "scopedName release kind s = scopedName release kind t \<longleftrightarrow> s = t \<or>
     (hashed release kind s \<and> hashed release kind t \<and>
        shownID release kind s = shownID release kind t \<and> fnvHash s = fnvHash t) \<or>
     (\<not> hashed release kind s \<and> hashed release kind t \<and> s = shownID release kind t @ ''-'' @ fnvHash t) \<or>
     (\<not> hashed release kind t \<and> hashed release kind s \<and> t = shownID release kind s @ ''-'' @ fnvHash s)"
proof -
  let ?id = "shownID release kind"
  have eq: "scopedName release kind s = scopedName release kind t \<longleftrightarrow>
      ?id s @ (if hashed release kind s then ''-'' @ fnvHash s else [])
      = ?id t @ (if hashed release kind t then ''-'' @ fnvHash t else [])"
    by (simp add: scopedName_eq)
  consider "hashed release kind s" "hashed release kind t" | "hashed release kind s" "\<not> hashed release kind t"
    | "\<not> hashed release kind s" "hashed release kind t" | "\<not> hashed release kind s" "\<not> hashed release kind t"
    by blast
  then show ?thesis
  proof cases
    case 1
    have "(?id s @ ''-'') @ fnvHash s = (?id t @ ''-'') @ fnvHash t \<longleftrightarrow> ?id s = ?id t \<and> fnvHash s = fnvHash t"
      using fnv.split_name [of "?id s @ ''-''" s "?id t @ ''-''" t] by auto
    with 1 show ?thesis unfolding eq by auto
  next
    case 2
    then show ?thesis unfolding eq by (auto simp: shownID_not_hashed)
  next
    case 3
    then show ?thesis unfolding eq by (auto simp: shownID_not_hashed)
  next
    case 4
    then show ?thesis unfolding eq by (simp add: shownID_not_hashed)
  qed
qed

section \<open>Label values\<close>

lemma alnum_lowerAlnum: "lowerAlnum c \<Longrightarrow> alnumRune (byte c)"
  by (auto simp: lowerAlnum_def alnumRune_def)

lemma dnsLabel_isValid: "dnsLabel s \<Longrightarrow> isValidLabelValue s"
proof -
  assume s: "dnsLabel s"
  then have r: "rangeRunes s = zip [0..<length s] (map byte s)"
    using dnsChar_ascii by (intro rangeRunes_ascii) (auto simp: dnsLabel_def list_all_iff)
  have ok: "if i = 0 \<or> int i = int (length s) - 1 then alnumRune (byte (s ! i))
        else alnumRune (byte (s ! i)) \<or> byte (s ! i) = 45 \<or> byte (s ! i) = 95 \<or> byte (s ! i) = 46"
    if "i < length s" for i
  proof -
    have "s ! 0 = hd s" "s ! (length s - 1) = last s"
      using s by (simp_all add: dnsLabel_def hd_conv_nth last_conv_nth)
    then have "alnumRune (byte (s ! 0))" "alnumRune (byte (s ! (length s - 1)))"
      using s by (simp_all add: dnsLabel_def alnum_lowerAlnum)
    moreover have "dnsChar (s ! i)" using s that by (simp add: dnsLabel_def list_all_length)
    moreover have "byte CHR ''-'' = 45" by (simp add: byte_def)
    moreover have "int i = int (length s) - 1 \<longleftrightarrow> i = length s - 1" using that by linarith
    ultimately show ?thesis by (auto simp: dnsChar_def alnum_lowerAlnum)
  qed
  have "list_all (\<lambda>(i, r). if i = 0 \<or> int i = int (length s) - 1 then alnumRune r
      else alnumRune r \<or> r = 45 \<or> r = 95 \<or> r = 46) (rangeRunes s)"
    unfolding r list_all_length using ok by simp
  with s show ?thesis by (simp add: isValidLabelValue_def dnsLabel_def)
qed

lemma LabelValue_shown:
  assumes "v \<noteq> []" and "\<not> isValidLabelValue v"
  obtains out where "LabelValue v = out @ ''-'' @ fnvHash v" and "clean out" and "length out \<le> 54"
    and "out = [] \<longleftrightarrow> fst (sanitizeRFC1123 v) = []"
proof -
  let ?s = "fst (sanitizeRFC1123 v)"
  let ?out = "if length ?s > 54 then TrimRight (take 54 ?s) CHR ''-'' else ?s"
  have "LabelValue v = ?out @ ''-'' @ fnvHash v"
    using assms by (simp add: LabelValue_def Let_def hashSuffixLength_def)
  moreover have "clean ?out" "length ?out \<le> 54" "?out = [] \<longleftrightarrow> ?s = []"
    by (rule clean_cut_if [OF sanitize_clean]; simp)+
  ultimately show ?thesis using that by blast
qed

lemma LabelValue_dnsLabel:
  assumes "v \<noteq> []" and "\<not> isValidLabelValue v" and "fst (sanitizeRFC1123 v) \<noteq> []"
  shows "dnsLabel (LabelValue v)"
proof -
  obtain out where v: "LabelValue v = out @ ''-'' @ fnvHash v" and out: "clean out" "length out \<le> 54" "out \<noteq> []"
    using LabelValue_shown [OF assms(1,2)] assms(3) by metis
  have "list_all dnsChar (fnvHash v)"
    using fnv.digest_hex [of v] hex_lowerAlnum by (auto simp: list_all_iff)
  with v out show ?thesis
    using hex_lowerAlnum [OF fnv.last_name [of "out @ ''-''" v]] fnv.digest_length [of v]
    by (simp add: dnsLabel_def clean_def)
qed

lemma dash_first_invalid: "\<not> isValidLabelValue (CHR ''-'' # s)"
proof -
  have "byte CHR ''-'' = 45" by (simp add: byte_def)
  then show ?thesis
    by (simp add: isValidLabelValue_def rangeRunes_def alnumRune_def isLowerRune_def
        isUpperRune_def isDigitRune_def)
qed

lemma sanitizeLoop_extends: "\<exists>t. sanitizeLoop rs b d = b @ t"
proof (induction rs b d rule: sanitizeLoop.induct)
  case (1 b d)
  then show ?case by simp
next
  case (2 r0 rs b d)
  then show ?case by (cases "isLowerRune (toLowerRune r0) \<or> isDigitRune (toLowerRune r0)")
      (auto simp: Let_def)
qed

lemma alnumRune_lower: "alnumRune r \<Longrightarrow> isLowerRune (toLowerRune r) \<or> isDigitRune (toLowerRune r)"
  by (auto simp: alnumRune_def toLowerRune_def isLowerRune_def isUpperRune_def isDigitRune_def)

lemma valid_first_alnum:
  assumes "isValidLabelValue v" and "v \<noteq> []"
  obtains r rs where "runes v = r # rs" and "alnumRune r"
proof -
  from assms(2) obtain r rest where "rangeRunes v = (0, r) # rest"
    by (simp add: rangeRunes_def rangeFrom.simps [of 0 "map byte v"])
  moreover from this assms(1) have "alnumRune r" by (simp add: isValidLabelValue_def)
  ultimately show ?thesis using that by (simp add: runes_def)
qed

lemma sanitize_valid_nonempty:
  assumes "isValidLabelValue v" and "v \<noteq> []"
  shows "fst (sanitizeRFC1123 v) \<noteq> []"
proof -
  obtain r rs where r: "runes v = r # rs" "alnumRune r" using valid_first_alnum [OF assms] .
  let ?c = "char_of (toLowerRune r) :: char"
  obtain t where "sanitizeLoop (runes v) [] False = [?c] @ t"
    using sanitizeLoop_extends [of rs "[?c]" False] alnumRune_lower [OF r(2)] r(1) by (auto simp: Let_def)
  moreover have "?c \<noteq> CHR ''-''"
    using written_lowerAlnum [OF alnumRune_lower [OF r(2)]] lowerAlnum_not_dash by metis
  ultimately show ?thesis
    by (simp add: sanitizeRFC1123_def TrimRight_def trimRightWhile_eq_Nil Let_def)
qed

section \<open>Work-order Secret names\<close>

lemma lengthPrefixed_inject:
  assumes "lengthPrefixed p @ r = lengthPrefixed q @ t"
  shows "p = q" and "r = t"
proof -
  have nc: "CHR '':'' \<notin> set (decNat n)" for n
    using decNat_digits [of n] sign_not_digit(3) by (auto simp: list_all_iff)
  have "decNat (length p) @ CHR '':'' # (p @ r) = decNat (length q) @ CHR '':'' # (q @ t)"
    using assms by (simp add: lengthPrefixed_def)
  from separator_inject [OF this nc nc] have "length p = length q" "p @ r = q @ t" by simp_all
  then show "p = q" and "r = t" by simp_all
qed

lemma secretEncoding_inject:
  "length ps = length qs \<Longrightarrow> secretEncoding ps = secretEncoding qs \<Longrightarrow> ps = qs"
proof (induction ps qs rule: list_induct2)
  case Nil
  then show ?case by simp
next
  case (Cons p ps q qs)
  then have eq: "lengthPrefixed p @ secretEncoding ps = lengthPrefixed q @ secretEncoding qs"
    by (simp add: secretEncoding_def)
  from lengthPrefixed_inject [OF eq] Cons.IH show ?case by simp
qed

lemma WorkOrderSecretName_digest:
  assumes "WorkOrderSecretName r s u orderID = WorkOrderSecretName r' s' u' order'"
  shows "releasePrefix r = releasePrefix r'"
    and "sha256 (secretEncoding [r, s, u, orderID]) = sha256 (secretEncoding [r', s', u', order'])"
proof -
  have "(releasePrefix r @ secretPrefix @ ''-'') @ secretDigest (secretEncoding [r, s, u, orderID])
      = (releasePrefix r' @ secretPrefix @ ''-'') @ secretDigest (secretEncoding [r', s', u', order'])"
    using assms by (simp add: WorkOrderSecretName_def)
  from sha.split_name [OF this]
  show "releasePrefix r = releasePrefix r'"
    and "sha256 (secretEncoding [r, s, u, orderID]) = sha256 (secretEncoding [r', s', u', order'])"
    by (simp_all add: secretDigest_def hexEncode_inject)
qed

lemma WorkOrderSecretName_nonempty [simp]: "WorkOrderSecretName r s u orderID \<noteq> []"
  by (simp add: WorkOrderSecretName_def)

lemma WorkOrderSecretName_cong:
  "releasePrefix r = releasePrefix r' \<Longrightarrow>
     sha256 (secretEncoding [r, s, u, orderID]) = sha256 (secretEncoding [r', s', u', order']) \<Longrightarrow>
     WorkOrderSecretName r s u orderID = WorkOrderSecretName r' s' u' order'"
  by (simp add: WorkOrderSecretName_def secretDigest_def)

section \<open>Properties\<close>

text \<open>
  C27: Whatever the release and the session id, the name of a session's Sandbox is a DNS label:
  not empty, at most 63 bytes, of lower-case letters, digits and dashes, and with a letter or a
  digit at both ends.
\<close>

theorem SandboxName_dnsLabel: "dnsLabel (SandboxName release sessionID)"
  unfolding SandboxName_def using sandboxPrefix_ok by (rule scopedName_dnsLabel)

text \<open>
  C36: Two sessions of a release share a Sandbox name only when they are the same session, when
  both ids are hashed to the same FNV-1a value with the same shown part, or when one of them is
  literally the shown part and the hash of the other.
\<close>

theorem SandboxName_eq_iff:
  "SandboxName release s = SandboxName release t \<longleftrightarrow> s = t \<or>
     (hashed release sandboxPrefix s \<and> hashed release sandboxPrefix t \<and>
        shownID release sandboxPrefix s = shownID release sandboxPrefix t \<and> fnvHash s = fnvHash t) \<or>
     (\<not> hashed release sandboxPrefix s \<and> hashed release sandboxPrefix t \<and>
        s = shownID release sandboxPrefix t @ ''-'' @ fnvHash t) \<or>
     (\<not> hashed release sandboxPrefix t \<and> hashed release sandboxPrefix s \<and>
        t = shownID release sandboxPrefix s @ ''-'' @ fnvHash s)"
  unfolding SandboxName_def by (rule scopedName_eq_iff)

text \<open>
  C37: \<open>LabelValue\<close> yields a valid label value for the empty input and for every input out of
  which sanitizing leaves something; exactly for the rest, such as a text of underscores only,
  it yields a value that starts with a dash, which the API server rejects.
\<close>

theorem LabelValue_invalid_iff:
  "\<not> isValidLabelValue (LabelValue v) \<longleftrightarrow> v \<noteq> [] \<and> fst (sanitizeRFC1123 v) = []"
proof (cases "v = [] \<or> isValidLabelValue v")
  case True
  moreover have "isValidLabelValue []" by (simp add: isValidLabelValue_def rangeRunes_def)
  moreover from True have "LabelValue v = v" by (auto simp: LabelValue_def)
  ultimately show ?thesis
    using sanitize_valid_nonempty [of v] by auto
next
  case False
  then obtain out where out: "LabelValue v = out @ ''-'' @ fnvHash v" "out = [] \<longleftrightarrow> fst (sanitizeRFC1123 v) = []"
    using LabelValue_shown by blast
  show ?thesis
  proof (cases "fst (sanitizeRFC1123 v) = []")
    case True
    with out False show ?thesis by (simp add: dash_first_invalid)
  next
    case nonempty: False
    with False show ?thesis by (simp add: LabelValue_dnsLabel dnsLabel_isValid)
  qed
qed

text \<open>
  C26: Two work-order Secrets have the same name only for the same release, session, Sandbox
  UID and order, or when SHA-256 collides on their encodings under releases of one prefix.
\<close>

theorem WorkOrderSecretName_eq_iff:
  "WorkOrderSecretName r s u orderID = WorkOrderSecretName r' s' u' order' \<longleftrightarrow>
     (r, s, u, orderID) = (r', s', u', order') \<or>
     (releasePrefix r = releasePrefix r' \<and>
      secretEncoding [r, s, u, orderID] \<noteq> secretEncoding [r', s', u', order'] \<and>
      sha256 (secretEncoding [r, s, u, orderID]) = sha256 (secretEncoding [r', s', u', order']))"
  (is "?name \<longleftrightarrow> ?same \<or> ?collide")
proof
  assume ?name
  note d = WorkOrderSecretName_digest [OF this]
  show "?same \<or> ?collide"
  proof (cases "secretEncoding [r, s, u, orderID] = secretEncoding [r', s', u', order']")
    case True
    then have "[r, s, u, orderID] = [r', s', u', order']" by (rule secretEncoding_inject [rotated]) simp
    then show ?thesis by simp
  next
    case False
    with d show ?thesis by simp
  qed
next
  assume "?same \<or> ?collide"
  then show ?name by (auto intro: WorkOrderSecretName_cong)
qed

end
