(* ===== verification/GoTime.thy ===== *)
theory GoTime
  imports GoStrings "HOL-Library.Monad_Syntax"
begin

text \<open>
  What the program uses of package time: instants (nanoseconds since the Unix epoch),
  durations (64-bit nanoseconds, with the saturation of \<open>Time.Sub\<close> and the wrap-around of
  duration arithmetic), and the RFC 3339 text of an instant in UTC with its parser, as
  \<open>Time.Format\<close> and \<open>time.Parse\<close> have them.
\<close>

type_synonym gotime = int
type_synonym duration = int

definition nsPerSec :: int where "nsPerSec = 1000000000"

section \<open>Durations\<close>

definition wrapInt64 :: "int \<Rightarrow> int" where
  "wrapInt64 x = (x + 2 ^ 63) mod 2 ^ 64 - 2 ^ 63"

text \<open>\<open>t.Sub(u)\<close> saturates at the least and the greatest duration.\<close>

definition timeSub :: "gotime \<Rightarrow> gotime \<Rightarrow> duration" where
  "timeSub t u = max minInt64 (min maxInt64 (t - u))"

lemma wrapInt64_id: "inInt64 x \<Longrightarrow> wrapInt64 x = x"
  by (simp add: wrapInt64_def inInt64_def minInt64_def maxInt64_def)

lemma wrapInt64_range: "inInt64 (wrapInt64 x)"
proof -
  have "0 \<le> (x + 2 ^ 63) mod 2 ^ 64" and "(x + 2 ^ 63) mod 2 ^ 64 < 2 ^ 64" by simp_all
  then show ?thesis by (simp add: wrapInt64_def inInt64_def minInt64_def maxInt64_def)
qed

text \<open>\<open>d.Truncate(m)\<close> rounds towards zero; a step that is not positive changes nothing.\<close>

definition durTruncate :: "duration \<Rightarrow> duration \<Rightarrow> duration" where
  "durTruncate d m = (if m \<le> 0 then d else if 0 \<le> d then d - d mod m else d + (- d) mod m)"

lemma timeSub_range: "inInt64 (timeSub t u)"
  by (simp add: timeSub_def inInt64_def minInt64_def maxInt64_def)

lemma timeSub_exact: "inInt64 (t - u) \<Longrightarrow> timeSub t u = t - u"
  by (simp add: timeSub_def inInt64_def)

lemma timeSub_ge: "d \<le> maxInt64 \<Longrightarrow> minInt64 < d \<Longrightarrow> d \<le> timeSub t u \<longleftrightarrow> d \<le> t - u"
  by (auto simp: timeSub_def)

section \<open>The calendar\<close>

text \<open>Days are counted from 1 January of year 0 of the proleptic Gregorian calendar.\<close>

definition leapYear :: "nat \<Rightarrow> bool" where
  "leapYear y \<longleftrightarrow> y mod 4 = 0 \<and> (y mod 100 \<noteq> 0 \<or> y mod 400 = 0)"

definition daysBefore :: "nat \<Rightarrow> nat" where
  "daysBefore y = 365 * y + (y + 3) div 4 - (y + 99) div 100 + (y + 399) div 400"

definition yearLen :: "nat \<Rightarrow> nat" where
  "yearLen y = (if leapYear y then 366 else 365)"

lemma div_Suc_step: "0 < k \<Longrightarrow> (y + k) div k = (y + (k - 1)) div k + (if y mod k = 0 then 1 else (0::nat))"
proof -
  assume k: "0 < k"
  show ?thesis
  proof (cases "y mod k = 0")
    case True
    then obtain q where y: "y = k * q" by (metis mod_0_imp_dvd dvd_def)
    have "(k * q + (k - 1)) div k = q" using k by (simp add: div_nat_eqI)
    then show ?thesis using k y by simp
  next
    case False
    define q r where "q = y div k" and "r = y mod k"
    then have y: "y = k * q + r" and r: "0 < r" "r < k" using k False by simp_all
    have "(k * q + r + (k - 1)) div k = q + 1"
      using r by (intro div_nat_eqI) (simp_all add: algebra_simps)
    moreover have "(k * q + r + k) div k = q + 1"
      using r by (intro div_nat_eqI) (simp_all add: algebra_simps)
    ultimately show ?thesis using False y r by simp
  qed
qed

definition divisibleBy :: "nat \<Rightarrow> nat \<Rightarrow> nat" where
  "divisibleBy k y = (if y mod k = 0 then 1 else 0)"

lemma leap_count:
  "(p100 \<Longrightarrow> p4) \<Longrightarrow> (p400 \<Longrightarrow> p100) \<Longrightarrow>
     (if p4 \<and> (\<not> p100 \<or> p400) then 366 else 365) + (if p100 then 1 else 0)
     = 365 + (if p4 then 1 else 0) + (if p400 then 1 else (0 :: nat))"
  by (cases p4; cases p100; cases p400) simp_all

lemma yearLen_divisible: "yearLen y + divisibleBy 100 y = 365 + divisibleBy 4 y + divisibleBy 400 y"
  unfolding yearLen_def leapYear_def divisibleBy_def 
  using mod_mod_cancel [of 4 100 y] mod_mod_cancel [of 100 400 y] by (intro leap_count) simp_all

lemma daysBefore_step:
  fixes A B C :: nat
  assumes "B \<le> A" and "b \<le> 1" and "l + b = 365 + a + c"
  shows "365 * Suc y + (A + a) - (B + b) + (C + c) = 365 * y + A - B + C + l"
proof -
  from assms(1) obtain k where A: "A = B + k" by (rule less_eqE)
  have "365 * Suc y + (B + k + a) - (B + b) = 365 * y + k + (365 + a - b)"
    using assms(2) by simp
  moreover have "365 * y + (B + k) - B = 365 * y + k" by simp
  moreover have "365 + a - b + c = l" using assms(2,3) by simp
  ultimately show ?thesis unfolding A by simp
qed

lemma div_next: "0 < k \<Longrightarrow> (Suc y + (k - 1)) div k = (y + (k - 1)) div k + divisibleBy k y"
  using div_Suc_step [of k y] by (simp add: divisibleBy_def)

lemma daysBefore_Suc: "daysBefore (Suc y) = daysBefore y + yearLen y"
proof -
  have s4: "(Suc y + 3) div 4 = (y + 3) div 4 + divisibleBy 4 y"
    and s100: "(Suc y + 99) div 100 = (y + 99) div 100 + divisibleBy 100 y"
    and s400: "(Suc y + 399) div 400 = (y + 399) div 400 + divisibleBy 400 y"
    using div_next [of 4 y] div_next [of 100 y] div_next [of 400 y] by simp_all
  have "(y + 99) div 100 \<le> (y + 3) div 4" by linarith
  then show ?thesis
    unfolding daysBefore_def s4 s100 s400
    by (rule daysBefore_step) (simp add: divisibleBy_def, rule yearLen_divisible)
qed

lemma daysBefore_0 [simp]: "daysBefore 0 = 0"
  by (simp add: daysBefore_def)

lemma daysBefore_le: "daysBefore y \<le> 366 * y"
  by (induction y) (auto simp: daysBefore_Suc yearLen_def)

lemma daysBefore_ge: "365 * y \<le> daysBefore y"
  by (induction y) (auto simp: daysBefore_Suc yearLen_def)

lemma daysBefore_less_Suc: "daysBefore y < daysBefore (Suc y)"
  by (simp add: daysBefore_Suc yearLen_def)

lemma daysBefore_strict_mono: "y < z \<Longrightarrow> daysBefore y < daysBefore z"
  by (rule lift_Suc_mono_less [of daysBefore, OF daysBefore_less_Suc])

text \<open>The year of a day: the first year from an estimate that is never too late.\<close>

function yearFrom :: "nat \<Rightarrow> nat \<Rightarrow> nat" where
  "yearFrom y d = (if d < daysBefore (Suc y) then y else yearFrom (Suc y) d)"
  by pat_completeness auto
termination
proof (relation "measure (\<lambda>(y, d). d - daysBefore y)")
  fix y d
  assume "\<not> d < daysBefore (Suc y)"
  with daysBefore_less_Suc [of y] show "((Suc y, d), (y, d)) \<in> measure (\<lambda>(y, d). d - daysBefore y)"
    by simp
qed simp

declare yearFrom.simps [simp del]

definition yearOf :: "nat \<Rightarrow> nat" where
  "yearOf d = yearFrom (d div 366) d"

lemma yearFrom_bounds:
  "daysBefore y \<le> d \<Longrightarrow> daysBefore (yearFrom y d) \<le> d \<and> d < daysBefore (Suc (yearFrom y d))"
  by (induction y d rule: yearFrom.induct) (subst (1 2) yearFrom.simps, simp)

lemma yearOf_bounds: "daysBefore (yearOf d) \<le> d" "d < daysBefore (Suc (yearOf d))"
proof -
  have "daysBefore (d div 366) \<le> d"
    using daysBefore_le [of "d div 366"] by (metis le_trans mult.commute times_div_less_eq_dividend)
  from yearFrom_bounds [OF this] show "daysBefore (yearOf d) \<le> d" "d < daysBefore (Suc (yearOf d))"
    by (simp_all add: yearOf_def)
qed

definition monthLens :: "nat \<Rightarrow> nat list" where
  "monthLens y = [31, if leapYear y then 29 else 28, 31, 30, 31, 30, 31, 31, 30, 31, 30, 31]"

lemma sum_monthLens: "sum_list (monthLens y) = yearLen y"
  by (simp add: monthLens_def yearLen_def)

text \<open>Month (from 1) and day of the month (from 0) of a day of the year.\<close>

fun monthDay :: "nat list \<Rightarrow> nat \<Rightarrow> nat \<times> nat" where
  "monthDay [] d = (1, d)"
| "monthDay (l # ls) d = (if d < l then (1, d) else (let md = monthDay ls (d - l) in (Suc (fst md), snd md)))"

lemma monthDay_spec:
  "d < sum_list ls \<Longrightarrow> monthDay ls d = (m, x) \<Longrightarrow>
     1 \<le> m \<and> m \<le> length ls \<and> x < ls ! (m - 1) \<and> d = sum_list (take (m - 1) ls) + x"
proof (induction ls d arbitrary: m x rule: monthDay.induct)
  case (1 d)
  then show ?case by simp
next
  case (2 l ls d)
  show ?case
  proof (cases "d < l")
    case True
    with "2.prems" show ?thesis by auto
  next
    case False
    obtain m' x' where md: "monthDay ls (d - l) = (m', x')" by fastforce
    with False "2.prems" have m: "m = Suc m'" "x = x'" by simp_all
    from False "2.prems" md have "1 \<le> m' \<and> m' \<le> length ls \<and> x' < ls ! (m' - 1) \<and>
        d - l = sum_list (take (m' - 1) ls) + x'"
      by (intro "2.IH") simp_all
    with False m show ?thesis by (cases m') auto
  qed
qed

section \<open>RFC 3339\<close>

text \<open>Seconds from year 0 to the Unix epoch.\<close>

definition epochSecs :: int where
  "epochSecs = int (daysBefore 1970) * 86400"

definition pad2 :: "nat \<Rightarrow> string" where
  "pad2 n = [digitChar (n div 10 mod 10), digitChar (n mod 10)]"

definition pad4 :: "nat \<Rightarrow> string" where
  "pad4 n = (if n < 10000 then pad2 (n div 100) @ pad2 (n mod 100) else decNat n)"

text \<open>\<open>t.UTC().Format(time.RFC3339)\<close>, for instants from year 0 on.\<close>

definition formatRFC3339 :: "gotime \<Rightarrow> string" where
  "formatRFC3339 t =
     (let s = nat (t div nsPerSec + epochSecs); d = s div 86400; sd = s mod 86400;
          y = yearOf d; md = monthDay (monthLens y) (d - daysBefore y)
      in pad4 y @ ''-'' @ pad2 (fst md) @ ''-'' @ pad2 (snd md + 1) @ ''T'' @
         pad2 (sd div 3600) @ '':'' @ pad2 (sd mod 3600 div 60) @ '':'' @ pad2 (sd mod 60) @ ''Z'')"

fun num2 :: "string \<Rightarrow> (nat \<times> string) option" where
  "num2 (a # b # s) = (if isDigit a \<and> isDigit b then Some (10 * digitVal a + digitVal b, s) else None)"
| "num2 _ = None"

text \<open>The hour may have one digit in Go's general parser.\<close>

fun num12 :: "string \<Rightarrow> (nat \<times> string) option" where
  "num12 (a # s) = (if \<not> isDigit a then None
     else case s of b # s' \<Rightarrow> (if isDigit b then Some (10 * digitVal a + digitVal b, s') else Some (digitVal a, s))
        | [] \<Rightarrow> Some (digitVal a, s))"
| "num12 [] = None"

fun lit :: "char \<Rightarrow> string \<Rightarrow> string option" where
  "lit c (x # s) = (if x = c then Some s else None)"
| "lit c [] = None"

definition check :: "bool \<Rightarrow> unit option" where
  "check b = (if b then Some () else None)"

text \<open>A fraction after the seconds: a period or comma and digits, read to nanoseconds.\<close>

definition fraction :: "string \<Rightarrow> int \<times> string" where
  "fraction s = (case s of
     p # c # r \<Rightarrow> (if (p = CHR ''.'' \<or> p = CHR '','') \<and> isDigit c
        then (let ds = takeWhile isDigit (c # r); k = take 9 ds
              in (int (digitsVal k) * 10 ^ (9 - length k), dropWhile isDigit (c # r)))
        else (0, s))
   | _ \<Rightarrow> (0, s))"

definition zoneOffset :: "string \<Rightarrow> int option" where
  "zoneOffset s = (if s = ''Z'' then Some 0 else
     (case s of g # r \<Rightarrow> do {
         check (g = CHR ''+'' \<or> g = CHR ''-'');
         (h, r) \<leftarrow> num2 r; r \<leftarrow> lit CHR '':'' r; (m, r) \<leftarrow> num2 r;
         check (r = [] \<and> h \<le> 24 \<and> m \<le> 60);
         Some ((if g = CHR ''-'' then - 1 else 1) * (int h * 60 + int m) * 60)
       }
     | [] \<Rightarrow> None))"

text \<open>\<open>time.Parse(time.RFC3339, s)\<close>; \<open>None\<close> is its error.\<close>

definition parseRFC3339 :: "string \<Rightarrow> gotime option" where
  "parseRFC3339 s = do {
     (yh, s) \<leftarrow> num2 s; (yl, s) \<leftarrow> num2 s; s \<leftarrow> lit CHR ''-'' s;
     (mo, s) \<leftarrow> num2 s; check (1 \<le> mo \<and> mo \<le> 12); s \<leftarrow> lit CHR ''-'' s;
     (dd, s) \<leftarrow> num2 s; s \<leftarrow> lit CHR ''T'' s;
     (h, s) \<leftarrow> num12 s; check (h < 24); s \<leftarrow> lit CHR '':'' s;
     (mi, s) \<leftarrow> num2 s; check (mi < 60); s \<leftarrow> lit CHR '':'' s;
     (se, s) \<leftarrow> num2 s; check (se < 60);
     let (ns, s) = fraction s;
     off \<leftarrow> zoneOffset s;
     let y = 100 * yh + yl;
     check (1 \<le> dd \<and> dd \<le> monthLens y ! (mo - 1));
     let d = daysBefore y + sum_list (take (mo - 1) (monthLens y)) + (dd - 1);
     Some ((int (d * 86400 + h * 3600 + mi * 60 + se) - epochSecs - off) * nsPerSec + ns)
   }"

lemma num2_pad2: "n < 100 \<Longrightarrow> num2 (pad2 n @ s) = Some (n, s)"
  by (simp add: pad2_def)

lemma num12_pad2: "n < 100 \<Longrightarrow> num12 (pad2 n @ s) = Some (n, s)"
  by (simp add: pad2_def)

definition yearZeroTo9999 :: "gotime \<Rightarrow> bool" where
  "yearZeroTo9999 t \<longleftrightarrow> 0 \<le> t div nsPerSec + epochSecs \<and>
     t div nsPerSec + epochSecs < int (daysBefore 10000) * 86400"

lemma yearOf_less_10000: "d < daysBefore 10000 \<Longrightarrow> yearOf d < 10000"
  using yearOf_bounds(1) [of d] daysBefore_strict_mono [of 10000 "yearOf d"]
  by (metis linorder_neqE_nat not_less_iff_gr_or_eq order_le_less_trans)

lemma parse_parts:
  assumes "y < 10000" and mo: "1 \<le> mo" "mo \<le> 12" and "x < monthLens y ! (mo - 1)"
    and "h < 24" "mi < 60" "se < 60"
  shows "parseRFC3339 (pad4 y @ ''-'' @ pad2 mo @ ''-'' @ pad2 (x + 1) @ ''T'' @
           pad2 h @ '':'' @ pad2 mi @ '':'' @ pad2 se @ ''Z'')
       = Some ((int ((daysBefore y + sum_list (take (mo - 1) (monthLens y)) + x) * 86400
            + h * 3600 + mi * 60 + se) - epochSecs) * nsPerSec)"
proof -
  have "\<forall>l \<in> set (monthLens y). l \<le> 31" by (simp add: monthLens_def)
  moreover have "mo - 1 < length (monthLens y)" using mo by (simp add: monthLens_def)
  ultimately have "monthLens y ! (mo - 1) \<le> 31" using nth_mem by blast
  then have "x + 1 < 100" using assms(4) by simp
  moreover have "100 * (y div 100) + y mod 100 = y" by simp
  ultimately show ?thesis
    using assms by (simp add: parseRFC3339_def pad4_def num2_pad2 num12_pad2 check_def fraction_def
        zoneOffset_def del: One_nat_def)
qed

lemma add_parts:
  "s = a + r \<Longrightarrow> r = b + q \<Longrightarrow> q = c + p \<Longrightarrow> p = u \<Longrightarrow> a + b + c + u = (s :: nat)"
  by simp

lemma parse_format:
  assumes "yearZeroTo9999 t"
  shows "parseRFC3339 (formatRFC3339 t) = Some (t div nsPerSec * nsPerSec)"
proof -
  define s where "s = nat (t div nsPerSec + epochSecs)"
  define d where "d = s div 86400"
  define sd where "sd = s mod 86400"
  define y where "y = yearOf d"
  obtain mo x where md: "monthDay (monthLens y) (d - daysBefore y) = (mo, x)" by fastforce
  have s: "int s = t div nsPerSec + epochSecs" "s < daysBefore 10000 * 86400"
    using assms by (simp_all add: s_def yearZeroTo9999_def nat_less_iff)
  have "d < daysBefore 10000" using s(2) by (simp add: d_def less_mult_imp_div_less)
  then have y: "y < 10000" by (simp add: y_def yearOf_less_10000)
  have b: "daysBefore y \<le> d" "d < daysBefore (Suc y)" by (simp_all add: y_def yearOf_bounds)
  then have yd: "d - daysBefore y < sum_list (monthLens y)"
    by (simp add: sum_monthLens daysBefore_Suc)
  note m = monthDay_spec [OF yd md]
  then have d: "daysBefore y + sum_list (take (mo - 1) (monthLens y)) + x = d" using b(1) by linarith
  have "sd < 86400" by (simp add: sd_def)
  then have sd: "sd div 3600 < 24" "sd mod 3600 div 60 < 60" "sd mod 60 < 60"
    by (simp_all add: less_mult_imp_div_less)
  have hms: "d * 86400 + sd div 3600 * 3600 + sd mod 3600 div 60 * 60 + sd mod 60 = s"
  proof (rule add_parts)
    show "s = d * 86400 + sd" by (simp add: d_def sd_def)
    show "sd = sd div 3600 * 3600 + sd mod 3600" by simp
    show "sd mod 3600 = sd mod 3600 div 60 * 60 + sd mod 3600 mod 60" by simp
    show "sd mod 3600 mod 60 = sd mod 60" by (simp add: mod_mod_cancel)
  qed
  from hms have val: "(int (d * 86400 + sd div 3600 * 3600 + sd mod 3600 div 60 * 60 + sd mod 60) - epochSecs)
      * nsPerSec = t div nsPerSec * nsPerSec"
    using s(1) by simp
  have fmt: "formatRFC3339 t = pad4 y @ ''-'' @ pad2 mo @ ''-'' @ pad2 (x + 1) @ ''T'' @
      pad2 (sd div 3600) @ '':'' @ pad2 (sd mod 3600 div 60) @ '':'' @ pad2 (sd mod 60) @ ''Z''"
    unfolding formatRFC3339_def Let_def s_def [symmetric] d_def [symmetric] sd_def [symmetric]
      y_def [symmetric] md fst_conv snd_conv by (rule refl)
  have "1 \<le> mo" "mo \<le> 12" "x < monthLens y ! (mo - 1)"
    using m by (simp_all add: monthLens_def)
  from parse_parts [OF y this sd] show ?thesis
    unfolding fmt d val .
qed

lemma formatRFC3339_nonempty [simp]: "formatRFC3339 t \<noteq> []"
  by (simp add: formatRFC3339_def Let_def)

interpretation rfc3339: text_codec formatRFC3339 parseRFC3339 yearZeroTo9999
  "\<lambda>t. t div nsPerSec * nsPerSec"
  by unfold_locales (simp_all add: parse_format)

end
