(* ===== verification/KubeTypes.thy ===== *)
theory KubeTypes
  imports Naming GoTime
begin

text \<open>
  The API objects the program reads and writes, with the fields its code touches and an
  opaque rest for each object whose other fields it only carries along, and the classes of
  client errors its code tells apart. The field names are the Go field names behind a short
  prefix; \<open>metadata\<close> is flattened, as Go promotes the fields of the embedded ObjectMeta.
\<close>

section \<open>Shared parts\<close>

record ownerRef =
  or_apiVersion :: string
  or_kind :: string
  or_name :: string
  or_uid :: string
  or_controller :: "bool option"
  or_blockOwnerDeletion :: "bool option"

record volumeMount =
  vm_name :: string
  vm_mountPath :: string
  vm_readOnly :: bool
  vm_subPath :: string
  vm_other :: string

record container =
  c_name :: string
  c_args :: "string list"
  c_mounts :: "volumeMount list"
  c_other :: string

record secretSource =
  ss_secretName :: string
  ss_other :: string

text \<open>A volume: its secret source, if it has one, and whatever else its source says.\<close>

record volume =
  v_name :: string
  v_secret :: "secretSource option"
  v_other :: string

record podSpec =
  ps_containers :: "container list"
  ps_volumes :: "volume list"
  ps_restartPolicy :: string
  ps_automountToken :: "bool option"
  ps_graceSeconds :: "int option"
  ps_other :: string

record podTemplate =
  pt_labels :: strmap
  pt_annotations :: strmap
  pt_spec :: podSpec

section \<open>Sandboxes\<close>

datatype operatingMode = Running | Suspended | OtherMode string

record condition =
  cd_type :: string
  cd_status :: string
  cd_reason :: string
  cd_message :: string
  cd_observedGeneration :: int

definition ConditionTrue :: string where "ConditionTrue = ''True''"
definition ConditionFalse :: string where "ConditionFalse = ''False''"
definition ConditionUnknown :: string where "ConditionUnknown = ''Unknown''"

definition SandboxConditionFinished :: string where "SandboxConditionFinished = ''Finished''"
definition SandboxConditionSuspended :: string where "SandboxConditionSuspended = ''Suspended''"
definition SandboxConditionReady :: string where "SandboxConditionReady = ''Ready''"
definition SandboxReasonMultiplePods :: string where "SandboxReasonMultiplePods = ''MultiplePods''"

record claimTemplate =
  vct_name :: string
  vct_other :: string

text \<open>A timestamp pointer is \<open>None\<close> when its \<open>IsZero\<close> holds.\<close>

record sandbox =
  sb_apiVersion :: string
  sb_kind :: string
  sb_name :: string
  sb_namespace :: string
  sb_uid :: string
  sb_resourceVersion :: string
  sb_generation :: int
  sb_labels :: strmap
  sb_annotations :: strmap
  sb_deletionTimestamp :: "gotime option"
  sb_operatingMode :: operatingMode
  sb_shutdownTime :: "gotime option"
  sb_shutdownPolicy :: "string option"
  sb_podTemplate :: podTemplate
  sb_claimTemplates :: "claimTemplate list"
  sb_conditions :: "condition list"
  sb_other :: string

section \<open>Secrets and Pods\<close>

record secret =
  se_name :: string
  se_namespace :: string
  se_labels :: strmap
  se_annotations :: strmap
  se_owners :: "ownerRef list"
  se_immutable :: "bool option"
  se_type :: string
  se_data :: "string \<rightharpoonup> string"

record pod =
  p_name :: string
  p_uid :: string
  p_annotations :: strmap
  p_owners :: "ownerRef list"
  p_deletionTimestamp :: "gotime option"
  p_volumes :: "volume list"
  p_phase :: string
  p_nodeName :: string

section \<open>Client errors\<close>

text \<open>
  The classes \<open>apierrors.IsNotFound\<close>, \<open>IsAlreadyExists\<close> and their kin and
  \<open>meta.IsNoMatchError\<close> tell apart; an error of no class keeps its text.
\<close>

datatype apiError = NotFound | AlreadyExists | Conflict | Invalid | Forbidden | Unauthorized
  | BadRequest | NoMatch | OtherError string

section \<open>Reading annotations\<close>

abbreviation annot :: "sandbox \<Rightarrow> string \<Rightarrow> string" where
  "annot sb k \<equiv> mget (sb_annotations sb) k"

abbreviation label :: "sandbox \<Rightarrow> string \<Rightarrow> string" where
  "label sb k \<equiv> mget (sb_labels sb) k"

definition deleting :: "sandbox \<Rightarrow> bool" where
  "deleting sb \<longleftrightarrow> sb_deletionTimestamp sb \<noteq> None"

text \<open>The order a Sandbox has accepted: what the hook compares a request with.\<close>

abbreviation pendingOf :: "sandbox \<Rightarrow> string" where
  "pendingOf sb \<equiv> annot sb AnnotationPendingSpawn"

abbreviation lastOrderOf :: "sandbox \<Rightarrow> string" where
  "lastOrderOf sb \<equiv> annot sb AnnotationLastOrderID"

section \<open>A sample object\<close>

text \<open>A template as the chart renders one, at which the witnesses evaluate the theorems.\<close>

definition samplePodTemplate :: podTemplate where
  "samplePodTemplate = \<lparr>pt_labels = [''team'' \<mapsto> ''a''], pt_annotations = Map.empty,
     pt_spec = \<lparr>ps_containers = [\<lparr>c_name = RunnerContainerName, c_args = [''--lock-to-account'', ''old'', ''-v''],
                   c_mounts = [\<lparr>vm_name = WorkspaceClaimName, vm_mountPath = ''/tmp'', vm_readOnly = True,
                                vm_subPath = ''x'', vm_other = []\<rparr>], c_other = []\<rparr>],
                ps_volumes = [\<lparr>v_name = WorkspaceClaimName, v_secret = None, v_other = ''emptyDir''\<rparr>,
                              \<lparr>v_name = WorkOrderVolumeName, v_secret = None, v_other = ''emptyDir''\<rparr>],
                ps_restartPolicy = ''Always'', ps_automountToken = None, ps_graceSeconds = None, ps_other = []\<rparr>\<rparr>"

definition sampleTemplate :: sandbox where
  "sampleTemplate = \<lparr>sb_apiVersion = ''agents.x-k8s.io/v1beta1'', sb_kind = ''Sandbox'', sb_name = ''template'',
     sb_namespace = [], sb_uid = [], sb_resourceVersion = [], sb_generation = 0,
     sb_labels = [LabelName \<mapsto> ComponentRunner, LabelInstance \<mapsto> ''rel'', LabelPartOf \<mapsto> PartOf],
     sb_annotations = Map.empty, sb_deletionTimestamp = None, sb_operatingMode = Running,
     sb_shutdownTime = Some 0, sb_shutdownPolicy = Some ''Delete'', sb_podTemplate = samplePodTemplate,
     sb_claimTemplates = [\<lparr>vct_name = WorkspaceClaimName, vct_other = []\<rparr>],
     sb_conditions = [], sb_other = []\<rparr>"

end
