(* ===== verification/Patch.thy ===== *)
theory Patch
  imports KubeTypes
begin

text \<open>
  internal/patch: merge patches pinned to the UID and resourceVersion of the object they
  were computed from. JSON documents are modelled as Go decodes them, an object being a map.
  RFC 7386, the semantics of the patch type the code asks for, is \<open>mergePatch\<close>; the
  library that computes a patch from two documents is a parameter.
\<close>

section \<open>JSON\<close>

datatype json = JNull | JBool bool | JNum int | JStr string | JArr "json list"
  | JObj "string \<Rightarrow> json option"

fun members :: "json \<Rightarrow> string \<Rightarrow> json option" where
  "members (JObj m) = m"
| "members _ = Map.empty"

fun isObj :: "json \<Rightarrow> bool" where
  "isObj (JObj m) = True"
| "isObj _ = False"

fun isNull :: "json \<Rightarrow> bool" where
  "isNull JNull = True"
| "isNull _ = False"

lemma isObj_members: "isObj j \<Longrightarrow> j = JObj (members j)"
  by (cases j) auto

text \<open>RFC 7386: \<open>mergePatch p t\<close> applies the patch \<open>p\<close> to the target \<open>t\<close>.\<close>

definition mergeField :: "json option \<Rightarrow> (json \<Rightarrow> json) option \<Rightarrow> json option \<Rightarrow> json option" where
  "mergeField v merge cur = (case v of None \<Rightarrow> cur
     | Some v \<Rightarrow> (if isNull v then None
         else map_option (\<lambda>f. f (case cur of None \<Rightarrow> JNull | Some x \<Rightarrow> x)) merge))"

primrec mergePatch :: "json \<Rightarrow> json \<Rightarrow> json" where
  "mergePatch JNull t = JNull"
| "mergePatch (JBool b) t = JBool b"
| "mergePatch (JNum n) t = JNum n"
| "mergePatch (JStr s) t = JStr s"
| "mergePatch (JArr js) t = JArr js"
| "mergePatch (JObj p) t = JObj (\<lambda>k. mergeField (p k) ((map_option mergePatch \<circ> p) k) (members t k))"

lemma members_mergePatch:
  "members (mergePatch (JObj p) t) k =
     (case p k of None \<Rightarrow> members t k
      | Some v \<Rightarrow> (if isNull v then None
          else Some (mergePatch v (case members t k of None \<Rightarrow> JNull | Some x \<Rightarrow> x))))"
  by (simp add: mergeField_def split: option.splits)

lemma isObj_mergePatch [simp]: "isObj (mergePatch (JObj p) t)"
  by simp

declare mergePatch.simps(6) [simp del]

lemma obj_eqI: "isObj a \<Longrightarrow> isObj b \<Longrightarrow> (\<And>k. members a k = members b k) \<Longrightarrow> a = b"
  by (cases a; cases b) auto

text \<open>A merge patch cannot set a field to null: documents without null fields.\<close>

primrec nullFree :: "json \<Rightarrow> bool" where
  "nullFree JNull \<longleftrightarrow> False"
| "nullFree (JBool b) \<longleftrightarrow> True"
| "nullFree (JNum n) \<longleftrightarrow> True"
| "nullFree (JStr s) \<longleftrightarrow> True"
| "nullFree (JArr js) \<longleftrightarrow> True"
| "nullFree (JObj m) \<longleftrightarrow> (\<forall>k. case (map_option nullFree \<circ> m) k of None \<Rightarrow> True | Some b \<Rightarrow> b)"

section \<open>The libraries\<close>

text \<open>
  Code that is not part of this repository, as parameters: the JSON encoding of a Sandbox,
  the merge-patch library, the condition lookup and the controller-owner lookup of
  apimachinery, and the strict YAML decoder.
\<close>

record k8sLib =
  lib_marshal :: "sandbox \<Rightarrow> json option"
  lib_createMergePatch :: "json \<Rightarrow> json \<Rightarrow> json option"
  lib_findStatusCondition :: "condition list \<Rightarrow> string \<Rightarrow> condition option"
  lib_getControllerOf :: "ownerRef list \<Rightarrow> ownerRef option"
  lib_unmarshalStrict :: "string \<Rightarrow> sandbox option"

text \<open>
  The documented behaviour of \<open>jsonpatch.CreateMergePatch\<close>: the result is a patch document
  that turns the first document into the second, which a merge patch can do when the second
  has no null fields.
\<close>

definition mergePatchLaw :: "k8sLib \<Rightarrow> bool" where
  "mergePatchLaw lib \<longleftrightarrow> (\<forall>orig mutated p. lib_createMergePatch lib orig mutated = Some p \<longrightarrow>
     nullFree mutated \<longrightarrow> mergePatch p orig = mutated)"

section \<open>Optimistic\<close>

datatype patchError = LacksIdentity | MarshalFailed | CreateFailed | NotAnObject

text \<open>A field of a decoded document that should be an object: Go's checked type assertion.\<close>

definition objectField :: "(string \<Rightarrow> json option) \<Rightarrow> string \<Rightarrow> (string \<Rightarrow> json option)" where
  "objectField doc k = (case doc k of Some (JObj m) \<Rightarrow> m | _ \<Rightarrow> Map.empty)"

definition pinnedDoc :: "string \<Rightarrow> string \<Rightarrow> (string \<Rightarrow> json option) \<Rightarrow> json" where
  "pinnedDoc rv uid doc =
     JObj (doc(''metadata'' \<mapsto> JObj ((objectField doc ''metadata'')
       (''resourceVersion'' \<mapsto> JStr rv, ''uid'' \<mapsto> JStr uid))))"

definition Optimistic :: "k8sLib \<Rightarrow> sandbox \<Rightarrow> sandbox \<Rightarrow> patchError + json" where
  "Optimistic lib orig mutated =
     (if sb_resourceVersion orig = [] \<or> sb_uid orig = [] then Inl LacksIdentity
      else case lib_marshal lib orig of None \<Rightarrow> Inl MarshalFailed
        | Some origJSON \<Rightarrow> (case lib_marshal lib mutated of None \<Rightarrow> Inl MarshalFailed
          | Some mutJSON \<Rightarrow> (case lib_createMergePatch lib origJSON mutJSON of None \<Rightarrow> Inl CreateFailed
            | Some (JObj doc) \<Rightarrow> Inr (pinnedDoc (sb_resourceVersion orig) (sb_uid orig) doc)
            | Some _ \<Rightarrow> Inl NotAnObject)))"

definition IsStale :: "apiError \<Rightarrow> bool" where
  "IsStale e \<longleftrightarrow> e = Conflict \<or> e = Invalid \<or> e = NotFound"

section \<open>Every patch is pinned\<close>

text \<open>The preconditions the API server reads off a patch document.\<close>

definition pinOf :: "json \<Rightarrow> string \<Rightarrow> json option" where
  "pinOf p k = objectField (members p) ''metadata'' k"

lemma pinOf_pinnedDoc [simp]:
  "pinOf (pinnedDoc rv uid doc) ''resourceVersion'' = Some (JStr rv)"
  "pinOf (pinnedDoc rv uid doc) ''uid'' = Some (JStr uid)"
  by (simp_all add: pinOf_def pinnedDoc_def objectField_def)

lemma Optimistic_InrE:
  assumes "Optimistic lib orig mutated = Inr p"
  obtains origJSON mutJSON doc where "sb_resourceVersion orig \<noteq> []" and "sb_uid orig \<noteq> []"
    and "lib_marshal lib orig = Some origJSON" and "lib_marshal lib mutated = Some mutJSON"
    and "lib_createMergePatch lib origJSON mutJSON = Some (JObj doc)"
    and "p = pinnedDoc (sb_resourceVersion orig) (sb_uid orig) doc"
  using assms by (auto simp: Optimistic_def split: if_splits option.splits json.splits)

lemma Optimistic_pins:
  assumes "Optimistic lib orig mutated = Inr p"
  shows "pinOf p ''resourceVersion'' = Some (JStr (sb_resourceVersion orig))"
    and "pinOf p ''uid'' = Some (JStr (sb_uid orig))"
    and "sb_resourceVersion orig \<noteq> []" and "sb_uid orig \<noteq> []"
  using assms by (auto elim!: Optimistic_InrE)

text \<open>
  Setting the pins changes nothing of what the patch does, when the patched document has
  the identity the pins name: the metadata object of the result already carries both.
\<close>

lemma mergePatch_pinned:
  assumes "mergePatch (JObj doc) t = m"
    and "members m ''metadata'' = Some (JObj md)"
    and "md ''resourceVersion'' = Some (JStr rv)" and "md ''uid'' = Some (JStr uid)"
  shows "mergePatch (pinnedDoc rv uid doc) t = m"
proof -
  let ?x = "case members t ''metadata'' of None \<Rightarrow> JNull | Some x \<Rightarrow> x"
  let ?d = "(objectField doc ''metadata'')(''resourceVersion'' \<mapsto> JStr rv, ''uid'' \<mapsto> JStr uid)"
  have base: "members (mergePatch (JObj (objectField doc ''metadata'')) ?x) = md"
  proof (cases "doc ''metadata''")
    case None
    with assms(1,2) have "members t ''metadata'' = Some (JObj md)"
      using members_mergePatch [of doc t "''metadata''"] by simp
    with None show ?thesis by (simp add: fun_eq_iff members_mergePatch objectField_def)
  next
    case (Some v)
    with assms(1,2) have "\<not> isNull v" "mergePatch v ?x = JObj md"
      using members_mergePatch [of doc t "''metadata''"] by (auto split: if_splits)
    then show ?thesis using Some by (cases v) (simp_all add: objectField_def)
  qed
  have "mergePatch (JObj ?d) ?x = JObj md"
  proof (rule obj_eqI)
    fix k
    show "members (mergePatch (JObj ?d) ?x) k = members (JObj md) k"
      using assms(3,4) fun_cong [OF base, of k] unfolding members_mergePatch by auto
  qed simp_all
  then have "members (mergePatch (pinnedDoc rv uid doc) t) k = members m k" for k
    using assms(1,2) unfolding pinnedDoc_def
    by (cases "k = ''metadata''") (auto simp: members_mergePatch)
  then show ?thesis
    using assms(1) by (intro obj_eqI) (auto simp: pinnedDoc_def)
qed

lemma Optimistic_effect:
  assumes "mergePatchLaw lib" and "Optimistic lib orig mutated = Inr p"
    and "lib_marshal lib orig = Some origJSON" and "lib_marshal lib mutated = Some mutJSON"
    and "nullFree mutJSON" and "members mutJSON ''metadata'' = Some (JObj md)"
    and "md ''resourceVersion'' = Some (JStr (sb_resourceVersion orig))"
    and "md ''uid'' = Some (JStr (sb_uid orig))"
  shows "mergePatch p origJSON = mutJSON"
proof -
  obtain doc where doc: "lib_createMergePatch lib origJSON mutJSON = Some (JObj doc)"
    and p: "p = pinnedDoc (sb_resourceVersion orig) (sb_uid orig) doc"
    using assms(2-4) by (auto elim!: Optimistic_InrE)
  have "mergePatch (JObj doc) origJSON = mutJSON"
    using assms(1,5) doc unfolding mergePatchLaw_def by blast
  then show ?thesis unfolding p using assms(6-8) by (rule mergePatch_pinned)
qed

text \<open>A patch of a document applied twice is the same patch: pins are idempotent.\<close>

lemma pinnedDoc_idem: "pinnedDoc rv uid (members (pinnedDoc rv uid doc)) = pinnedDoc rv uid doc"
  by (simp add: pinnedDoc_def objectField_def)

section \<open>A merge-patch library\<close>

text \<open>
  The law asked of the library is satisfiable: \<open>diff\<close> computes such patches, a null for each
  member to delete, the difference of the values for each member to set.
\<close>

definition diffField :: "(json \<Rightarrow> json) option \<Rightarrow> json option \<Rightarrow> json option" where
  "diffField d cur = (case d of
     None \<Rightarrow> (case cur of None \<Rightarrow> None | Some _ \<Rightarrow> Some JNull)
   | Some f \<Rightarrow> Some (f (case cur of None \<Rightarrow> JNull | Some x \<Rightarrow> x)))"

primrec diff :: "json \<Rightarrow> json \<Rightarrow> json" where
  "diff JNull t = JNull"
| "diff (JBool b) t = JBool b"
| "diff (JNum n) t = JNum n"
| "diff (JStr s) t = JStr s"
| "diff (JArr js) t = JArr js"
| "diff (JObj m) t = JObj (\<lambda>k. diffField ((map_option diff \<circ> m) k) (members t k))"

lemma isNull_diff [simp]: "isNull (diff j t) \<longleftrightarrow> isNull j"
  by (cases j) auto

lemma diff_merges: "nullFree m \<Longrightarrow> mergePatch (diff m t) t = m"
proof (induction m arbitrary: t)
  case (JObj f)
  have "members (mergePatch (diff (JObj f) t) t) k = f k" for k
  proof (cases "f k")
    case None
    then show ?thesis by (auto simp: members_mergePatch diffField_def split: option.splits)
  next
    case (Some v)
    then have v: "nullFree v" using JObj.prems by (auto dest: spec [of _ k])
    then have "mergePatch (diff v u) u = v" for u using JObj.IH [of "Some v" v] Some by (auto intro: rangeI dest: sym)
    moreover have "\<not> isNull v" using v by (cases v) auto
    ultimately show ?thesis using Some by (simp add: members_mergePatch diffField_def)
  qed
  then show ?case by (intro obj_eqI) auto
qed auto

definition sampleMarshal :: "sandbox \<Rightarrow> json option" where
  "sampleMarshal sb = Some (JObj [''metadata'' \<mapsto> JObj [''name'' \<mapsto> JStr (sb_name sb),
       ''resourceVersion'' \<mapsto> JStr (sb_resourceVersion sb), ''uid'' \<mapsto> JStr (sb_uid sb),
       ''annotations'' \<mapsto> JObj (map_option JStr \<circ> sb_annotations sb)],
     ''spec'' \<mapsto> JObj [''operatingMode'' \<mapsto> JStr (case sb_operatingMode sb of Running \<Rightarrow> ''Running''
       | Suspended \<Rightarrow> ''Suspended'' | OtherMode s \<Rightarrow> s)]])"

definition sampleLib :: k8sLib where
  "sampleLib = \<lparr>lib_marshal = sampleMarshal, lib_createMergePatch = \<lambda>orig mut. Some (diff mut orig),
     lib_findStatusCondition = \<lambda>cs t. find (\<lambda>c. cd_type c = t) cs,
     lib_getControllerOf = find (\<lambda>r. or_controller r = Some True),
     lib_unmarshalStrict = \<lambda>raw. if raw = [] then None else Some sampleTemplate\<rparr>"

lemma sampleLib_law: "mergePatchLaw sampleLib"
  by (simp add: mergePatchLaw_def sampleLib_def diff_merges)

section \<open>Properties\<close>

text \<open>
  C25: A patch computed from an object and its mutated copy turns the document of the one into
  the document of the other, no more and no less, and carries the UID and the resourceVersion
  of the object as read, both non-empty, as preconditions.
\<close>

theorem Optimistic_correct:
  assumes "mergePatchLaw lib" and "Optimistic lib orig mutated = Inr p"
    and "lib_marshal lib orig = Some origJSON" and "lib_marshal lib mutated = Some mutJSON"
    and "nullFree mutJSON" and "members mutJSON ''metadata'' = Some (JObj md)"
    and "md ''resourceVersion'' = Some (JStr (sb_resourceVersion orig))"
    and "md ''uid'' = Some (JStr (sb_uid orig))"
  shows "mergePatch p origJSON = mutJSON \<and>
     pinOf p ''resourceVersion'' = Some (JStr (sb_resourceVersion orig)) \<and>
     pinOf p ''uid'' = Some (JStr (sb_uid orig)) \<and> sb_resourceVersion orig \<noteq> [] \<and> sb_uid orig \<noteq> []"
  using Optimistic_effect [OF assms] Optimistic_pins [OF assms(2)] by simp

definition sampleLive :: sandbox where
  "sampleLive = sampleTemplate\<lparr>sb_uid := ''u1'', sb_resourceVersion := ''7''\<rparr>"

lemma sample_Optimistic: "\<exists>p. Optimistic sampleLib sampleLive (sampleLive\<lparr>sb_operatingMode := Suspended\<rparr>) = Inr p"
  by (simp add: Optimistic_def sampleLib_def sampleMarshal_def sampleLive_def sampleTemplate_def)

theorem Optimistic_correct_witness:
  "\<exists>p a b. Optimistic sampleLib sampleLive (sampleLive\<lparr>sb_operatingMode := Suspended\<rparr>) = Inr p \<and>
     sampleMarshal sampleLive = Some a \<and> sampleMarshal (sampleLive\<lparr>sb_operatingMode := Suspended\<rparr>) = Some b \<and>
     mergePatch p a = b \<and> pinOf p ''resourceVersion'' = Some (JStr ''7'')"
proof -
  let ?mut = "sampleLive\<lparr>sb_operatingMode := Suspended\<rparr>"
  obtain p where p: "Optimistic sampleLib sampleLive ?mut = Inr p" using sample_Optimistic by blast
  obtain a b where m: "lib_marshal sampleLib sampleLive = Some a" "lib_marshal sampleLib ?mut = Some b"
    by (simp add: sampleLib_def sampleMarshal_def)
  obtain md where md: "members b ''metadata'' = Some (JObj md)"
      "md ''resourceVersion'' = Some (JStr (sb_resourceVersion sampleLive))"
      "md ''uid'' = Some (JStr (sb_uid sampleLive))" and n: "nullFree b"
    using m(2) by (auto simp: sampleLib_def sampleMarshal_def sampleLive_def sampleTemplate_def
        split: option.splits)
  have "mergePatch p a = b \<and> pinOf p ''resourceVersion'' = Some (JStr ''7'')"
    using Optimistic_correct [OF sampleLib_law p m n md] by (simp add: sampleLive_def)
  with p m show ?thesis by (auto simp: sampleLib_def)
qed

end
