(* ===== verification/Client.thy ===== *)
theory Client
  imports Patch
begin

text \<open>
  Programs that talk to the Kubernetes API. A program is a tree of calls: each node is one
  request, its children are indexed by the response. The code of the hook and of the
  controller is written as such programs, so that a theorem about one speaks of every
  response the API server, other writers and a cancelled context may produce. \<open>run\<close> feeds
  a program a list of responses; \<open>wp\<close> is the weakest-precondition calculus over programs.
\<close>

section \<open>Calls and responses\<close>

text \<open>
  Why the session controller rejects a work-order Secret and why it deletes a Sandbox, with the
  values its messages show; an event carries its arguments as Go values.
\<close>

datatype secretError = NotImmutable | NoWorkOrderKey | ForOtherOrder string | AttemptMismatch string string
  | ForOtherSession | NameNotDerived | NotOwned

datatype gcReason = IdleFor duration duration | AmongOldest nat int

datatype eventArg = StrArg string | DurArg duration | ErrArg secretError | ReasonArg gcReason

record event =
  ev_sandbox :: string
  ev_type :: string
  ev_reason :: string
  ev_args :: "eventArg list"

text \<open>
  \<open>PatchSandbox orig mutated doc\<close> sends the patch document \<open>doc\<close>, computed from the object
  as read and as mutated. \<open>Pause\<close> is a sleep in milliseconds that a cancelled context ends.
\<close>

datatype call =
    ReadFile string
  | GetSandbox string string
  | ListSandboxes string strmap
  | CreateSandbox sandbox
  | PatchSandbox sandbox sandbox json
  | DeleteSandbox string string string string
  | GetSecret string string
  | CreateSecret secret
  | ListPods string strmap
  | Emit event
  | Now
  | Pause nat

datatype resp =
    RErr apiError
  | ROk
  | RBytes string
  | RSandbox sandbox
  | RSandboxes "sandbox list"
  | RSecret secret
  | RPods "pod list"
  | RTime gotime

definition isWrite :: "call \<Rightarrow> bool" where
  "isWrite c = (case c of CreateSandbox _ \<Rightarrow> True | PatchSandbox _ _ _ \<Rightarrow> True
     | DeleteSandbox _ _ _ _ \<Rightarrow> True | CreateSecret _ \<Rightarrow> True | _ \<Rightarrow> False)"

lemma isWrite_simps [simp]:
  "\<not> isWrite (ReadFile p)" "\<not> isWrite (GetSandbox ns n)" "\<not> isWrite (ListSandboxes ns sel)"
  "isWrite (CreateSandbox sb)" "isWrite (PatchSandbox sb mut doc)" "isWrite (DeleteSandbox ns n u rv)"
  "\<not> isWrite (GetSecret ns n)" "isWrite (CreateSecret se)" "\<not> isWrite (ListPods ns sel)"
  "\<not> isWrite (Emit e)" "\<not> isWrite Now" "\<not> isWrite (Pause d)"
  by (simp_all add: isWrite_def)

section \<open>Programs\<close>

datatype 'a prog = Ret 'a | Call call "resp \<Rightarrow> 'a prog"

primrec bindP :: "'a prog \<Rightarrow> ('a \<Rightarrow> 'b prog) \<Rightarrow> 'b prog" where
  "bindP (Ret x) f = f x"
| "bindP (Call c k) f = Call c (\<lambda>r. bindP (k r) f)"

lemma bindP_Ret [simp]: "bindP p Ret = p"
  by (induction p) auto

lemma bindP_assoc: "bindP (bindP p f) g = bindP p (\<lambda>x. bindP (f x) g)"
  by (induction p) auto

text \<open>
  Go's \<open>if err := m; err != nil { return err }\<close>: go on with the value, or return the error.
\<close>

definition thenP :: "('e + 'a) prog \<Rightarrow> ('a \<Rightarrow> ('e + 'b) prog) \<Rightarrow> ('e + 'b) prog" where
  "thenP p f = bindP p (\<lambda>x. case x of Inl e \<Rightarrow> Ret (Inl e) | Inr a \<Rightarrow> f a)"

section \<open>The client's methods\<close>

text \<open>
  A response of another kind than the one asked for cannot be decoded into the object the
  caller passed: the client returns an error.
\<close>

definition undecodable :: apiError where "undecodable = OtherError ''response cannot be decoded''"

definition asOk :: "resp \<Rightarrow> apiError + unit" where
  "asOk r = (case r of RErr e \<Rightarrow> Inl e | _ \<Rightarrow> Inr ())"

definition asBytes :: "resp \<Rightarrow> apiError + string" where
  "asBytes r = (case r of RErr e \<Rightarrow> Inl e | RBytes s \<Rightarrow> Inr s | _ \<Rightarrow> Inl undecodable)"

definition asSandbox :: "resp \<Rightarrow> apiError + sandbox" where
  "asSandbox r = (case r of RErr e \<Rightarrow> Inl e | RSandbox sb \<Rightarrow> Inr sb | _ \<Rightarrow> Inl undecodable)"

definition asSandboxes :: "resp \<Rightarrow> apiError + sandbox list" where
  "asSandboxes r = (case r of RErr e \<Rightarrow> Inl e | RSandboxes l \<Rightarrow> Inr l | _ \<Rightarrow> Inl undecodable)"

definition asSecret :: "resp \<Rightarrow> apiError + secret" where
  "asSecret r = (case r of RErr e \<Rightarrow> Inl e | RSecret s \<Rightarrow> Inr s | _ \<Rightarrow> Inl undecodable)"

definition asPods :: "resp \<Rightarrow> apiError + pod list" where
  "asPods r = (case r of RErr e \<Rightarrow> Inl e | RPods l \<Rightarrow> Inr l | _ \<Rightarrow> Inl undecodable)"

definition asTime :: "resp \<Rightarrow> gotime" where
  "asTime r = (case r of RTime t \<Rightarrow> t | _ \<Rightarrow> 0)"

lemmas decode_simps =
  asOk_def asBytes_def asSandbox_def asSandboxes_def asSecret_def asPods_def asTime_def

definition request :: "(resp \<Rightarrow> 'a) \<Rightarrow> call \<Rightarrow> 'a prog" where
  "request dec c = Call c (\<lambda>r. Ret (dec r))"

section \<open>Running a program\<close>

fun run :: "'a prog \<Rightarrow> resp list \<Rightarrow> (call \<times> resp) list \<times> 'a option" where
  "run (Ret x) rs = ([], Some x)"
| "run (Call c k) [] = ([], None)"
| "run (Call c k) (r # rs) = (let (tr, y) = run (k r) rs in ((c, r) # tr, y))"

text \<open>
  The history of a run, the latest exchange first, and the calls a run issues, each with the
  history it is issued after; the last call may be unanswered.
\<close>

type_synonym history = "(call \<times> resp) list"

fun issuedAt :: "'a prog \<Rightarrow> history \<Rightarrow> resp list \<Rightarrow> (history \<times> call) list" where
  "issuedAt (Ret x) h rs = []"
| "issuedAt (Call c k) h [] = [(h, c)]"
| "issuedAt (Call c k) h (r # rs) = (h, c) # issuedAt (k r) ((c, r) # h) rs"

definition issued :: "'a prog \<Rightarrow> resp list \<Rightarrow> call list" where
  "issued p rs = map snd (issuedAt p [] rs)"

definition finalHistory :: "'a prog \<Rightarrow> resp list \<Rightarrow> history" where
  "finalHistory p rs = rev (fst (run p rs))"

definition result :: "'a prog \<Rightarrow> resp list \<Rightarrow> 'a option" where
  "result p rs = snd (run p rs)"

lemma result_simps [simp]:
  "result (Ret x) rs = Some x"
  "result (Call c k) [] = None"
  "result (Call c k) (r # rs) = result (k r) rs"
  by (simp_all add: result_def split: prod.splits)

text \<open>Turning the value returned into another changes neither the calls nor when they are issued.\<close>

lemma issuedAt_bindP_Ret [simp]: "issuedAt (bindP p (\<lambda>x. Ret (f x))) h rs = issuedAt p h rs"
  by (induction p h rs rule: issuedAt.induct) auto

lemma result_bindP_Ret [simp]: "result (bindP p (\<lambda>x. Ret (f x))) rs = map_option f (result p rs)"
  by (induction p rs rule: run.induct) auto

lemma issuedAt_extends: "(h', c) \<in> set (issuedAt p h rs) \<Longrightarrow> \<exists>e. h' = e @ h"
  by (induction p h rs rule: issuedAt.induct) auto

lemma run_bindP:
  "run p rs = (tr, Some x) \<Longrightarrow> run (bindP p f) rs = (let (tr', y) = run (f x) (drop (length tr) rs) in (tr @ tr', y))"
proof (induction p rs arbitrary: tr rule: run.induct)
  case (3 c k r rs)
  then obtain tr1 where "run (k r) rs = (tr1, Some x)" "tr = (c, r) # tr1" by (auto split: prod.splits)
  with 3(1) [of tr1] show ?case by (simp split: prod.splits)
qed auto

section \<open>Weakest preconditions\<close>

text \<open>
  \<open>wp P Q p h\<close>: run after the history \<open>h\<close>, whatever responses arrive, every call \<open>c\<close> of \<open>p\<close>
  satisfies \<open>P h' c\<close> for the history \<open>h'\<close> it is issued after, and the value returned satisfies
  \<open>Q\<close> with the history at the end.
\<close>

primrec wp :: "(history \<Rightarrow> call \<Rightarrow> bool) \<Rightarrow> ('a \<Rightarrow> history \<Rightarrow> bool) \<Rightarrow> 'a prog \<Rightarrow> history \<Rightarrow> bool" where
  "wp P Q (Ret x) h \<longleftrightarrow> Q x h"
| "wp P Q (Call c k) h \<longleftrightarrow> P h c \<and> (\<forall>r. wp P Q (k r) ((c, r) # h))"

lemma wp_bindP [prog_simps]: "wp P Q (bindP p f) h \<longleftrightarrow> wp P (\<lambda>x. wp P Q (f x)) p h"
  by (induction p arbitrary: h) auto

lemma wp_request [prog_simps]: "wp P Q (request dec c) h \<longleftrightarrow> P h c \<and> (\<forall>r. Q (dec r) ((c, r) # h))"
  by (simp add: request_def)

lemma wp_thenP [prog_simps]:
  "wp P Q (thenP p f) h \<longleftrightarrow> wp P (\<lambda>x h. case x of Inl e \<Rightarrow> Q (Inl e) h | Inr a \<Rightarrow> wp P Q (f a) h) p h"
proof -
  have "(\<lambda>x. wp P Q (case x of Inl e \<Rightarrow> Ret (Inl e) | Inr a \<Rightarrow> f a))
      = (\<lambda>x h. case x of Inl e \<Rightarrow> Q (Inl e) h | Inr a \<Rightarrow> wp P Q (f a) h)"
    by (intro ext) (simp split: sum.splits)
  then show ?thesis by (simp add: thenP_def wp_bindP)
qed

text \<open>Consequence; every history of the run extends the one it starts with.\<close>

lemma wp_mono:
  assumes "wp P Q p h" and "\<And>e c. P (e @ h) c \<Longrightarrow> P' (e @ h) c" and "\<And>x e. Q x (e @ h) \<Longrightarrow> Q' x (e @ h)"
  shows "wp P' Q' p h"
  using assms
proof (induction p arbitrary: h)
  case (Ret x)
  from Ret(3) [of x "[]"] Ret(1) show ?case by simp
next
  case (Call c k)
  have "wp P' Q' (k r) ((c, r) # h)" for r
  proof (rule Call.IH)
    show "wp P Q (k r) ((c, r) # h)" using Call.prems(1) by simp
    show "P' (e @ (c, r) # h) d" if "P (e @ (c, r) # h) d" for e d
      using Call.prems(2) [of "e @ [(c, r)]"] that by simp
    show "Q' x (e @ (c, r) # h)" if "Q x (e @ (c, r) # h)" for x e
      using Call.prems(3) [of x "e @ [(c, r)]"] that by simp
  qed simp
  moreover have "P' h c" using Call.prems(2) [of "[]" c] Call.prems(1) by simp
  ultimately show ?case by simp
qed

lemma wp_weaken: "wp P Q p h \<Longrightarrow> (\<And>x e. Q x (e @ h) \<Longrightarrow> Q' x (e @ h)) \<Longrightarrow> wp P Q' p h"
  by (rule wp_mono)

lemma wp_conj: "wp P Q p h \<Longrightarrow> wp P' Q' p h \<Longrightarrow> wp (\<lambda>h c. P h c \<and> P' h c) (\<lambda>x h. Q x h \<and> Q' x h) p h"
  by (induction p arbitrary: h) auto

lemma wp_True [simp]: "wp (\<lambda>_ _. True) (\<lambda>_ _. True) p h"
  by (induction p arbitrary: h) auto

lemma wp_forget: "wp P (\<lambda>_ _. True) p h \<Longrightarrow> wp P (\<lambda>_ _. True) (bindP p (\<lambda>_. Ret ())) h"
  unfolding wp_bindP by (erule wp_weaken) simp

text \<open>What \<open>wp\<close> says of runs.\<close>

lemma wp_issuedAt: "wp P Q p h \<Longrightarrow> (h', c) \<in> set (issuedAt p h rs) \<Longrightarrow> P h' c"
  by (induction p h rs rule: issuedAt.induct) auto

lemma wp_issued: "wp (\<lambda>_. P) Q p [] \<Longrightarrow> c \<in> set (issued p rs) \<Longrightarrow> P c"
  unfolding issued_def by (auto dest: wp_issuedAt)

lemma wp_run:
  "wp P Q p h \<Longrightarrow> run p rs = (tr, Some x) \<Longrightarrow> Q x (rev tr @ h)"
proof (induction p rs arbitrary: h tr rule: run.induct)
  case (3 c k r rs)
  then obtain tr' where "run (k r) rs = (tr', Some x)" "tr = (c, r) # tr'"
    by (auto split: prod.splits)
  with 3 show ?case by fastforce
qed auto

lemma wp_final: "wp P Q p [] \<Longrightarrow> result p rs = Some x \<Longrightarrow> Q x (finalHistory p rs)"
  using wp_run [of P Q p "[]" rs "fst (run p rs)" x]
  by (simp add: result_def finalHistory_def prod_eq_iff)

lemma wp_result: "wp P (\<lambda>x _. Q x) p [] \<Longrightarrow> result p rs = Some x \<Longrightarrow> Q x"
  by (rule wp_final)

section \<open>Decoding\<close>

lemma decode_Inr [simp]:
  "asSandbox r = Inr sb \<longleftrightarrow> r = RSandbox sb" "asSandboxes r = Inr l \<longleftrightarrow> r = RSandboxes l"
  "asSecret r = Inr se \<longleftrightarrow> r = RSecret se" "asPods r = Inr ps \<longleftrightarrow> r = RPods ps"
  "asBytes r = Inr bs \<longleftrightarrow> r = RBytes bs"
  by (simp_all add: decode_simps split: resp.splits)

lemma decode_NotFound [simp]:
  "asSandbox r = Inl NotFound \<longleftrightarrow> r = RErr NotFound" "asOk r = Inl e \<longleftrightarrow> r = RErr e"
  by (auto simp: decode_simps undecodable_def split: resp.splits)

section \<open>Bounded programs\<close>

text \<open>Under a bound on the calls, enough responses give a result.\<close>

primrec callsWithin :: "'a prog \<Rightarrow> nat \<Rightarrow> bool" where
  "callsWithin (Ret x) n \<longleftrightarrow> True"
| "callsWithin (Call c k) n \<longleftrightarrow> 0 < n \<and> (\<forall>r. callsWithin (k r) (n - 1))"

lemma callsWithin_mono: "callsWithin p m \<Longrightarrow> m \<le> n \<Longrightarrow> callsWithin p n"
proof (induction p arbitrary: m n)
  case (Ret x)
  then show ?case by simp
next
  case (Call c k)
  have "callsWithin (k r) (n - 1)" for r
  proof (rule Call.IH)
    show "callsWithin (k r) (m - 1)" using Call.prems(1) by simp
    show "m - 1 \<le> n - 1" using Call.prems(2) by (rule diff_le_mono)
  qed simp
  with Call.prems show ?case by simp
qed

lemma callsWithin_bindP:
  "callsWithin p m \<Longrightarrow> (\<And>x. callsWithin (f x) n) \<Longrightarrow> callsWithin (bindP p f) (m + n)"
proof (induction p arbitrary: m)
  case (Ret x)
  have "callsWithin (f x) (m + n)" by (rule callsWithin_mono [OF Ret.prems(2)]) simp
  then show ?case by simp
next
  case (Call c k)
  have "callsWithin (bindP (k r) f) (m - 1 + n)" for r
    using Call.prems by (intro Call.IH) auto
  moreover have "0 < m" using Call.prems(1) by simp
  then have "m - 1 + n = m + n - 1" by simp
  ultimately show ?case using \<open>0 < m\<close> by simp
qed

lemma callsWithin_thenP:
  "callsWithin p m \<Longrightarrow> (\<And>x. callsWithin (f x) n) \<Longrightarrow> callsWithin (thenP p f) (m + n)"
  unfolding thenP_def by (rule callsWithin_bindP) (auto split: sum.splits)

lemma callsWithin_request [simp]: "0 < n \<Longrightarrow> callsWithin (request dec c) n"
  by (simp add: request_def)

lemma callsWithin_result: "callsWithin p n \<Longrightarrow> n \<le> length rs \<Longrightarrow> \<exists>x. result p rs = Some x"
proof (induction p arbitrary: n rs)
  case (Ret x)
  then show ?case by simp
next
  case (Call c k)
  then obtain r rs' where "rs = r # rs'" by (cases rs) auto
  with Call show ?case by (auto intro: Call.IH [of _ "n - 1"])
qed

lemma callsWithin_issuedAt: "callsWithin p n \<Longrightarrow> length (issuedAt p h rs) \<le> n"
proof (induction p h rs arbitrary: n rule: issuedAt.induct)
  case (3 c k h r rs)
  then have "length (issuedAt (k r) ((c, r) # h) rs) \<le> n - 1" "0 < n" by auto
  then show ?case by simp
qed auto

lemma callsWithin_issued: "callsWithin p n \<Longrightarrow> length (issued p rs) \<le> n"
  by (simp add: issued_def callsWithin_issuedAt)

section \<open>Which calls a program may issue\<close>

text \<open>
  \<open>only P p\<close>: every call \<open>p\<close> may issue satisfies \<open>P\<close>, whatever was answered before. One rule per
  construct of the programs.
\<close>

primrec only :: "(call \<Rightarrow> bool) \<Rightarrow> 'a prog \<Rightarrow> bool" where
  "only P (Ret x) \<longleftrightarrow> True"
| "only P (Call c k) \<longleftrightarrow> P c \<and> (\<forall>r. only P (k r))"

lemma only_wp: "only P p \<Longrightarrow> wp (\<lambda>_. P) (\<lambda>_ _. True) p h"
  by (induction p arbitrary: h) auto

lemma only_Ret: "only P (Ret x)"
  by simp

lemma only_request: "P c \<Longrightarrow> only P (request dec c)"
  by (simp add: request_def)

lemma only_bindP: "only P p \<Longrightarrow> (\<And>x. only P (f x)) \<Longrightarrow> only P (bindP p f)"
  by (induction p) auto

lemma only_case_sum: "(\<And>a. only P (f a)) \<Longrightarrow> (\<And>b. only P (g b)) \<Longrightarrow> only P (case x of Inl a \<Rightarrow> f a | Inr b \<Rightarrow> g b)"
  by (cases x) simp_all

lemma only_case_option: "only P p \<Longrightarrow> (\<And>b. only P (g b)) \<Longrightarrow> only P (case x of None \<Rightarrow> p | Some b \<Rightarrow> g b)"
  by (cases x) simp_all

lemma only_case_prod: "(\<And>a b. only P (f a b)) \<Longrightarrow> only P (case x of (a, b) \<Rightarrow> f a b)"
  by (cases x) simp_all

lemma only_if: "only P p \<Longrightarrow> only P q \<Longrightarrow> only P (if b then p else q)"
  by simp

lemma only_thenP: "only P p \<Longrightarrow> (\<And>x. only P (f x)) \<Longrightarrow> only P (thenP p f)"
  unfolding thenP_def by (intro only_bindP only_case_sum only_Ret)

lemmas only_intros = only_Ret only_request only_bindP only_case_sum only_case_option only_case_prod only_if only_thenP

end
