(* ===== verification/Template.thy ===== *)
theory Template
  imports Client
begin

text \<open>
  internal/hook/template.go: the Sandbox template the chart renders, its anchors, and the
  contract the hook forces onto it. The definitions keep the order of the code's checks and
  assignments; a pointer into a slice becomes an update of the first element it points at.
\<close>

section \<open>Reading the template\<close>

datatype templateError = ReadFailed apiError | NotStrictSandbox | WrongKind string string
  | AnchorMissing string string | LabelNotRendered string | WrongComponent
  | MountNotAbsolute string | BaseDirOutside string string | ReleaseMismatch string string

definition GroupVersion :: string where "GroupVersion = ''agents.x-k8s.io/v1beta1''"

definition ParseTemplate :: "k8sLib \<Rightarrow> string \<Rightarrow> templateError + sandbox" where
  "ParseTemplate lib raw =
     (case lib_unmarshalStrict lib raw of None \<Rightarrow> Inl NotStrictSandbox
      | Some sb \<Rightarrow> (if sb_apiVersion sb \<noteq> GroupVersion \<or> sb_kind sb \<noteq> ''Sandbox''
                   then Inl (WrongKind (sb_apiVersion sb) (sb_kind sb)) else Inr sb))"

definition LoadTemplate :: "k8sLib \<Rightarrow> string \<Rightarrow> (templateError + sandbox) prog" where
  "LoadTemplate lib path = bindP (request asBytes (ReadFile path)) (\<lambda>x.
     case x of Inl e \<Rightarrow> Ret (Inl (ReadFailed e)) | Inr raw \<Rightarrow> Ret (ParseTemplate lib raw))"

section \<open>Identity and contract\<close>

record identity =
  id_Release :: string
  id_Namespace :: string
  id_SessionID :: string
  id_AccountID :: string

record contract =
  ct_WorkspaceMountPath :: string
  ct_BaseDir :: string
  ct_TerminationGracePeriodSeconds :: int

definition Validate :: "contract \<Rightarrow> templateError + unit" where
  "Validate c =
     (if ct_WorkspaceMountPath c = [] \<or> \<not> HasPrefix (ct_WorkspaceMountPath c) ''/''
      then Inl (MountNotAbsolute (ct_WorkspaceMountPath c))
      else let mount = TrimRight (ct_WorkspaceMountPath c) CHR ''/''
           in if ct_BaseDir c \<noteq> mount \<and> \<not> HasPrefix (ct_BaseDir c) (mount @ ''/'')
              then Inl (BaseDirOutside (ct_BaseDir c) (ct_WorkspaceMountPath c)) else Inr ())"

section \<open>Anchors\<close>

definition findContainer :: "podSpec \<Rightarrow> string \<Rightarrow> container option" where
  "findContainer spec name = find (\<lambda>c. c_name c = name) (ps_containers spec)"

definition workOrderVolume :: "podSpec \<Rightarrow> volume option" where
  "workOrderVolume spec = find (\<lambda>v. v_name v = WorkOrderVolumeName) (ps_volumes spec)"

definition removeVolume :: "volume list \<Rightarrow> string \<Rightarrow> volume list" where
  "removeVolume vols name = filter (\<lambda>v. v_name v \<noteq> name) vols"

definition hasClaimTemplate :: "sandbox \<Rightarrow> string \<Rightarrow> bool" where
  "hasClaimTemplate sb name \<longleftrightarrow> list_ex (\<lambda>t. vct_name t = name) (sb_claimTemplates sb)"

abbreviation specOf :: "sandbox \<Rightarrow> podSpec" where
  "specOf sb \<equiv> pt_spec (sb_podTemplate sb)"

definition ValidateAnchors :: "sandbox \<Rightarrow> templateError + unit" where
  "ValidateAnchors sb =
     (if findContainer (specOf sb) RunnerContainerName = None
      then Inl (AnchorMissing ''container'' RunnerContainerName)
      else if workOrderVolume (specOf sb) = None
      then Inl (AnchorMissing ''volume'' WorkOrderVolumeName)
      else if sb_claimTemplates sb = [] \<or> \<not> hasClaimTemplate sb WorkspaceClaimName
      then Inl (AnchorMissing ''volumeClaimTemplate'' WorkspaceClaimName)
      else case find (\<lambda>l. label sb l = []) [LabelName, LabelInstance, LabelPartOf] of
          Some l \<Rightarrow> Inl (LabelNotRendered l)
        | None \<Rightarrow> (if label sb LabelName \<noteq> ComponentRunner then Inl WrongComponent else Inr ()))"

section \<open>Applying the contract\<close>

definition LockFlag :: string where
  "LockFlag = ''--lock-to-account''"

text \<open>The loop that copies the arguments but skips the flag together with its value.\<close>

fun dropLock :: "string list \<Rightarrow> string list" where
  "dropLock [] = []"
| "dropLock [a] = (if a = LockFlag then [] else [a])"
| "dropLock (a # b # args) = (if a = LockFlag then dropLock args else a # dropLock (b # args))"

definition withLockToAccount :: "string list \<Rightarrow> string \<Rightarrow> string list" where
  "withLockToAccount args account = dropLock args @ [LockFlag, account]"

definition forceMount :: "string \<Rightarrow> string \<Rightarrow> bool \<Rightarrow> container \<Rightarrow> container" where
  "forceMount name path readOnly c =
     (if list_ex (\<lambda>m. vm_name m = name) (c_mounts c)
      then c\<lparr>c_mounts := updateFirst (\<lambda>m. vm_name m = name)
               (\<lambda>m. m\<lparr>vm_mountPath := path, vm_readOnly := readOnly, vm_subPath := []\<rparr>) (c_mounts c)\<rparr>
      else c\<lparr>c_mounts := c_mounts c @ [\<lparr>vm_name = name, vm_mountPath = path, vm_readOnly = readOnly,
               vm_subPath = [], vm_other = []\<rparr>]\<rparr>)"

definition forceRunner :: "identity \<Rightarrow> contract \<Rightarrow> container \<Rightarrow> container" where
  "forceRunner ident c runner =
     (let runner = forceMount WorkspaceClaimName (ct_WorkspaceMountPath c) False runner;
          runner = forceMount WorkOrderVolumeName WorkOrderMountPath True runner
      in if id_AccountID ident \<noteq> [] then runner\<lparr>c_args := withLockToAccount (c_args runner) (id_AccountID ident)\<rparr>
         else runner)"

definition forceWorkOrder :: "volume \<Rightarrow> volume" where
  "forceWorkOrder wo =
     (let wo = (if v_secret wo = None
                then wo\<lparr>v_secret := Some \<lparr>ss_secretName = [], ss_other = []\<rparr>, v_other := []\<rparr> else wo)
      in case v_secret wo of None \<Rightarrow> wo
         | Some s \<Rightarrow> (if ss_secretName s = []
             then wo\<lparr>v_secret := Some (s\<lparr>ss_secretName := PlaceholderSecretName\<rparr>)\<rparr> else wo))"

definition forceSpec :: "identity \<Rightarrow> contract \<Rightarrow> podSpec \<Rightarrow> podSpec" where
  "forceSpec ident c spec =
     (let spec = spec\<lparr>ps_restartPolicy := ''Never'', ps_automountToken := Some False,
             ps_graceSeconds := Some (ct_TerminationGracePeriodSeconds c)\<rparr>;
          spec = spec\<lparr>ps_containers := updateFirst (\<lambda>k. c_name k = RunnerContainerName)
             (forceRunner ident c) (ps_containers spec)\<rparr>;
          spec = spec\<lparr>ps_volumes := updateFirst (\<lambda>v. v_name v = WorkOrderVolumeName)
             forceWorkOrder (ps_volumes spec)\<rparr>
      in spec\<lparr>ps_volumes := removeVolume (ps_volumes spec) WorkspaceClaimName\<rparr>)"

definition sessionLabels :: "string \<Rightarrow> string \<Rightarrow> strmap" where
  "sessionLabels session account = [LabelSessionID \<mapsto> LabelValue session, LabelAccountID \<mapsto> LabelValue account]"

definition ApplyContract :: "identity \<Rightarrow> contract \<Rightarrow> sandbox \<Rightarrow> templateError + sandbox" where
  "ApplyContract ident c sb =
     (case ValidateAnchors sb of Inl e \<Rightarrow> Inl e | Inr _ \<Rightarrow>
      (case Validate c of Inl e \<Rightarrow> Inl e | Inr _ \<Rightarrow>
      (if label sb LabelInstance \<noteq> id_Release ident
       then Inl (ReleaseMismatch (label sb LabelInstance) (id_Release ident))
       else let sb = sb\<lparr>sb_name := SandboxName (id_Release ident) (id_SessionID ident),
                        sb_namespace := id_Namespace ident, sb_operatingMode := Suspended,
                        sb_shutdownTime := None, sb_shutdownPolicy := None\<rparr>;
                sb = sb\<lparr>sb_labels := sb_labels sb ++ sessionLabels (id_SessionID ident) (id_AccountID ident)\<rparr>;
                pt = sb_podTemplate sb;
                pt = pt\<lparr>pt_labels := pt_labels pt ++ sb_labels sb\<rparr>;
                pt = pt\<lparr>pt_spec := forceSpec ident c (pt_spec pt)\<rparr>
            in Inr (sb\<lparr>sb_podTemplate := pt\<rparr>))))"

section \<open>The account lock\<close>

lemma dropLock_no_flag: "LockFlag \<notin> set (dropLock args)"
  by (induction args rule: dropLock.induct) auto

lemma dropLock_id: "LockFlag \<notin> set args \<Longrightarrow> dropLock args = args"
  by (induction args rule: dropLock.induct) auto

lemma dropLock_append_lock: "LockFlag \<notin> set args \<Longrightarrow> dropLock (args @ [LockFlag, a]) = args"
  by (induction args rule: dropLock.induct) auto

lemma withLockToAccount_idem:
  "withLockToAccount (withLockToAccount args a) b = withLockToAccount args b"
  by (simp add: withLockToAccount_def dropLock_append_lock dropLock_no_flag)

lemma withLockToAccount_once:
  "a \<noteq> LockFlag \<Longrightarrow> count_list (withLockToAccount args a) LockFlag = 1"
  using dropLock_no_flag [of args] by (simp add: withLockToAccount_def count_list_append count_notin)

text \<open>
  The flag form the loop removes is the two-argument one only; \<open>set\<close> of the other arguments
  stays what it was.
\<close>

lemma dropLock_subset: "set (dropLock args) \<subseteq> set args"
  by (induction args rule: dropLock.induct) auto

section \<open>Mounts and volumes\<close>

definition mountOf :: "string \<Rightarrow> container \<Rightarrow> volumeMount option" where
  "mountOf name c = find (\<lambda>m. vm_name m = name) (c_mounts c)"

lemma list_ex_find: "list_ex p xs \<longleftrightarrow> find p xs \<noteq> None"
  by (induction xs) auto

lemma find_append: "find p (xs @ ys) = (case find p xs of None \<Rightarrow> find p ys | Some x \<Rightarrow> Some x)"
  by (induction xs) auto

lemma forceMount_name [simp]: "c_name (forceMount n p r c) = c_name c"
  by (simp add: forceMount_def)

lemma forceMount_args [simp]: "c_args (forceMount n p r c) = c_args c"
  by (simp add: forceMount_def)

lemma forceMount_other [simp]: "c_other (forceMount n p r c) = c_other c"
  by (simp add: forceMount_def)

lemma forceMount_forces:
  "\<exists>m. mountOf n (forceMount n p r c) = Some m \<and> vm_mountPath m = p \<and> vm_readOnly m = r \<and> vm_subPath m = []"
proof (cases "list_ex (\<lambda>m. vm_name m = n) (c_mounts c)")
  case True
  then obtain m where "find (\<lambda>m. vm_name m = n) (c_mounts c) = Some m" by (auto simp: list_ex_find)
  with True show ?thesis by (simp add: mountOf_def forceMount_def find_updateFirst)
next
  case False
  then show ?thesis by (simp add: mountOf_def forceMount_def find_append list_ex_find)
qed

lemma find_updateFirst_other:
  "(\<And>x. p x \<Longrightarrow> \<not> q x) \<Longrightarrow> (\<And>x. p x \<Longrightarrow> \<not> q (f x)) \<Longrightarrow> find q (updateFirst p f xs) = find q xs"
  by (induction xs) auto

lemma forceMount_keeps: "n \<noteq> n' \<Longrightarrow> mountOf n' (forceMount n p r c) = mountOf n' c"
proof -
  assume n: "n \<noteq> n'"
  then have "find (\<lambda>m. vm_name m = n') (updateFirst (\<lambda>m. vm_name m = n)
      (\<lambda>m. m\<lparr>vm_mountPath := p, vm_readOnly := r, vm_subPath := []\<rparr>) ms) = find (\<lambda>m. vm_name m = n') ms" for ms :: "volumeMount list"
    by (intro find_updateFirst_other) auto
  with n show ?thesis by (auto simp: mountOf_def forceMount_def find_append split: option.splits)
qed

lemma forceMount_fixed:
  assumes "mountOf n c = Some m" "vm_mountPath m = p" "vm_readOnly m = r" "vm_subPath m = []"
  shows "forceMount n p r c = c"
proof -
  have "find (\<lambda>m. vm_name m = n) ms = Some m \<Longrightarrow> updateFirst (\<lambda>m. vm_name m = n)
      (\<lambda>m. m\<lparr>vm_mountPath := p, vm_readOnly := r, vm_subPath := []\<rparr>) ms = ms" for ms
    using assms(2-4) by (induction ms) auto
  with assms(1) show ?thesis by (simp add: forceMount_def mountOf_def list_ex_find)
qed

lemma forceRunner_name [simp]: "c_name (forceRunner ident c k) = c_name k"
  by (simp add: forceRunner_def Let_def)

lemma forceRunner_mounts:
  "\<exists>m. mountOf WorkspaceClaimName (forceRunner ident c k) = Some m \<and>
       vm_mountPath m = ct_WorkspaceMountPath c \<and> \<not> vm_readOnly m \<and> vm_subPath m = []"
  "\<exists>m. mountOf WorkOrderVolumeName (forceRunner ident c k) = Some m \<and>
       vm_mountPath m = WorkOrderMountPath \<and> vm_readOnly m \<and> vm_subPath m = []"
proof -
  let ?k = "forceMount WorkspaceClaimName (ct_WorkspaceMountPath c) False k"
  let ?k' = "forceMount WorkOrderVolumeName WorkOrderMountPath True ?k"
  have m: "mountOf n (forceRunner ident c k) = mountOf n ?k'" for n
    by (simp add: mountOf_def forceRunner_def Let_def)
  show "\<exists>m. mountOf WorkspaceClaimName (forceRunner ident c k) = Some m \<and>
       vm_mountPath m = ct_WorkspaceMountPath c \<and> \<not> vm_readOnly m \<and> vm_subPath m = []"
    using forceMount_forces [of WorkspaceClaimName "ct_WorkspaceMountPath c" False k]
    by (simp add: m forceMount_keeps)
  show "\<exists>m. mountOf WorkOrderVolumeName (forceRunner ident c k) = Some m \<and>
       vm_mountPath m = WorkOrderMountPath \<and> vm_readOnly m \<and> vm_subPath m = []"
    using forceMount_forces [of WorkOrderVolumeName WorkOrderMountPath True ?k] by (simp add: m)
qed

lemma forceRunner_idem: "forceRunner ident c (forceRunner ident c k) = forceRunner ident c k"
proof -
  let ?f = "forceRunner ident c k"
  have "forceMount WorkspaceClaimName (ct_WorkspaceMountPath c) False ?f = ?f"
    using forceRunner_mounts(1) [of ident c k] forceMount_fixed by (metis (full_types))
  moreover have "forceMount WorkOrderVolumeName WorkOrderMountPath True ?f = ?f"
    using forceRunner_mounts(2) [of ident c k] forceMount_fixed by (metis (full_types))
  ultimately have "forceRunner ident c ?f = (if id_AccountID ident \<noteq> []
      then ?f\<lparr>c_args := withLockToAccount (c_args ?f) (id_AccountID ident)\<rparr> else ?f)"
    by (simp add: forceRunner_def [of ident c ?f] Let_def)
  also have "\<dots> = ?f"
    by (simp add: forceRunner_def Let_def withLockToAccount_idem)
  finally show ?thesis .
qed

lemma forceWorkOrder_name [simp]: "v_name (forceWorkOrder v) = v_name v"
  by (auto simp: forceWorkOrder_def Let_def split: option.splits)

lemma PlaceholderSecretName_nonempty [simp]: "PlaceholderSecretName \<noteq> []"
  by (simp add: PlaceholderSecretName_def)

lemma forceWorkOrder_secret: "\<exists>s. v_secret (forceWorkOrder v) = Some s \<and> ss_secretName s \<noteq> []"
  by (auto simp: forceWorkOrder_def Let_def split: option.splits)

lemma forceWorkOrder_idem: "forceWorkOrder (forceWorkOrder v) = forceWorkOrder v"
  using forceWorkOrder_secret [of v] by (auto simp: forceWorkOrder_def [of "forceWorkOrder v"])

lemma removeVolume_updateFirst:
  assumes "\<And>v. p v \<Longrightarrow> v_name v \<noteq> n" and "\<And>v. v_name (f v) = v_name v"
  shows "removeVolume (updateFirst p f vs) n = updateFirst p f (removeVolume vs n)"
  using assms by (induction vs) (auto simp: removeVolume_def)

lemma removeVolume_idem [simp]: "removeVolume (removeVolume vs n) n = removeVolume vs n"
  by (simp add: removeVolume_def)

lemma forceSpec_idem: "forceSpec ident c (forceSpec ident c spec) = forceSpec ident c spec"
proof -
  have r: "removeVolume (updateFirst (\<lambda>v. v_name v = WorkOrderVolumeName) forceWorkOrder vs) WorkspaceClaimName
      = updateFirst (\<lambda>v. v_name v = WorkOrderVolumeName) forceWorkOrder (removeVolume vs WorkspaceClaimName)" for vs
    by (rule removeVolume_updateFirst) auto
  show ?thesis
    by (simp add: forceSpec_def Let_def r updateFirst_idem forceRunner_idem forceWorkOrder_idem)
qed

section \<open>What the contract forces\<close>

lemma ApplyContract_InrE:
  assumes "ApplyContract ident c sb = Inr t"
  obtains "ValidateAnchors sb = Inr ()" and "Validate c = Inr ()"
    and "label sb LabelInstance = id_Release ident"
  using assms by (auto simp: ApplyContract_def split: sum.splits if_splits)

lemma ApplyContract_result:
  assumes "ApplyContract ident c sb = Inr t"
  shows "sb_name t = SandboxName (id_Release ident) (id_SessionID ident)"
    and "sb_namespace t = id_Namespace ident"
    and "sb_operatingMode t = Suspended"
    and "sb_shutdownTime t = None" and "sb_shutdownPolicy t = None"
    and "sb_labels t = sb_labels sb ++ sessionLabels (id_SessionID ident) (id_AccountID ident)"
    and "pt_labels (sb_podTemplate t) = pt_labels (sb_podTemplate sb) ++ sb_labels t"
    and "pt_annotations (sb_podTemplate t) = pt_annotations (sb_podTemplate sb)"
    and "specOf t = forceSpec ident c (specOf sb)"
    and "sb_annotations t = sb_annotations sb" and "sb_claimTemplates t = sb_claimTemplates sb"
    and "sb_uid t = sb_uid sb" and "sb_resourceVersion t = sb_resourceVersion sb"
    and "sb_generation t = sb_generation sb" and "sb_conditions t = sb_conditions sb"
    and "sb_deletionTimestamp t = sb_deletionTimestamp sb" and "sb_other t = sb_other sb"
  using assms by (auto simp: ApplyContract_def Let_def split: sum.splits if_splits)

lemma ValidateAnchors_InrE:
  assumes "ValidateAnchors sb = Inr ()"
  obtains k v where "findContainer (specOf sb) RunnerContainerName = Some k"
    and "workOrderVolume (specOf sb) = Some v"
    and "hasClaimTemplate sb WorkspaceClaimName"
    and "label sb LabelName = ComponentRunner" and "label sb LabelPartOf \<noteq> []"
  using assms
  by (auto simp: ValidateAnchors_def split: if_splits option.splits)

lemma findContainer_forceSpec:
  "findContainer (forceSpec ident c spec) RunnerContainerName
     = map_option (forceRunner ident c) (findContainer spec RunnerContainerName)"
  by (simp add: findContainer_def forceSpec_def Let_def find_updateFirst)

lemma find_removeVolume:
  "n \<noteq> m \<Longrightarrow> find (\<lambda>v. v_name v = n) (removeVolume vs m) = find (\<lambda>v. v_name v = n) vs"
  by (induction vs) (auto simp: removeVolume_def)

lemma workOrderVolume_forceSpec:
  "workOrderVolume (forceSpec ident c spec) = map_option forceWorkOrder (workOrderVolume spec)"
  by (simp add: workOrderVolume_def forceSpec_def Let_def find_removeVolume find_updateFirst)

lemma label_session [simp]:
  "mget (m ++ sessionLabels s a) LabelSessionID = LabelValue s"
  "mget (m ++ sessionLabels s a) LabelAccountID = LabelValue a"
  "k \<noteq> LabelSessionID \<Longrightarrow> k \<noteq> LabelAccountID \<Longrightarrow> mget (m ++ sessionLabels s a) k = mget m k"
  by (simp_all add: mget_map_add sessionLabels_def)

lemma ApplyContract_anchors:
  assumes "ApplyContract ident c sb = Inr t"
  shows "ValidateAnchors t = Inr ()"
proof -
  obtain k v where "findContainer (specOf sb) RunnerContainerName = Some k"
      "workOrderVolume (specOf sb) = Some v" "hasClaimTemplate sb WorkspaceClaimName"
      "label sb LabelName = ComponentRunner" "label sb LabelPartOf \<noteq> []"
    using assms by (auto elim!: ApplyContract_InrE ValidateAnchors_InrE)
  moreover have "ValidateAnchors sb = Inr ()" using assms by (rule ApplyContract_InrE)
  ultimately show ?thesis
    by (auto simp: ValidateAnchors_def ApplyContract_result [OF assms] findContainer_forceSpec
        workOrderVolume_forceSpec hasClaimTemplate_def split: if_splits option.splits)
qed

lemma map_add_idem: "m ++ n ++ n = (m ++ n :: 'a \<rightharpoonup> 'b)"
  by (simp add: map_add_def fun_eq_iff split: option.splits)

section \<open>Properties\<close>

text \<open>
  A rendered template is accepted exactly when its anchors are there, the base directory
  lies at or below the absolute workspace mount, and it is the template of this release.
\<close>

theorem ApplyContract_accepts_iff:
  "(\<exists>t. ApplyContract ident c sb = Inr t) \<longleftrightarrow>
     ValidateAnchors sb = Inr () \<and> Validate c = Inr () \<and> label sb LabelInstance = id_Release ident"
  by (auto simp: ApplyContract_def Let_def split: sum.splits)

text \<open>What the contract asks of the Sandbox \<open>t\<close> made from the template \<open>sb\<close>.\<close>

definition meetsContract :: "identity \<Rightarrow> contract \<Rightarrow> sandbox \<Rightarrow> sandbox \<Rightarrow> bool" where
  "meetsContract ident c sb t \<longleftrightarrow>
     sb_name t = SandboxName (id_Release ident) (id_SessionID ident) \<and>
     sb_namespace t = id_Namespace ident \<and> sb_operatingMode t = Suspended \<and>
     sb_shutdownTime t = None \<and> sb_shutdownPolicy t = None \<and>
     label t LabelInstance = id_Release ident \<and> label t LabelName = ComponentRunner \<and>
     label t LabelSessionID = LabelValue (id_SessionID ident) \<and>
     label t LabelAccountID = LabelValue (id_AccountID ident) \<and>
     sb_labels t \<subseteq>\<^sub>m pt_labels (sb_podTemplate t) \<and>
     ps_restartPolicy (specOf t) = ''Never'' \<and> ps_automountToken (specOf t) = Some False \<and>
     ps_graceSeconds (specOf t) = Some (ct_TerminationGracePeriodSeconds c) \<and>
     (\<exists>k runner ws wo. findContainer (specOf sb) RunnerContainerName = Some k \<and>
      findContainer (specOf t) RunnerContainerName = Some runner \<and>
      mountOf WorkspaceClaimName runner = Some ws \<and> vm_mountPath ws = ct_WorkspaceMountPath c \<and>
      \<not> vm_readOnly ws \<and> vm_subPath ws = [] \<and>
      mountOf WorkOrderVolumeName runner = Some wo \<and> vm_mountPath wo = WorkOrderMountPath \<and>
      vm_readOnly wo \<and> vm_subPath wo = [] \<and>
      c_args runner = (if id_AccountID ident = [] then c_args k
                       else withLockToAccount (c_args k) (id_AccountID ident))) \<and>
     (\<exists>v s. workOrderVolume (specOf t) = Some v \<and> v_secret v = Some s \<and> ss_secretName s \<noteq> []) \<and>
     WorkspaceClaimName \<notin> v_name ` set (ps_volumes (specOf t))"

lemma ApplyContract_meets:
  assumes "ApplyContract ident c sb = Inr t"
  shows "meetsContract ident c sb t"
proof -
  note r = ApplyContract_result [OF assms]
  obtain k v where k: "findContainer (specOf sb) RunnerContainerName = Some k"
      and v: "workOrderVolume (specOf sb) = Some v" and l: "label sb LabelName = ComponentRunner"
      and i: "label sb LabelInstance = id_Release ident"
    using assms by (auto elim!: ApplyContract_InrE ValidateAnchors_InrE)
  have "c_args (forceRunner ident c k) = (if id_AccountID ident = [] then c_args k
      else withLockToAccount (c_args k) (id_AccountID ident))"
    by (simp add: forceRunner_def Let_def)
  with forceRunner_mounts [of ident c k]
  have runner: "\<exists>k runner ws wo. findContainer (specOf sb) RunnerContainerName = Some k \<and>
      findContainer (specOf t) RunnerContainerName = Some runner \<and>
      mountOf WorkspaceClaimName runner = Some ws \<and> vm_mountPath ws = ct_WorkspaceMountPath c \<and>
      \<not> vm_readOnly ws \<and> vm_subPath ws = [] \<and>
      mountOf WorkOrderVolumeName runner = Some wo \<and> vm_mountPath wo = WorkOrderMountPath \<and>
      vm_readOnly wo \<and> vm_subPath wo = [] \<and>
      c_args runner = (if id_AccountID ident = [] then c_args k
                       else withLockToAccount (c_args k) (id_AccountID ident))"
    using k by (simp add: r(9) findContainer_forceSpec)
  have wo: "\<exists>v s. workOrderVolume (specOf t) = Some v \<and> v_secret v = Some s \<and> ss_secretName s \<noteq> []"
    using v forceWorkOrder_secret [of v] by (simp add: r(9) workOrderVolume_forceSpec)
  have ws: "WorkspaceClaimName \<notin> v_name ` set (ps_volumes (specOf t))"
    by (auto simp: r(9) forceSpec_def Let_def removeVolume_def)
  have ps: "ps_restartPolicy (specOf t) = ''Never''" "ps_automountToken (specOf t) = Some False"
      "ps_graceSeconds (specOf t) = Some (ct_TerminationGracePeriodSeconds c)"
    by (simp_all add: r(9) forceSpec_def Let_def)
  have lb: "label t LabelInstance = id_Release ident" "label t LabelName = ComponentRunner"
      "label t LabelSessionID = LabelValue (id_SessionID ident)"
      "label t LabelAccountID = LabelValue (id_AccountID ident)"
    using l i by (simp_all add: r(6))
  have sub: "sb_labels t \<subseteq>\<^sub>m pt_labels (sb_podTemplate t)" by (simp add: r(7))
  show ?thesis
    unfolding meetsContract_def using runner wo ws ps r(1-5) lb sub by simp
qed

text \<open>
  C21: Whatever an overlay put into the template, the Sandbox the hook writes has the name,
  namespace and labels of the session and starts suspended without an expiry; its Pod has the
  Sandbox's labels, never restarts, mounts no service-account token and has the chart's grace
  period; the runner has the workspace writable and the work order read-only at their paths and
  is locked to the account; the work-order volume names a Secret and no volume shadows the
  workspace claim.
\<close>

theorem ApplyContract_forces:
  "ApplyContract ident c sb = Inr t \<Longrightarrow> meetsContract ident c sb t"
  by (rule ApplyContract_meets)

definition sampleIdentity :: identity where
  "sampleIdentity = \<lparr>id_Release = ''rel'', id_Namespace = ''ns'', id_SessionID = ''S-1'', id_AccountID = ''acc''\<rparr>"

definition sampleContract :: contract where
  "sampleContract = \<lparr>ct_WorkspaceMountPath = ''/home/runner'', ct_BaseDir = ''/home/runner/workspace'',
     ct_TerminationGracePeriodSeconds = 120\<rparr>"

lemma sample_accepted: "\<exists>t. ApplyContract sampleIdentity sampleContract sampleTemplate = Inr t"
proof -
  have "ValidateAnchors sampleTemplate = Inr ()"
    by (simp add: ValidateAnchors_def findContainer_def workOrderVolume_def hasClaimTemplate_def
        sampleTemplate_def samplePodTemplate_def ComponentRunner_def PartOf_def)
  moreover have "Validate sampleContract = Inr ()"
    by (simp add: Validate_def sampleContract_def HasPrefix_def TrimRight_def trimRightWhile_def)
  moreover have "label sampleTemplate LabelInstance = id_Release sampleIdentity"
    by (simp add: sampleTemplate_def sampleIdentity_def)
  ultimately show ?thesis by (simp add: ApplyContract_def Let_def)
qed

theorem ApplyContract_forces_witness:
  "\<exists>t. ApplyContract sampleIdentity sampleContract sampleTemplate = Inr t \<and>
     sb_name t = SandboxName ''rel'' ''S-1'' \<and> ps_restartPolicy (specOf t) = ''Never''"
proof -
  obtain t where t: "ApplyContract sampleIdentity sampleContract sampleTemplate = Inr t"
    using sample_accepted by blast
  then show ?thesis
    using ApplyContract_forces [OF t] by (simp add: meetsContract_def sampleIdentity_def)
qed

text \<open>
  Applying the contract to its own result changes nothing, so a rendered template and one
  the hook has already processed give the same Sandbox.
\<close>

theorem ApplyContract_idempotent:
  assumes "ApplyContract ident c sb = Inr t"
  shows "ApplyContract ident c t = Inr t"
proof -
  have v: "ValidateAnchors t = Inr ()" using assms by (rule ApplyContract_anchors)
  have c: "Validate c = Inr ()" "label t LabelInstance = id_Release ident"
    using assms by (auto elim!: ApplyContract_InrE simp: ApplyContract_result [OF assms])
  note r = ApplyContract_result [OF assms]
  have l: "sb_labels t ++ sessionLabels (id_SessionID ident) (id_AccountID ident) = sb_labels t"
    by (simp add: r(6) map_add_idem)
  have p: "pt_labels (sb_podTemplate t) ++ sb_labels t = pt_labels (sb_podTemplate t)"
    by (simp add: r(7) map_add_idem)
  have s: "forceSpec ident c (specOf t) = specOf t" by (simp add: r(9) forceSpec_idem)
  show ?thesis
    unfolding ApplyContract_def v c(1) sum.case Let_def
    using c(2) l p s r(1-5) by simp
qed

theorem ApplyContract_idempotent_witness:
  "\<exists>t. ApplyContract sampleIdentity sampleContract sampleTemplate = Inr t \<and>
     ApplyContract sampleIdentity sampleContract t = Inr t"
  using sample_accepted ApplyContract_idempotent by blast

end
