(* ===== verification/Inputs.thy ===== *)
theory Inputs
  imports GoStrings
begin

text \<open>
  internal/hook/inputs.go: the spawn request and the chart's configuration, read from the
  environment. \<open>getenv\<close> and \<open>readFile\<close> are arguments, as in the code.
\<close>

section \<open>Environment\<close>

definition EnvWorkOrderFile :: string where "EnvWorkOrderFile = ''CLAUDE_RUNNER_WORK_ORDER_FILE''"
definition EnvOrderID :: string where "EnvOrderID = ''CLAUDE_RUNNER_ORDER_ID''"
definition EnvSessionID :: string where "EnvSessionID = ''CLAUDE_RUNNER_SESSION_ID''"
definition EnvSessionUUID :: string where "EnvSessionUUID = ''CLAUDE_RUNNER_SESSION_UUID''"
definition EnvAttempt :: string where "EnvAttempt = ''CLAUDE_RUNNER_ATTEMPT''"
definition EnvAccountID :: string where "EnvAccountID = ''CLAUDE_RUNNER_ACCOUNT_ID''"
definition EnvAccountEmail :: string where "EnvAccountEmail = ''CLAUDE_RUNNER_ACCOUNT_EMAIL''"
definition EnvPrimaryRepo :: string where "EnvPrimaryRepo = ''CLAUDE_RUNNER_PRIMARY_REPO_URL''"
definition EnvPoolID :: string where "EnvPoolID = ''CLAUDE_RUNNER_POOL_ID''"

definition EnvShockRelease :: string where "EnvShockRelease = ''SHOCK_RELEASE''"
definition EnvShockNamespace :: string where "EnvShockNamespace = ''SHOCK_NAMESPACE''"
definition EnvShockTemplatePath :: string where "EnvShockTemplatePath = ''SHOCK_TEMPLATE_PATH''"
definition EnvShockBaseDir :: string where "EnvShockBaseDir = ''SHOCK_RUNNER_BASE_DIR''"
definition EnvShockMountPath :: string where "EnvShockMountPath = ''SHOCK_RUNNER_WORKSPACE_MOUNT_PATH''"
definition EnvShockGracePeriod :: string where "EnvShockGracePeriod = ''SHOCK_RUNNER_TERMINATION_GRACE_PERIOD_SECONDS''"
definition EnvShockHookTimeout :: string where "EnvShockHookTimeout = ''SHOCK_HOOK_TIMEOUT_SECONDS''"
definition EnvShockMaxActive :: string where "EnvShockMaxActive = ''SHOCK_MAX_ACTIVE_SESSIONS''"
definition DefaultTemplatePath :: string where "DefaultTemplatePath = ''/etc/shock/sandbox-template.yaml''"
definition DefaultMountPath :: string where "DefaultMountPath = ''/home/runner''"
definition DefaultBaseDir :: string where "DefaultBaseDir = ''/home/runner/workspace''"
definition DefaultGracePeriodSecs :: int where "DefaultGracePeriodSecs = 120"
definition DefaultHookTimeoutSecs :: int where "DefaultHookTimeoutSecs = 30"

record spawnRequest =
  rq_OrderID :: string
  rq_SessionID :: string
  rq_SessionUUID :: string
  rq_Attempt :: int
  rq_AccountID :: string
  rq_WorkOrder :: string

record config =
  cf_Release :: string
  cf_Namespace :: string
  cf_TemplatePath :: string
  cf_WorkspaceMountPath :: string
  cf_BaseDir :: string
  cf_TerminationGracePeriodSeconds :: int
  cf_HookTimeoutSeconds :: int
  cf_MaxActiveSessions :: int

datatype inputError = Required string | InvalidValue string | NotUsable string
  | ContainsWhitespace string | ReadWorkOrder string | WorkOrderEmpty

section \<open>Order ids\<close>

definition asciiAlnum :: "char \<Rightarrow> bool" where
  "asciiAlnum c \<longleftrightarrow> isLowerRune (byte c) \<or> isUpperRune (byte c) \<or> isDigitRune (byte c)"

text \<open>The pattern \<^verbatim>\<open>^[A-Za-z0-9][A-Za-z0-9._-]{0,200}$\<close>.\<close>

definition orderIDPattern :: "string \<Rightarrow> bool" where
  "orderIDPattern s = (case s of [] \<Rightarrow> False
     | c # cs \<Rightarrow> asciiAlnum c \<and> length cs \<le> 200 \<and>
         list_all (\<lambda>c. asciiAlnum c \<or> c = CHR ''.'' \<or> c = CHR ''_'' \<or> c = CHR ''-'') cs)"

section \<open>Configuration\<close>

text \<open>An optional integer variable: absent, rejected by the parser or the bound, or its value.\<close>

definition intVar :: "(string \<Rightarrow> string) \<Rightarrow> string \<Rightarrow> (int \<Rightarrow> bool) \<Rightarrow> int \<Rightarrow> inputError + int" where
  "intVar getenv key bad def =
     (let v = getenv key in
      if v = [] then Inr def
      else case ParseInt v of None \<Rightarrow> Inl (InvalidValue key)
        | Some n \<Rightarrow> (if bad n then Inl (InvalidValue key) else Inr n))"

definition ConfigFromEnv :: "(string \<Rightarrow> string) \<Rightarrow> inputError + config" where
  "ConfigFromEnv getenv =
     (let orElse = (\<lambda>v d. if v = [] then d else v);
          c = \<lparr>cf_Release = getenv EnvShockRelease, cf_Namespace = getenv EnvShockNamespace,
               cf_TemplatePath = orElse (getenv EnvShockTemplatePath) DefaultTemplatePath,
               cf_WorkspaceMountPath = orElse (getenv EnvShockMountPath) DefaultMountPath,
               cf_BaseDir = orElse (getenv EnvShockBaseDir) DefaultBaseDir,
               cf_TerminationGracePeriodSeconds = DefaultGracePeriodSecs,
               cf_HookTimeoutSeconds = DefaultHookTimeoutSecs, cf_MaxActiveSessions = 0\<rparr>
      in if cf_Release c = [] then Inl (Required EnvShockRelease)
         else if cf_Namespace c = [] then Inl (Required EnvShockNamespace)
         else case intVar getenv EnvShockGracePeriod (\<lambda>n. n < 0) DefaultGracePeriodSecs of
             Inl e \<Rightarrow> Inl e
           | Inr grace \<Rightarrow>
             (case intVar getenv EnvShockHookTimeout (\<lambda>n. n \<le> 0) DefaultHookTimeoutSecs of
                Inl e \<Rightarrow> Inl e
              | Inr timeout \<Rightarrow>
                (case intVar getenv EnvShockMaxActive (\<lambda>n. n < 0) 0 of
                   Inl e \<Rightarrow> Inl e
                 | Inr cap \<Rightarrow> Inr (c\<lparr>cf_TerminationGracePeriodSeconds := grace,
                     cf_HookTimeoutSeconds := timeout, cf_MaxActiveSessions := cap\<rparr>))))"

section \<open>Request\<close>

definition RequestFromEnv :: "(string \<Rightarrow> string) \<Rightarrow> (string \<Rightarrow> string + string) \<Rightarrow> inputError + spawnRequest" where
  "RequestFromEnv getenv readFile =
     (let r = \<lparr>rq_OrderID = getenv EnvOrderID, rq_SessionID = getenv EnvSessionID,
               rq_SessionUUID = getenv EnvSessionUUID, rq_Attempt = 0,
               rq_AccountID = getenv EnvAccountID, rq_WorkOrder = []\<rparr>
      in if rq_OrderID r = [] then Inl (Required EnvOrderID)
         else if \<not> orderIDPattern (rq_OrderID r) then Inl (NotUsable EnvOrderID)
         else let attempt = getenv EnvAttempt in
         if attempt = [] then Inl (Required EnvAttempt)
         else case ParseInt attempt of None \<Rightarrow> Inl (InvalidValue EnvAttempt)
           | Some n \<Rightarrow>
             (if n < 0 then Inl (InvalidValue EnvAttempt)
              else if ContainsAny (rq_SessionID r) [CHR '' '', CHR 0x09, CHR 0x0A]
              then Inl (ContainsWhitespace EnvSessionID)
              else let path = getenv EnvWorkOrderFile in
                if path = [] then Inl (Required EnvWorkOrderFile)
                else case readFile path of Inl e \<Rightarrow> Inl (ReadWorkOrder e)
                  | Inr data \<Rightarrow>
                    (let data = TrimSpace data in
                     if data = [] then Inl WorkOrderEmpty
                     else Inr (r\<lparr>rq_Attempt := n, rq_WorkOrder := data\<rparr>))))"

section \<open>What an accepted input satisfies\<close>

definition validConfig :: "config \<Rightarrow> bool" where
  "validConfig c \<longleftrightarrow> cf_Release c \<noteq> [] \<and> cf_Namespace c \<noteq> [] \<and> cf_TemplatePath c \<noteq> [] \<and>
     cf_WorkspaceMountPath c \<noteq> [] \<and> cf_BaseDir c \<noteq> [] \<and>
     0 \<le> cf_TerminationGracePeriodSeconds c \<and> cf_TerminationGracePeriodSeconds c \<le> maxInt64 \<and>
     0 < cf_HookTimeoutSeconds c \<and> cf_HookTimeoutSeconds c \<le> maxInt64 \<and>
     0 \<le> cf_MaxActiveSessions c \<and> cf_MaxActiveSessions c \<le> maxInt64"

lemma intVar_InrE:
  assumes "intVar getenv key bad def = Inr n"
  obtains "getenv key = []" and "n = def" | "ParseInt (getenv key) = Some n" and "\<not> bad n" and "inInt64 n"
  using assms by (auto simp: intVar_def Let_def ParseInt_range split: if_splits option.splits)

definition validRequest :: "spawnRequest \<Rightarrow> bool" where
  "validRequest r \<longleftrightarrow> orderIDPattern (rq_OrderID r) \<and> 0 \<le> rq_Attempt r \<and> inInt64 (rq_Attempt r) \<and>
     \<not> ContainsAny (rq_SessionID r) [CHR '' '', CHR 0x09, CHR 0x0A] \<and> rq_WorkOrder r \<noteq> []"

lemma RequestFromEnv_valid:
  "RequestFromEnv getenv readFile = Inr r \<Longrightarrow> validRequest r"
  by (auto simp: RequestFromEnv_def Let_def validRequest_def ParseInt_range
      split: if_splits option.splits sum.splits)

lemma orderIDPattern_nonempty: "orderIDPattern s \<Longrightarrow> s \<noteq> []"
  by (auto simp: orderIDPattern_def)

lemma validRequest_order: "validRequest r \<Longrightarrow> rq_OrderID r \<noteq> []"
  by (auto simp: validRequest_def dest: orderIDPattern_nonempty)

lemma ParseInt_Nil [simp]: "ParseInt [] = None"
  by (simp add: ParseInt_def)

section \<open>Properties\<close>

text \<open>
  A configuration the hook accepts names a release and a namespace, has absolute or default
  paths filled in, and holds only integers in the range the code asks for: a non-negative grace
  period, a positive hook timeout and a non-negative cap on active sessions.
\<close>

theorem ConfigFromEnv_valid:
  assumes "ConfigFromEnv getenv = Inr c"
  shows "validConfig c"
proof -
  obtain g t m where
      v: "intVar getenv EnvShockGracePeriod (\<lambda>n. n < 0) DefaultGracePeriodSecs = Inr g"
        "intVar getenv EnvShockHookTimeout (\<lambda>n. n \<le> 0) DefaultHookTimeoutSecs = Inr t"
        "intVar getenv EnvShockMaxActive (\<lambda>n. n < 0) 0 = Inr m"
    and c: "cf_TerminationGracePeriodSeconds c = g" "cf_HookTimeoutSeconds c = t" "cf_MaxActiveSessions c = m"
      "cf_Release c \<noteq> []" "cf_Namespace c \<noteq> []" "cf_TemplatePath c \<noteq> []"
      "cf_WorkspaceMountPath c \<noteq> []" "cf_BaseDir c \<noteq> []"
    using assms by (auto simp: ConfigFromEnv_def Let_def DefaultTemplatePath_def DefaultMountPath_def
        DefaultBaseDir_def split: if_splits sum.splits)
  have "0 \<le> g \<and> g \<le> maxInt64" "0 < t \<and> t \<le> maxInt64" "0 \<le> m \<and> m \<le> maxInt64"
    using v by (auto elim!: intVar_InrE simp: inInt64_def maxInt64_def DefaultGracePeriodSecs_def
        DefaultHookTimeoutSecs_def)
  with c show ?thesis by (simp add: validConfig_def)
qed

definition sampleEnv :: "string \<Rightarrow> string" where
  "sampleEnv = (\<lambda>_. [])(EnvShockRelease := ''rel'', EnvShockNamespace := ''ns'', EnvShockMaxActive := ''3'',
     EnvOrderID := ''o.1'', EnvAttempt := ''+7'', EnvSessionID := ''S-1'', EnvWorkOrderFile := ''/tmp/wo'')"

lemmas env_defs = EnvWorkOrderFile_def EnvOrderID_def EnvSessionID_def EnvSessionUUID_def EnvAttempt_def
  EnvAccountID_def EnvShockRelease_def EnvShockNamespace_def EnvShockTemplatePath_def EnvShockBaseDir_def
  EnvShockMountPath_def EnvShockGracePeriod_def EnvShockHookTimeout_def EnvShockMaxActive_def

lemma ParseInt_sample: "ParseInt ''3'' = Some 3" "ParseInt ''+7'' = Some 7"
  by code_simp+

theorem ConfigFromEnv_valid_witness:
  "\<exists>c. ConfigFromEnv sampleEnv = Inr c \<and> validConfig c \<and> cf_MaxActiveSessions c = 3"
proof -
  have "\<exists>c. ConfigFromEnv sampleEnv = Inr c \<and> cf_MaxActiveSessions c = 3"
    by (simp add: ConfigFromEnv_def intVar_def sampleEnv_def env_defs ParseInt_sample Let_def)
  then show ?thesis using ConfigFromEnv_valid by blast
qed


end
