(* ===== verification/Hook.thy ===== *)
theory Hook
  imports Template Inputs
begin

text \<open>
  internal/hook/hook.go: \<open>shock hook spawn-runner\<close>. One definition per function, as programs
  over the API client; an error is a value with the exit code the process returns. Log lines
  are not modelled, error texts are the constructors of \<open>reason\<close>.
\<close>

section \<open>Exit codes and errors\<close>

definition ExitSubmitted :: int where "ExitSubmitted = 0"
definition ExitRetryable :: int where "ExitRetryable = 1"
definition ExitNonRetryable :: int where "ExitNonRetryable = 2"

definition DefaultMaxAttempts :: int where "DefaultMaxAttempts = 12"

datatype reason = Standby | BadTemplate templateError | Interrupted | CRDNotServed string
  | RBACDenied string | Rejected string | ApiFailed string apiError
  | BeingDeleted | NotManaged string | OtherRelease string | OtherSession | UnreadableAttempt
  | SharedAttempt string string int | AtCapacity nat int | PointsAtOtherSecret string
  | BuildingPatch patchError | SecretNotImmutable | SecretOtherData | SecretOther string
  | SecretNotOwned | GaveUp int

text \<open>
  An error of the code: an \<open>ExitError\<close>, a bare API error, or the panic of a nil-pointer
  dereference.
\<close>

datatype hookError = ExitError int reason | ApiError apiError | NilDereference

definition retryable :: "reason \<Rightarrow> hookError" where
  "retryable r = ExitError ExitRetryable r"

definition nonRetryable :: "reason \<Rightarrow> hookError" where
  "nonRetryable r = ExitError ExitNonRetryable r"

definition ExitCodeFor :: "hookError + unit \<Rightarrow> int" where
  "ExitCodeFor r = (case r of Inr _ \<Rightarrow> ExitSubmitted
     | Inl (ExitError code _) \<Rightarrow> code | Inl _ \<Rightarrow> ExitRetryable)"

definition classifyAPIError :: "string \<Rightarrow> apiError \<Rightarrow> hookError" where
  "classifyAPIError op err =
     (if err = NoMatch then retryable (CRDNotServed op)
      else if err = Forbidden \<or> err = Unauthorized then nonRetryable (RBACDenied op)
      else if err = Invalid \<or> err = BadRequest then nonRetryable (Rejected op)
      else retryable (ApiFailed op err))"

definition staleError :: "hookError \<Rightarrow> bool" where
  "staleError e = (case e of ApiError err \<Rightarrow> IsStale err | _ \<Rightarrow> False)"

record hook =
  hk_Config :: config
  hk_MaxAttempts :: int

section \<open>Classifying a request\<close>

datatype decision = DecisionRedelivery | DecisionSuperseded | DecisionNewer

definition parseAttempt :: "string \<Rightarrow> int option" where
  "parseAttempt s = (if s = [] then Some 0 else ParseInt s)"

definition evaluate :: "sandbox \<Rightarrow> spawnRequest \<Rightarrow> string \<Rightarrow> hookError + decision" where
  "evaluate sb req release =
     (if deleting sb then Inl (retryable BeingDeleted)
      else if label sb LabelPartOf \<noteq> PartOf then Inl (nonRetryable (NotManaged (label sb LabelPartOf)))
      else if label sb LabelInstance \<noteq> release then Inl (nonRetryable (OtherRelease (label sb LabelInstance)))
      else if label sb LabelSessionID \<noteq> LabelValue (rq_SessionID req) then Inl (nonRetryable OtherSession)
      else let lastID = annot sb AnnotationLastOrderID in
        case parseAttempt (annot sb AnnotationLastOrderAttempt) of
          None \<Rightarrow> Inl (nonRetryable UnreadableAttempt)
        | Some lastAttempt \<Rightarrow>
          (if rq_OrderID req = lastID then Inr DecisionRedelivery
           else if rq_Attempt req < lastAttempt then Inr DecisionSuperseded
           else if rq_Attempt req = lastAttempt
           then Inl (nonRetryable (SharedAttempt (rq_OrderID req) lastID (rq_Attempt req)))
           else Inr DecisionNewer))"

definition holdsSlot :: "sandbox \<Rightarrow> bool" where
  "holdsSlot sb \<longleftrightarrow> \<not> deleting sb \<and> (sb_operatingMode sb = Running \<or> annot sb AnnotationPendingSpawn \<noteq> [])"

definition activeOthers :: "string \<Rightarrow> sandbox list \<Rightarrow> nat" where
  "activeOthers ownName items = length (filter (\<lambda>sb. sb_name sb \<noteq> ownName \<and> holdsSlot sb) items)"

definition checkCapacity :: "hook \<Rightarrow> sandbox option \<Rightarrow> string \<Rightarrow> (hookError + unit) prog" where
  "checkCapacity h own ownName =
     (let limit = cf_MaxActiveSessions (hk_Config h) in
      if limit \<le> 0 \<or> (case own of None \<Rightarrow> False | Some sb \<Rightarrow> holdsSlot sb) then Ret (Inr ())
      else bindP (request asSandboxes (ListSandboxes (cf_Namespace (hk_Config h))
             (SelectorLabels ComponentRunner (cf_Release (hk_Config h))))) (\<lambda>x.
        case x of Inl e \<Rightarrow> Ret (Inl (classifyAPIError ''listing Sandboxes for the active-session cap'' e))
        | Inr items \<Rightarrow>
          (let active = activeOthers ownName items in
           if int active < limit then Ret (Inr ())
           else Ret (Inl (retryable (AtCapacity active limit))))))"

section \<open>Work-order Secrets\<close>

definition workOrderSecret :: "sandbox \<Rightarrow> strmap \<Rightarrow> spawnRequest \<Rightarrow> string \<Rightarrow> secret" where
  "workOrderSecret sb labels req name =
     \<lparr>se_name = name, se_namespace = sb_namespace sb,
      se_labels = labels(LabelSessionID \<mapsto> LabelValue (rq_SessionID req),
                         LabelAccountID \<mapsto> LabelValue (rq_AccountID req)),
      se_annotations = [AnnotationOrderID \<mapsto> rq_OrderID req,
                        AnnotationOrderAttempt \<mapsto> FormatInt (rq_Attempt req),
                        AnnotationSessionID \<mapsto> rq_SessionID req],
      se_owners = [\<lparr>or_apiVersion = GroupVersion, or_kind = ''Sandbox'', or_name = sb_name sb,
                    or_uid = sb_uid sb, or_controller = None, or_blockOwnerDeletion = Some False\<rparr>],
      se_immutable = Some True, se_type = ''Opaque'',
      se_data = [WorkOrderSecretKey \<mapsto> rq_WorkOrder req]\<rparr>"

text \<open>The desired Secret always has the one owner reference \<open>workOrderSecret\<close> wrote.\<close>

definition verifySecret :: "secret \<Rightarrow> secret \<Rightarrow> hookError + unit" where
  "verifySecret existing desired =
     (if se_immutable existing \<noteq> Some True then Inl (nonRetryable SecretNotImmutable)
      else if mget (se_data existing) WorkOrderSecretKey \<noteq> mget (se_data desired) WorkOrderSecretKey
      then Inl (nonRetryable SecretOtherData)
      else case find (\<lambda>k. mget (se_annotations existing) k \<noteq> mget (se_annotations desired) k)
             [AnnotationOrderID, AnnotationSessionID, AnnotationOrderAttempt] of
        Some k \<Rightarrow> Inl (nonRetryable (SecretOther k))
      | None \<Rightarrow>
        (case se_owners desired of [] \<Rightarrow> Inl NilDereference
         | owner # _ \<Rightarrow> (if list_ex (\<lambda>ref. or_uid ref = or_uid owner) (se_owners existing) then Inr ()
             else Inl (nonRetryable SecretNotOwned))))"

definition ensureSecret :: "sandbox \<Rightarrow> sandbox \<Rightarrow> spawnRequest \<Rightarrow> string \<Rightarrow> (hookError + unit) prog" where
  "ensureSecret sb tmpl req name =
     (let desired = workOrderSecret sb (sb_labels tmpl) req name in
      bindP (request asOk (CreateSecret desired)) (\<lambda>x. case x of
        Inr _ \<Rightarrow> Ret (Inr ())
      | Inl err \<Rightarrow>
        (if err \<noteq> AlreadyExists then Ret (Inl (classifyAPIError ''creating work-order Secret'' err))
         else bindP (request asSecret (GetSecret (sb_namespace sb) name)) (\<lambda>y. case y of
             Inl e \<Rightarrow> Ret (Inl (classifyAPIError ''reading existing work-order Secret'' e))
           | Inr existing \<Rightarrow> Ret (verifySecret existing desired)))))"

section \<open>Writing the Sandbox\<close>

definition hookPatch :: "k8sLib \<Rightarrow> sandbox \<Rightarrow> sandbox \<Rightarrow> (hookError + unit) prog" where
  "hookPatch lib orig mut =
     (case Optimistic lib orig mut of
        Inl e \<Rightarrow> Ret (Inl (nonRetryable (BuildingPatch e)))
      | Inr p \<Rightarrow> bindP (request asOk (PatchSandbox orig mut p)) (\<lambda>x. case x of
          Inr _ \<Rightarrow> Ret (Inr ())
        | Inl err \<Rightarrow> (if IsStale err then Ret (Inl (ApiError err))
            else Ret (Inl (classifyAPIError ''patching Sandbox'' err)))))"

definition newSandbox :: "sandbox \<Rightarrow> spawnRequest \<Rightarrow> gotime \<Rightarrow> sandbox" where
  "newSandbox tmpl req now =
     tmpl\<lparr>sb_annotations := (sb_annotations tmpl)
            (AnnotationPendingSpawn \<mapsto> rq_OrderID req,
            AnnotationPendingSpawnAt \<mapsto> formatRFC3339 now,
            AnnotationLastOrderID \<mapsto> rq_OrderID req,
            AnnotationLastOrderAttempt \<mapsto> FormatInt (rq_Attempt req),
            AnnotationAppliedSpawn := None, AnnotationPendingSecret := None,
            AnnotationLastOrderSecret := None, AnnotationLastSuspendedAt := None),
          sb_operatingMode := Suspended\<rparr>"

definition createSandbox :: "sandbox \<Rightarrow> spawnRequest \<Rightarrow> (apiError + sandbox) prog" where
  "createSandbox tmpl req = bindP (request asTime Now) (\<lambda>now.
     request asSandbox (CreateSandbox (newSandbox tmpl req now)))"

text \<open>\<open>repairRedelivery\<close>: the pointers it completes, and whether any was missing.\<close>

definition repairPointers :: "spawnRequest \<Rightarrow> string \<Rightarrow> sandbox \<Rightarrow> hookError + sandbox \<times> bool" where
  "repairPointers req secretName sb =
     (let step1 = (if annot sb AnnotationPendingSpawn = rq_OrderID req
          then (let cur = annot sb AnnotationPendingSecret in
                if cur = [] then Inr (sb\<lparr>sb_annotations := (sb_annotations sb)(AnnotationPendingSecret \<mapsto> secretName)\<rparr>, True)
                else if cur = secretName then Inr (sb, False)
                else Inl (nonRetryable (PointsAtOtherSecret cur)))
          else Inr (sb, False))
      in case step1 of Inl e \<Rightarrow> Inl e
         | Inr (mut, changed) \<Rightarrow>
           (if annot mut AnnotationLastOrderID = rq_OrderID req \<and> annot mut AnnotationLastOrderSecret = []
            then Inr (mut\<lparr>sb_annotations := (sb_annotations mut)(AnnotationLastOrderSecret \<mapsto> secretName)\<rparr>, True)
            else Inr (mut, changed)))"

definition orderSecretName :: "hook \<Rightarrow> sandbox \<Rightarrow> spawnRequest \<Rightarrow> string" where
  "orderSecretName h sb req =
     WorkOrderSecretName (cf_Release (hk_Config h)) (rq_SessionID req) (sb_uid sb) (rq_OrderID req)"

definition repairRedelivery :: "k8sLib \<Rightarrow> hook \<Rightarrow> sandbox \<Rightarrow> sandbox \<Rightarrow> spawnRequest \<Rightarrow> (hookError + bool) prog" where
  "repairRedelivery lib h sb tmpl req =
     (let secretName = orderSecretName h sb req in
      thenP (ensureSecret sb tmpl req secretName) (\<lambda>_.
        case repairPointers req secretName sb of
          Inl e \<Rightarrow> Ret (Inl e)
        | Inr (mut, changed) \<Rightarrow>
          (if \<not> changed then Ret (Inr True)
           else thenP (hookPatch lib sb mut) (\<lambda>_. Ret (Inr True)))))"

text \<open>
  The refreshed pod template of a newer order: the rendered one with the running order's id
  and Secret reference kept, and the object's own labels that the template lacks. \<open>None\<close> is
  the nil dereference of a template volume without a Secret source.
\<close>

definition keepSecretName :: "podSpec \<Rightarrow> podSpec \<Rightarrow> podSpec option" where
  "keepSecretName cur new =
     (case workOrderVolume cur of None \<Rightarrow> Some new
      | Some curVol \<Rightarrow> (case v_secret curVol of None \<Rightarrow> Some new
        | Some s \<Rightarrow> (case workOrderVolume new of None \<Rightarrow> Some new
          | Some v \<Rightarrow> (case v_secret v of None \<Rightarrow> None
            | Some t \<Rightarrow> Some (new\<lparr>ps_volumes := updateFirst (\<lambda>v. v_name v = WorkOrderVolumeName)
                (\<lambda>v. v\<lparr>v_secret := Some (t\<lparr>ss_secretName := ss_secretName s\<rparr>)\<rparr>) (ps_volumes new)\<rparr>)))))"

definition refreshedTemplate :: "sandbox \<Rightarrow> podTemplate \<Rightarrow> podTemplate option" where
  "refreshedTemplate sb newPT =
     (let cur = mget (pt_annotations (sb_podTemplate sb)) AnnotationOrderID;
          newPT = (if cur \<noteq> [] then newPT\<lparr>pt_annotations := (pt_annotations newPT)(AnnotationOrderID \<mapsto> cur)\<rparr>
                   else newPT)
      in case keepSecretName (specOf sb) (pt_spec newPT) of None \<Rightarrow> None
         | Some spec \<Rightarrow> Some (newPT\<lparr>pt_spec := spec,
             pt_labels := pt_labels (sb_podTemplate sb) ++ pt_labels newPT\<rparr>))"

definition acceptNewer :: "sandbox \<Rightarrow> spawnRequest \<Rightarrow> string \<Rightarrow> gotime \<Rightarrow> podTemplate \<Rightarrow> sandbox" where
  "acceptNewer sb req secretName now pt =
     sb\<lparr>sb_annotations := (sb_annotations sb)
            (AnnotationPendingSpawn \<mapsto> rq_OrderID req,
            AnnotationPendingSpawnAt \<mapsto> formatRFC3339 now,
            AnnotationPendingSecret \<mapsto> secretName,
            AnnotationLastOrderID \<mapsto> rq_OrderID req,
            AnnotationLastOrderAttempt \<mapsto> FormatInt (rq_Attempt req),
            AnnotationLastOrderSecret \<mapsto> secretName),
          sb_operatingMode := Suspended, sb_podTemplate := pt\<rparr>"

definition publishNewer :: "k8sLib \<Rightarrow> hook \<Rightarrow> sandbox \<Rightarrow> sandbox \<Rightarrow> spawnRequest \<Rightarrow> (hookError + bool) prog" where
  "publishNewer lib h sb tmpl req =
     (let secretName = orderSecretName h sb req in
      thenP (ensureSecret sb tmpl req secretName) (\<lambda>_.
        bindP (request asTime Now) (\<lambda>now.
          case refreshedTemplate sb (sb_podTemplate tmpl) of
            None \<Rightarrow> Ret (Inl NilDereference)
          | Some pt \<Rightarrow>
            thenP (hookPatch lib sb (acceptNewer sb req secretName now pt)) (\<lambda>_. Ret (Inr True)))))"

definition reconcileExisting :: "k8sLib \<Rightarrow> hook \<Rightarrow> sandbox \<Rightarrow> sandbox \<Rightarrow> spawnRequest \<Rightarrow> (hookError + bool) prog" where
  "reconcileExisting lib h sb tmpl req =
     (case evaluate sb req (cf_Release (hk_Config h)) of
        Inl e \<Rightarrow> Ret (Inl e)
      | Inr DecisionSuperseded \<Rightarrow> Ret (Inr True)
      | Inr DecisionRedelivery \<Rightarrow> repairRedelivery lib h sb tmpl req
      | Inr DecisionNewer \<Rightarrow>
          thenP (checkCapacity h (Some sb) (sb_name sb)) (\<lambda>_. publishNewer lib h sb tmpl req))"

section \<open>One request\<close>

definition hookTemplate :: "k8sLib \<Rightarrow> hook \<Rightarrow> identity \<Rightarrow> (hookError + sandbox) prog" where
  "hookTemplate lib h ident =
     bindP (LoadTemplate lib (cf_TemplatePath (hk_Config h))) (\<lambda>x. case x of
       Inl e \<Rightarrow> Ret (Inl (nonRetryable (BadTemplate e)))
     | Inr tmpl \<Rightarrow>
       (case ApplyContract ident
              \<lparr>ct_WorkspaceMountPath = cf_WorkspaceMountPath (hk_Config h), ct_BaseDir = cf_BaseDir (hk_Config h),
               ct_TerminationGracePeriodSeconds = cf_TerminationGracePeriodSeconds (hk_Config h)\<rparr> tmpl of
          Inl e \<Rightarrow> Ret (Inl (nonRetryable (BadTemplate e)))
        | Inr t \<Rightarrow> Ret (Inr t)))"

text \<open>The body of the retry loop: \<open>Continue\<close> re-reads, \<open>Return\<close> leaves the function.\<close>

datatype attemptResult = Continue | Return "hookError + unit"

text \<open>A sleep that a cancelled context ends with an error.\<close>

definition sleepCtx :: "nat \<Rightarrow> (apiError + unit) prog" where
  [simp]: "sleepCtx d = request asOk (Pause d)"

definition backoff :: "nat \<Rightarrow> (apiError + unit) prog" where
  "backoff attempt = (if attempt > 0 then sleepCtx (50 * 2 ^ min attempt 4) else Ret (Inr ()))"

definition afterRead :: "k8sLib \<Rightarrow> hook \<Rightarrow> spawnRequest \<Rightarrow> sandbox \<Rightarrow> sandbox \<Rightarrow> attemptResult prog" where
  "afterRead lib h req tmpl sb =
     bindP (reconcileExisting lib h sb tmpl req) (\<lambda>x. case x of
       Inl e \<Rightarrow> Ret (if staleError e then Continue else Return (Inl e))
     | Inr done \<Rightarrow> Ret (if done then Return (Inr ()) else Continue))"

text \<open>The Sandbox is absent: create it, unless the cap is reached.\<close>

definition createPath :: "k8sLib \<Rightarrow> hook \<Rightarrow> spawnRequest \<Rightarrow> sandbox \<Rightarrow> attemptResult prog" where
  "createPath lib h req tmpl =
     bindP (checkCapacity h None (sb_name tmpl)) (\<lambda>c. case c of
       Inl e \<Rightarrow> Ret (Return (Inl e))
     | Inr _ \<Rightarrow>
       bindP (createSandbox tmpl req) (\<lambda>cr. case cr of
         Inl cerr \<Rightarrow> Ret (if cerr = AlreadyExists then Continue
                         else Return (Inl (classifyAPIError ''creating Sandbox'' cerr)))
       | Inr sb \<Rightarrow> afterRead lib h req tmpl sb))"

definition sessionAttempt :: "k8sLib \<Rightarrow> hook \<Rightarrow> spawnRequest \<Rightarrow> sandbox \<Rightarrow> nat \<Rightarrow> attemptResult prog" where
  "sessionAttempt lib h req tmpl attempt =
     bindP (backoff attempt) (\<lambda>b. case b of
       Inl _ \<Rightarrow> Ret (Return (Inl (retryable Interrupted)))
     | Inr _ \<Rightarrow>
       bindP (request asSandbox (GetSandbox (sb_namespace tmpl) (sb_name tmpl))) (\<lambda>g. case g of
         Inl err \<Rightarrow> (if err = NotFound then createPath lib h req tmpl
                    else Ret (Return (Inl (classifyAPIError ''reading Sandbox'' err))))
       | Inr sb \<Rightarrow> afterRead lib h req tmpl sb))"

primrec sessionLoop :: "k8sLib \<Rightarrow> hook \<Rightarrow> spawnRequest \<Rightarrow> sandbox \<Rightarrow> nat \<Rightarrow> nat \<Rightarrow> (hookError + unit) prog" where
  "sessionLoop lib h req tmpl 0 attempt = Ret (Inl (retryable (GaveUp (hk_MaxAttempts h))))"
| "sessionLoop lib h req tmpl (Suc n) attempt =
     bindP (sessionAttempt lib h req tmpl attempt) (\<lambda>x. case x of
       Continue \<Rightarrow> sessionLoop lib h req tmpl n (Suc attempt)
     | Return r \<Rightarrow> Ret r)"

definition requestIdentity :: "hook \<Rightarrow> spawnRequest \<Rightarrow> identity" where
  "requestIdentity h req = \<lparr>id_Release = cf_Release (hk_Config h), id_Namespace = cf_Namespace (hk_Config h),
     id_SessionID = rq_SessionID req, id_AccountID = rq_AccountID req\<rparr>"

definition runSession :: "k8sLib \<Rightarrow> hook \<Rightarrow> spawnRequest \<Rightarrow> (hookError + unit) prog" where
  "runSession lib h req =
     thenP (hookTemplate lib h (requestIdentity h req)) (\<lambda>tmpl.
       sessionLoop lib h req tmpl (nat (hk_MaxAttempts h)) 0)"

definition Run :: "k8sLib \<Rightarrow> hook \<Rightarrow> spawnRequest \<Rightarrow> (hookError + unit) prog" where
  "Run lib h req =
     (let h = (if hk_MaxAttempts h = 0 then h\<lparr>hk_MaxAttempts := DefaultMaxAttempts\<rparr> else h) in
      if rq_SessionID req = [] then Ret (Inl (nonRetryable Standby))
      else runSession lib h req)"

end
