(* ===== verification/Reconciler.thy ===== *)
theory Reconciler
  imports Hook "HOL-Library.List_Lexorder" "HOL-Library.Product_Lexorder" "HOL-Library.Char_ord"
begin

text \<open>
  internal/sessioncontroller/reconciler.go: the session controller's reconcile pass. One
  definition per method; the two maps the reconciler keeps between passes are its state,
  threaded through. Every method is a program over the API client, the clock included.
\<close>

section \<open>Options, state, errors\<close>

record gcOptions =
  op_GCEnabled :: bool
  op_GCMaxIdleAge :: duration
  op_GCMaxIdleSessions :: int
  op_ZombieEnabled :: bool
  op_ZombieAlertAfter :: duration

record reconciler =
  rc_Release :: string
  rc_Options :: gcOptions

text \<open>A missing key of a Go \<open>map[types.UID]bool\<close> reads as false.\<close>

record recState =
  rs_multiplePods :: "string \<Rightarrow> bool"
  rs_zombiesAlerted :: "string \<Rightarrow> bool"

datatype recError = Reading apiError | ListingPods apiError | ListingSandboxes apiError
  | PatchBuild patchError | Patching apiError | NoPendingSecret string | NotLastAccepted string string
  | ReadingSecret string apiError | SecretRejected secretError | NoWorkOrderVolume
  | UnreadableSuspendedAt | Deleting apiError

definition EventTypeNormal :: string where "EventTypeNormal = ''Normal''"
definition EventTypeWarning :: string where "EventTypeWarning = ''Warning''"
definition EventSpawnObserved :: string where "EventSpawnObserved = ''SpawnObserved''"
definition EventSleep :: string where "EventSleep = ''Sleep''"
definition EventWake :: string where "EventWake = ''Wake''"
definition EventWakeBlocked :: string where "EventWakeBlocked = ''WakeBlocked''"
definition EventGarbageCollected :: string where "EventGarbageCollected = ''GarbageCollected''"
definition EventPodStuckTerminating :: string where "EventPodStuckTerminating = ''PodStuckTerminating''"
definition EventMultiplePods :: string where "EventMultiplePods = SandboxReasonMultiplePods"

definition emit :: "sandbox \<Rightarrow> string \<Rightarrow> string \<Rightarrow> eventArg list \<Rightarrow> unit prog" where
  "emit sb eventtype rsn args =
     request (\<lambda>_. ()) (Emit \<lparr>ev_sandbox = sb_name sb, ev_type = eventtype, ev_reason = rsn, ev_args = args\<rparr>)"

section \<open>Reading\<close>

definition ownedPods :: "k8sLib \<Rightarrow> reconciler \<Rightarrow> sandbox \<Rightarrow> (recError + pod list) prog" where
  "ownedPods lib rc sb =
     bindP (request asPods (ListPods (sb_namespace sb) (SelectorLabels ComponentRunner (rc_Release rc)))) (\<lambda>x.
       case x of Inl e \<Rightarrow> Ret (Inl (ListingPods e))
       | Inr items \<Rightarrow> Ret (Inr (filter (\<lambda>p. case lib_getControllerOf lib (p_owners p) of
             None \<Rightarrow> False | Some ref \<Rightarrow> or_uid ref = sb_uid sb) items)))"

definition currentGenerationTrue :: "k8sLib \<Rightarrow> sandbox \<Rightarrow> string \<Rightarrow> bool" where
  "currentGenerationTrue lib sb condType =
     (case lib_findStatusCondition lib (sb_conditions sb) condType of None \<Rightarrow> False
      | Some c \<Rightarrow> cd_status c = ConditionTrue \<and> cd_observedGeneration c = sb_generation sb)"

definition podWorkOrderSecret :: "pod \<Rightarrow> string" where
  "podWorkOrderSecret p =
     (case find (\<lambda>v. v_name v = WorkOrderVolumeName \<and> v_secret v \<noteq> None) (p_volumes p) of
        None \<Rightarrow> [] | Some v \<Rightarrow> (case v_secret v of None \<Rightarrow> [] | Some s \<Rightarrow> ss_secretName s))"

definition recPatch :: "k8sLib \<Rightarrow> sandbox \<Rightarrow> sandbox \<Rightarrow> (recError + unit) prog" where
  "recPatch lib orig mut =
     (case Optimistic lib orig mut of Inl e \<Rightarrow> Ret (Inl (PatchBuild e))
      | Inr p \<Rightarrow> bindP (request asOk (PatchSandbox orig mut p)) (\<lambda>x.
          case x of Inl e \<Rightarrow> Ret (Inl (Patching e)) | Inr _ \<Rightarrow> Ret (Inr ())))"

section \<open>Spawn observation\<close>

definition matchingPod :: "sandbox \<Rightarrow> pod list \<Rightarrow> pod option" where
  "matchingPod sb pods =
     (let pending = annot sb AnnotationPendingSpawn; pendingSecret = annot sb AnnotationPendingSecret
      in find (\<lambda>p. mget (p_annotations p) AnnotationOrderID = pending \<and> pendingSecret \<noteq> [] \<and>
                    podWorkOrderSecret p = pendingSecret) pods)"

definition observed :: "sandbox \<Rightarrow> sandbox" where
  "observed sb = sb\<lparr>sb_annotations := (sb_annotations sb)
     (AnnotationPendingSpawn := None, AnnotationPendingSpawnAt := None, AnnotationPendingSecret := None)\<rparr>"

definition spawnObservation :: "k8sLib \<Rightarrow> sandbox \<Rightarrow> pod list \<Rightarrow> (recError + bool) prog" where
  "spawnObservation lib sb pods =
     (let pending = annot sb AnnotationPendingSpawn in
      if pending = [] \<or> annot sb AnnotationAppliedSpawn \<noteq> pending then Ret (Inr False)
      else case matchingPod sb pods of None \<Rightarrow> Ret (Inr False)
        | Some p \<Rightarrow>
          thenP (recPatch lib sb (observed sb)) (\<lambda>_.
            bindP (emit sb EventTypeNormal EventSpawnObserved [StrArg (p_name p), StrArg pending]) (\<lambda>_. Ret (Inr True))))"

section \<open>Sleep\<close>

definition asleep :: "sandbox \<Rightarrow> gotime \<Rightarrow> sandbox" where
  "asleep sb now = sb\<lparr>sb_operatingMode := Suspended,
     sb_annotations := (sb_annotations sb)(AnnotationLastSuspendedAt \<mapsto> formatRFC3339 now)\<rparr>"

definition recSleep :: "k8sLib \<Rightarrow> sandbox \<Rightarrow> (recError + bool) prog" where
  "recSleep lib sb =
     (if sb_operatingMode sb \<noteq> Running then Ret (Inr False)
      else if annot sb AnnotationPendingSpawn \<noteq> [] then Ret (Inr False)
      else if \<not> currentGenerationTrue lib sb SandboxConditionFinished then Ret (Inr False)
      else bindP (request asTime Now) (\<lambda>now.
        thenP (recPatch lib sb (asleep sb now)) (\<lambda>_.
          bindP (emit sb EventTypeNormal EventSleep
              (case lib_findStatusCondition lib (sb_conditions sb) SandboxConditionFinished of
                 None \<Rightarrow> [] | Some c \<Rightarrow> [StrArg (cd_reason c)])) (\<lambda>_. Ret (Inr True)))))"

section \<open>Wake\<close>

definition validateWorkOrderSecret :: "secret \<Rightarrow> sandbox \<Rightarrow> string \<Rightarrow> string \<Rightarrow> secretError + unit" where
  "validateWorkOrderSecret s sb order release =
     (if se_immutable s \<noteq> Some True then Inl NotImmutable
      else if mget (se_data s) WorkOrderSecretKey = [] then Inl NoWorkOrderKey
      else if mget (se_annotations s) AnnotationOrderID \<noteq> order
      then Inl (ForOtherOrder (mget (se_annotations s) AnnotationOrderID))
      else if mget (se_annotations s) AnnotationOrderAttempt \<noteq> annot sb AnnotationLastOrderAttempt
      then Inl (AttemptMismatch (mget (se_annotations s) AnnotationOrderAttempt) (annot sb AnnotationLastOrderAttempt))
      else let session = mget (se_annotations s) AnnotationSessionID in
      if LabelValue session \<noteq> label sb LabelSessionID then Inl ForOtherSession
      else if se_name s \<noteq> WorkOrderSecretName release session (sb_uid sb) order then Inl NameNotDerived
      else if list_ex (\<lambda>ref. or_uid ref = sb_uid sb) (se_owners s) then Inr () else Inl NotOwned)"

definition setSecretName :: "string \<Rightarrow> volume \<Rightarrow> volume" where
  "setSecretName name v =
     (case v_secret v of
        None \<Rightarrow> v\<lparr>v_secret := Some \<lparr>ss_secretName = name, ss_other = []\<rparr>, v_other := []\<rparr>
      | Some s \<Rightarrow> v\<lparr>v_secret := Some (s\<lparr>ss_secretName := name\<rparr>)\<rparr>)"

definition installOrder :: "string \<Rightarrow> string \<Rightarrow> podTemplate \<Rightarrow> podTemplate" where
  "installOrder pending secretName pt =
     pt\<lparr>pt_annotations := (pt_annotations pt)(AnnotationOrderID \<mapsto> pending),
        pt_spec := (pt_spec pt)\<lparr>ps_volumes := map (\<lambda>v. if v_name v = WorkOrderVolumeName
            then setSecretName secretName v else v) (ps_volumes (pt_spec pt))\<rparr>\<rparr>"

definition awake :: "sandbox \<Rightarrow> string \<Rightarrow> string \<Rightarrow> sandbox" where
  "awake sb pending secretName =
     sb\<lparr>sb_operatingMode := Running,
       sb_annotations := (sb_annotations sb)(AnnotationAppliedSpawn \<mapsto> pending, AnnotationLastSuspendedAt := None),
       sb_podTemplate := installOrder pending secretName (sb_podTemplate sb)\<rparr>"

definition hasWorkOrderVolume :: "sandbox \<Rightarrow> bool" where
  "hasWorkOrderVolume sb \<longleftrightarrow> list_ex (\<lambda>v. v_name v = WorkOrderVolumeName) (ps_volumes (specOf sb))"

definition wake :: "k8sLib \<Rightarrow> reconciler \<Rightarrow> sandbox \<Rightarrow> (recError + bool) prog" where
  "wake lib rc sb =
     (if sb_operatingMode sb \<noteq> Suspended then Ret (Inr False)
      else let pending = annot sb AnnotationPendingSpawn in
      if pending = [] then Ret (Inr False)
      else if \<not> currentGenerationTrue lib sb SandboxConditionSuspended then Ret (Inr False)
      else let secretName = annot sb AnnotationPendingSecret in
      if secretName = [] then
        bindP (emit sb EventTypeWarning EventWakeBlocked [StrArg pending]) (\<lambda>_. Ret (Inl (NoPendingSecret pending)))
      else if annot sb AnnotationLastOrderID \<noteq> pending
      then Ret (Inl (NotLastAccepted pending (annot sb AnnotationLastOrderID)))
      else bindP (request asSecret (GetSecret (sb_namespace sb) secretName)) (\<lambda>x. case x of
        Inl e \<Rightarrow>
          (if e = NotFound then
             bindP (emit sb EventTypeWarning EventWakeBlocked [StrArg secretName, StrArg pending])
               (\<lambda>_. Ret (Inl (ReadingSecret secretName e)))
           else Ret (Inl (ReadingSecret secretName e)))
      | Inr s \<Rightarrow> (case validateWorkOrderSecret s sb pending (rc_Release rc) of
          Inl e \<Rightarrow> bindP (emit sb EventTypeWarning EventWakeBlocked [StrArg secretName, ErrArg e])
                     (\<lambda>_. Ret (Inl (SecretRejected e)))
        | Inr _ \<Rightarrow>
          (if \<not> hasWorkOrderVolume sb then Ret (Inl NoWorkOrderVolume)
           else thenP (recPatch lib sb (awake sb pending secretName)) (\<lambda>_.
             bindP (emit sb EventTypeNormal EventWake [StrArg pending]) (\<lambda>_. Ret (Inr True)))))))"

section \<open>Zombies\<close>

text \<open>The loop over the Pods, with the requeue delay so far and the UIDs alerted on.\<close>

fun zombieLoop :: "reconciler \<Rightarrow> sandbox \<Rightarrow> gotime \<Rightarrow> pod list \<Rightarrow> duration \<Rightarrow> (string \<Rightarrow> bool)
    \<Rightarrow> (duration \<times> (string \<Rightarrow> bool)) prog" where
  "zombieLoop rc sb now [] requeue alerted = Ret (requeue, alerted)"
| "zombieLoop rc sb now (p # pods) requeue alerted =
     (case p_deletionTimestamp p of None \<Rightarrow> zombieLoop rc sb now pods requeue alerted
      | Some t \<Rightarrow>
        (let age = timeSub now t; after = op_ZombieAlertAfter (rc_Options rc) in
         if age < after then
           (let d = wrapInt64 (after - age) in
            zombieLoop rc sb now pods (if requeue = 0 \<or> d < requeue then d else requeue) alerted)
         else if alerted (p_uid p) then zombieLoop rc sb now pods requeue alerted
         else bindP (emit sb EventTypeWarning EventPodStuckTerminating
                [StrArg (p_name p), DurArg (durTruncate age nsPerSec), StrArg (p_nodeName p)])
                (\<lambda>_. zombieLoop rc sb now pods requeue (alerted(p_uid p := True)))))"

definition zombie :: "reconciler \<Rightarrow> recState \<Rightarrow> sandbox \<Rightarrow> pod list \<Rightarrow> (duration \<times> recState) prog" where
  "zombie rc st sb pods =
     (if \<not> op_ZombieEnabled (rc_Options rc) then Ret (0, st)
      else bindP (request asTime Now) (\<lambda>now.
        bindP (zombieLoop rc sb now pods 0 (rs_zombiesAlerted st)) (\<lambda>(requeue, alerted).
          Ret (requeue, st\<lparr>rs_zombiesAlerted := alerted\<rparr>))))"

section \<open>Garbage collection\<close>

definition idleSince :: "k8sLib \<Rightarrow> sandbox \<Rightarrow> recError + gotime option" where
  "idleSince lib sb =
     (if deleting sb \<or> sb_operatingMode sb \<noteq> Suspended \<or> annot sb AnnotationPendingSpawn \<noteq> [] \<or>
         \<not> currentGenerationTrue lib sb SandboxConditionSuspended then Inr None
      else let raw = annot sb AnnotationLastSuspendedAt in
      if raw = [] then Inr None
      else case parseRFC3339 raw of None \<Rightarrow> Inl UnreadableSuspendedAt | Some t \<Rightarrow> Inr (Some t))"

datatype idleEntry = IdleEntry (ie_name: string) (ie_uid: string) (ie_at: gotime)

text \<open>The comparison \<open>sort.Slice\<close> is given: by time, then by name.\<close>

definition idleBefore :: "idleEntry \<Rightarrow> idleEntry \<Rightarrow> bool" where
  "idleBefore a b = (if ie_at a \<noteq> ie_at b then ie_at a < ie_at b else ie_name a < ie_name b)"

text \<open>
  \<open>sort.Slice\<close> may leave entries of the same time and name in any order; the model orders them by
  UID. The names of a namespace differ, so there are none: \<open>sorted_idleBefore\<close> below.
\<close>

definition ie_key :: "idleEntry \<Rightarrow> gotime \<times> string \<times> string" where
  "ie_key e = (ie_at e, ie_name e, ie_uid e)"

instantiation idleEntry :: linorder
begin

definition less_eq_idleEntry :: "idleEntry \<Rightarrow> idleEntry \<Rightarrow> bool" where
  "less_eq_idleEntry a b \<longleftrightarrow> ie_key a \<le> ie_key b"

definition less_idleEntry :: "idleEntry \<Rightarrow> idleEntry \<Rightarrow> bool" where
  "less_idleEntry a b \<longleftrightarrow> ie_key a < ie_key b"

instance
proof
  fix a b c :: idleEntry
  show "a < b \<longleftrightarrow> a \<le> b \<and> \<not> b \<le> a" by (auto simp: less_idleEntry_def less_eq_idleEntry_def)
  show "a \<le> a" by (simp add: less_eq_idleEntry_def)
  show "a \<le> b \<Longrightarrow> b \<le> c \<Longrightarrow> a \<le> c" by (auto simp: less_eq_idleEntry_def)
  show "a \<le> b \<or> b \<le> a" by (auto simp: less_eq_idleEntry_def)
  show "a \<le> b \<Longrightarrow> b \<le> a \<Longrightarrow> a = b"
    by (auto simp: less_eq_idleEntry_def ie_key_def dest!: antisym intro: idleEntry.expand)
qed

end

lemma idleBefore_less: "ie_name a \<noteq> ie_name b \<Longrightarrow> idleBefore a b \<longleftrightarrow> a < b"
  by (auto simp: idleBefore_def less_idleEntry_def ie_key_def)

definition idleEntryOf :: "k8sLib \<Rightarrow> sandbox \<Rightarrow> idleEntry option" where
  "idleEntryOf lib sb = (case idleSince lib sb of Inr (Some at) \<Rightarrow> Some (IdleEntry (sb_name sb) (sb_uid sb) at)
     | _ \<Rightarrow> None)"

definition selectVictims :: "int \<Rightarrow> idleEntry list \<Rightarrow> idleEntry list" where
  "selectVictims maxIdle idle =
     (let excess = int (length idle) - maxIdle in
      if excess \<le> 0 then [] else take (nat excess) (sort idle))"

definition idleVictims :: "k8sLib \<Rightarrow> reconciler \<Rightarrow> string \<Rightarrow> (recError + idleEntry list) prog" where
  "idleVictims lib rc namespace =
     bindP (request asSandboxes (ListSandboxes namespace (SelectorLabels ComponentRunner (rc_Release rc)))) (\<lambda>x.
       case x of Inl e \<Rightarrow> Ret (Inl (ListingSandboxes e))
       | Inr items \<Rightarrow> Ret (Inr (selectVictims (op_GCMaxIdleSessions (rc_Options rc))
           (List.map_filter (idleEntryOf lib) items))))"

definition gcReasonOf :: "k8sLib \<Rightarrow> reconciler \<Rightarrow> sandbox \<Rightarrow> duration \<Rightarrow> (recError + gcReason option) prog" where
  "gcReasonOf lib rc sb idle =
     (if idle \<ge> op_GCMaxIdleAge (rc_Options rc) then Ret (Inr (Some (IdleFor (durTruncate idle nsPerSec) (op_GCMaxIdleAge (rc_Options rc)))))
      else if op_GCMaxIdleSessions (rc_Options rc) > 0 then
        thenP (idleVictims lib rc (sb_namespace sb)) (\<lambda>victims.
          Ret (Inr (if list_ex (\<lambda>v. ie_uid v = sb_uid sb) victims then Some (AmongOldest (length victims) (op_GCMaxIdleSessions (rc_Options rc))) else None)))
      else Ret (Inr None))"

definition gc :: "k8sLib \<Rightarrow> reconciler \<Rightarrow> sandbox \<Rightarrow> (recError + bool \<times> duration) prog" where
  "gc lib rc sb =
     (if \<not> op_GCEnabled (rc_Options rc) then Ret (Inr (False, 0))
      else case idleSince lib sb of
        Inl e \<Rightarrow> Ret (Inl e)
      | Inr None \<Rightarrow> Ret (Inr (False, 0))
      | Inr (Some suspendedAt) \<Rightarrow>
        bindP (request asTime Now) (\<lambda>now.
          let idle = timeSub now suspendedAt in
          thenP (gcReasonOf lib rc sb idle) (\<lambda>reason. case reason of
            None \<Rightarrow> Ret (Inr (False, wrapInt64 (op_GCMaxIdleAge (rc_Options rc) - idle)))
          | Some why \<Rightarrow>
            bindP (request asOk (DeleteSandbox (sb_namespace sb) (sb_name sb) (sb_uid sb) (sb_resourceVersion sb))) (\<lambda>x.
              case x of
                Inl err \<Rightarrow> (if err = NotFound then Ret (Inr (True, 0)) else Ret (Inl (Deleting err)))
              | Inr _ \<Rightarrow> bindP (emit sb EventTypeNormal EventGarbageCollected [ReasonArg why])
                  (\<lambda>_. Ret (Inr (True, 0)))))))"

section \<open>Alarm\<close>

definition multiplePods :: "k8sLib \<Rightarrow> sandbox \<Rightarrow> bool" where
  "multiplePods lib sb = (case lib_findStatusCondition lib (sb_conditions sb) SandboxConditionReady of
     None \<Rightarrow> False | Some c \<Rightarrow> cd_status c = ConditionFalse \<and> cd_reason c = SandboxReasonMultiplePods)"

definition alarmMessage :: "k8sLib \<Rightarrow> sandbox \<Rightarrow> eventArg list" where
  "alarmMessage lib sb = (case lib_findStatusCondition lib (sb_conditions sb) SandboxConditionReady of
     None \<Rightarrow> [] | Some c \<Rightarrow> [StrArg (cd_message c)])"

definition alarm :: "k8sLib \<Rightarrow> recState \<Rightarrow> sandbox \<Rightarrow> recState prog" where
  "alarm lib st sb =
     (let multiple = multiplePods lib sb; was = rs_multiplePods st (sb_uid sb);
          st = st\<lparr>rs_multiplePods := (rs_multiplePods st)(sb_uid sb := multiple)\<rparr>
      in if multiple \<and> \<not> was then bindP (emit sb EventTypeWarning EventMultiplePods (alarmMessage lib sb)) (\<lambda>_. Ret st)
         else Ret st)"

section \<open>The reconcile pass\<close>

text \<open>The result is the requeue delay, 0 for none.\<close>

definition earlier :: "duration \<Rightarrow> duration \<Rightarrow> duration" where
  "earlier cur requeue = (if requeue > 0 \<and> (cur = 0 \<or> requeue < cur) then requeue else cur)"

definition lastPredicates :: "k8sLib \<Rightarrow> reconciler \<Rightarrow> recState \<Rightarrow> sandbox \<Rightarrow> pod list
    \<Rightarrow> (recState \<times> (recError + duration)) prog" where
  "lastPredicates lib rc st sb pods =
     bindP (zombie rc st sb pods) (\<lambda>(requeue, st).
       let after = (if requeue > 0 then requeue else 0) in
       bindP (gc lib rc sb) (\<lambda>g. case g of
         Inl e \<Rightarrow> Ret (st, Inl e)
       | Inr (done, requeue) \<Rightarrow>
         (if done then Ret (st, Inr 0)
          else bindP (alarm lib st sb) (\<lambda>st. Ret (st, Inr (earlier after requeue))))))"

definition predicate :: "(recError + bool) prog \<Rightarrow> recState \<Rightarrow> (recState \<times> (recError + duration)) prog
    \<Rightarrow> (recState \<times> (recError + duration)) prog" where
  "predicate p st rest = bindP p (\<lambda>x. case x of Inl e \<Rightarrow> Ret (st, Inl e)
     | Inr done \<Rightarrow> (if done then Ret (st, Inr 0) else rest))"

text \<open>\<open>forget\<close> is called when the Sandbox is gone; it drops nothing.\<close>

definition forget :: "string \<times> string \<Rightarrow> recState \<Rightarrow> recState" where
  [simp]: "forget key st = st"

definition Reconcile :: "k8sLib \<Rightarrow> reconciler \<Rightarrow> recState \<Rightarrow> string \<Rightarrow> string
    \<Rightarrow> (recState \<times> (recError + duration)) prog" where
  "Reconcile lib rc st namespace name =
     bindP (request asSandbox (GetSandbox namespace name)) (\<lambda>g. case g of
       Inl err \<Rightarrow> (if err = NotFound then Ret (forget (namespace, name) st, Inr 0) else Ret (st, Inl (Reading err)))
     | Inr sb \<Rightarrow>
       (if deleting sb then Ret (st, Inr 0)
        else if label sb LabelInstance \<noteq> rc_Release rc \<or> label sb LabelName \<noteq> ComponentRunner
        then Ret (st, Inr 0)
        else bindP (ownedPods lib rc sb) (\<lambda>ow. case ow of
          Inl e \<Rightarrow> Ret (st, Inl e)
        | Inr pods \<Rightarrow>
            predicate (spawnObservation lib sb pods) st
              (predicate (recSleep lib sb) st
                (predicate (wake lib rc sb) st
                  (lastPredicates lib rc st sb pods))))))"

end
