(* ===== verification/Lifecycle.thy ===== *)
theory Lifecycle
  imports Reconciler
begin

text \<open>
  The contract of a session's Sandbox as a state machine over what its annotations, its
  operating mode and its Pod template say: accepting and repairing orders (the hook),
  observing, sleeping and waking (the session controller). The invariant holds in every
  reachable state; the hook's and the controller's patches are shown to be steps of it.
\<close>

section \<open>Reachable states and invariants\<close>

inductive reachable :: "('s \<Rightarrow> bool) \<Rightarrow> ('s \<Rightarrow> 'a \<Rightarrow> 's \<Rightarrow> bool) \<Rightarrow> 's \<Rightarrow> bool"
  for init :: "'s \<Rightarrow> bool" and step :: "'s \<Rightarrow> 'a \<Rightarrow> 's \<Rightarrow> bool" where
  start: "init s \<Longrightarrow> reachable init step s"
| step: "reachable init step s \<Longrightarrow> step s a t \<Longrightarrow> reachable init step t"

inductive steps :: "('s \<Rightarrow> 'a \<Rightarrow> 's \<Rightarrow> bool) \<Rightarrow> 's \<Rightarrow> 's \<Rightarrow> bool"
  for step :: "'s \<Rightarrow> 'a \<Rightarrow> 's \<Rightarrow> bool" where
  none: "steps step s s"
| more: "steps step s t \<Longrightarrow> step t a u \<Longrightarrow> steps step s u"

text \<open>
  The interface of an inductive invariant: whoever shows that the initial states satisfy it
  and every step keeps it gets it in every reachable state, and along every run.
\<close>

locale inductive_invariant =
  fixes init :: "'s \<Rightarrow> bool"
    and step :: "'s \<Rightarrow> 'a \<Rightarrow> 's \<Rightarrow> bool"
    and inv :: "'s \<Rightarrow> bool"
  assumes inv_init: "init s \<Longrightarrow> inv s"
    and inv_step: "inv s \<Longrightarrow> step s a t \<Longrightarrow> inv t"
begin

lemma reachable_inv: "reachable init step s \<Longrightarrow> inv s"
  by (induction rule: reachable.induct) (auto intro: inv_init inv_step)

lemma steps_inv: "steps step s t \<Longrightarrow> inv s \<Longrightarrow> inv t"
  by (induction rule: steps.induct) (auto intro: inv_step)

end

text \<open>A quantity that no step decreases: with the invariant, along any number of steps.\<close>

locale monotone_quantity = inductive_invariant +
  fixes rank :: "'s \<Rightarrow> 'o :: preorder"
  assumes rank_step: "inv s \<Longrightarrow> step s a t \<Longrightarrow> rank s \<le> rank t"
begin

lemma steps_rank: "steps step s t \<Longrightarrow> inv s \<Longrightarrow> rank s \<le> rank t"
  by (induction rule: steps.induct) (auto intro: order_trans rank_step steps_inv)

end

section \<open>The session a Sandbox describes\<close>

record session =
  s_mode :: operatingMode
  s_pending :: string
  s_pendingSecret :: string
  s_applied :: string
  s_lastID :: string
  s_lastAttempt :: "int option"
  s_lastSecret :: string
  s_podOrder :: string
  s_podSecret :: "string option"

definition podTemplateSecret :: "podTemplate \<Rightarrow> string option" where
  "podTemplateSecret pt = (case workOrderVolume (pt_spec pt) of None \<Rightarrow> None
     | Some v \<Rightarrow> map_option ss_secretName (v_secret v))"

definition sessionOf :: "sandbox \<Rightarrow> session" where
  "sessionOf sb = \<lparr>s_mode = sb_operatingMode sb,
     s_pending = annot sb AnnotationPendingSpawn,
     s_pendingSecret = annot sb AnnotationPendingSecret,
     s_applied = annot sb AnnotationAppliedSpawn,
     s_lastID = annot sb AnnotationLastOrderID,
     s_lastAttempt = parseAttempt (annot sb AnnotationLastOrderAttempt),
     s_lastSecret = annot sb AnnotationLastOrderSecret,
     s_podOrder = mget (pt_annotations (sb_podTemplate sb)) AnnotationOrderID,
     s_podSecret = podTemplateSecret (sb_podTemplate sb)\<rparr>"

section \<open>The steps\<close>

datatype action = Accept string int | Repair string | Observe | Sleep | Wake

text \<open>
  \<open>D order name\<close> says that \<open>name\<close> is a Secret name derived from the session's identity and
  the order. A newer order keeps the running order's mark on the Pod template.
\<close>

inductive lifecycle :: "(string \<Rightarrow> string \<Rightarrow> bool) \<Rightarrow> session \<Rightarrow> action \<Rightarrow> session \<Rightarrow> bool"
  for D :: "string \<Rightarrow> string \<Rightarrow> bool" where
  accept: "\<lbrakk> ord \<noteq> []; ord \<noteq> s_lastID s; s_lastAttempt s = Some m; m < n; D ord name;
       s_podOrder s \<noteq> [] \<Longrightarrow> podOrd = s_podOrder s; s_podSecret s \<noteq> None \<Longrightarrow> podSec = s_podSecret s \<rbrakk>
     \<Longrightarrow> lifecycle D s (Accept ord n) (s\<lparr>s_mode := Suspended, s_pending := ord, s_pendingSecret := name,
           s_lastID := ord, s_lastAttempt := Some n, s_lastSecret := name,
           s_podOrder := podOrd, s_podSecret := podSec\<rparr>)"
| repair: "\<lbrakk> ord \<noteq> []; s_lastID s = ord; D ord name;
       pendSec = (if s_pending s = ord \<and> s_pendingSecret s = [] then name else s_pendingSecret s);
       lastSec = (if s_lastSecret s = [] then name else s_lastSecret s) \<rbrakk>
     \<Longrightarrow> lifecycle D s (Repair ord) (s\<lparr>s_pendingSecret := pendSec, s_lastSecret := lastSec\<rparr>)"
| observe: "\<lbrakk> s_pending s \<noteq> []; s_applied s = s_pending s \<rbrakk>
     \<Longrightarrow> lifecycle D s Observe (s\<lparr>s_pending := [], s_pendingSecret := []\<rparr>)"
| sleep: "\<lbrakk> s_mode s = Running; s_pending s = [] \<rbrakk> \<Longrightarrow> lifecycle D s Sleep (s\<lparr>s_mode := Suspended\<rparr>)"
| wake: "\<lbrakk> s_mode s = Suspended; s_pending s \<noteq> []; s_lastID s = s_pending s;
       D (s_pending s) (s_pendingSecret s) \<rbrakk>
     \<Longrightarrow> lifecycle D s Wake (s\<lparr>s_mode := Running, s_applied := s_pending s, s_podOrder := s_pending s,
           s_podSecret := Some (s_pendingSecret s)\<rparr>)"

inductive_cases lifecycleE: "lifecycle D s a t"
inductive_cases lifecycle_AcceptE: "lifecycle D s (Accept ord n) t"
inductive_cases lifecycle_WakeE: "lifecycle D s Wake t"
inductive_simps lifecycle_Sleep_iff: "lifecycle D s Sleep t"
inductive_simps lifecycle_Observe_iff: "lifecycle D s Observe t"

text \<open>What the hook creates.\<close>

definition created :: "session \<Rightarrow> bool" where
  "created s \<longleftrightarrow> s_mode s = Suspended \<and> s_pending s \<noteq> [] \<and> s_lastID s = s_pending s \<and>
     s_lastAttempt s \<noteq> None \<and> s_applied s = [] \<and> s_pendingSecret s = [] \<and> s_lastSecret s = []"

section \<open>The invariant\<close>

definition sessionInv :: "(string \<Rightarrow> string \<Rightarrow> bool) \<Rightarrow> session \<Rightarrow> bool" where
  "sessionInv D s \<longleftrightarrow>
     (s_mode s = Running \<or> s_mode s = Suspended) \<and> s_lastID s \<noteq> [] \<and> s_lastAttempt s \<noteq> None \<and>
     (s_pending s = [] \<or> s_pending s = s_lastID s) \<and>
     (s_pendingSecret s = [] \<or> s_pending s \<noteq> [] \<and> D (s_pending s) (s_pendingSecret s)) \<and>
     (s_lastSecret s = [] \<or> D (s_lastID s) (s_lastSecret s)) \<and>
     (s_mode s = Suspended \<or> s_applied s \<noteq> [] \<and> s_podOrder s = s_applied s \<and>
        (\<exists>name. s_podSecret s = Some name \<and> D (s_applied s) name) \<and>
        (s_pending s = [] \<or> s_applied s = s_pending s))"

lemma created_inv: "created s \<Longrightarrow> sessionInv D s"
  by (auto simp: created_def sessionInv_def)

lemma lifecycle_inv:
  assumes "lifecycle D s a t" and "sessionInv D s"
  shows "sessionInv D t"
  using assms
proof (induction rule: lifecycle.induct)
  case (accept ord s m n name podOrd podSec)
  from accept(1,5) show ?case by (simp add: sessionInv_def)
next
  case (repair ord s name pendSec lastSec)
  then show ?case by (auto simp: sessionInv_def)
next
  case (observe s)
  then show ?case by (auto simp: sessionInv_def)
next
  case (sleep s)
  then show ?case by (simp add: sessionInv_def)
next
  case (wake s)
  then show ?case by (simp add: sessionInv_def)
qed

lemma lifecycle_attempt: "lifecycle D s a t \<Longrightarrow> the (s_lastAttempt s) \<le> the (s_lastAttempt t)"
  by (induction rule: lifecycle.induct) simp_all

text \<open>
  How far the accepted order has come: waiting to be installed, installed, taken off the pending
  list, asleep. Only a new order, at a higher attempt, goes back.
\<close>

definition stage :: "session \<Rightarrow> nat" where
  "stage s = (if s_pending s \<noteq> [] then (if s_mode s = Suspended then 0 else 1)
     else if s_mode s = Running then 2 else 3)"

lemma lifecycle_progress:
  "lifecycle D s a t \<Longrightarrow> the (s_lastAttempt s) < the (s_lastAttempt t) \<or>
     the (s_lastAttempt s) = the (s_lastAttempt t) \<and> s_lastID s = s_lastID t \<and> stage s \<le> stage t"
  by (induction rule: lifecycle.induct) (simp_all add: stage_def)

interpretation sessions: inductive_invariant created "lifecycle D" "sessionInv D" for D
  by unfold_locales (rule created_inv, assumption, rule lifecycle_inv)

interpretation attempts: monotone_quantity created "lifecycle D" "sessionInv D" "\<lambda>s. the (s_lastAttempt s)" for D
  by unfold_locales (rule lifecycle_attempt)

text \<open>Only a new order changes the accepted order, and only to a higher attempt.\<close>

lemma lifecycle_lastID_changes:
  "lifecycle D s a t \<Longrightarrow> s_lastID t \<noteq> s_lastID s \<Longrightarrow>
     \<exists>ord n m. a = Accept ord n \<and> s_lastID t = ord \<and> s_lastAttempt s = Some m \<and> m < n \<and> s_lastAttempt t = Some n"
  by (erule lifecycleE) auto

text \<open>Between two wakes there is a sleep or a newer order: a running session does not wake.\<close>

lemma lifecycle_Wake_mode: "lifecycle D s Wake t \<Longrightarrow> s_mode s = Suspended \<and> s_mode t = Running"
  by (erule lifecycle_WakeE) simp

section \<open>Legal patches\<close>

text \<open>
  The Secret names of an order on a Sandbox: derived from the release, the Sandbox's UID and
  a session id with the Sandbox's session label.
\<close>

definition derivedName :: "string \<Rightarrow> sandbox \<Rightarrow> string \<Rightarrow> string \<Rightarrow> bool" where
  "derivedName release sb ord name \<longleftrightarrow>
     (\<exists>sess. LabelValue sess = label sb LabelSessionID \<and> name = WorkOrderSecretName release sess (sb_uid sb) ord)"

lemma derivedName_nonempty: "derivedName release sb ord name \<Longrightarrow> name \<noteq> []"
  by (auto simp: derivedName_def)

text \<open>What no patch of the program changes.\<close>

definition samePart :: "sandbox \<Rightarrow> sandbox \<Rightarrow> bool" where
  "samePart orig mut \<longleftrightarrow> sb_name mut = sb_name orig \<and> sb_namespace mut = sb_namespace orig \<and>
     sb_uid mut = sb_uid orig \<and> sb_resourceVersion mut = sb_resourceVersion orig \<and>
     sb_generation mut = sb_generation orig \<and> sb_labels mut = sb_labels orig \<and>
     sb_deletionTimestamp mut = sb_deletionTimestamp orig \<and>
     sb_claimTemplates mut = sb_claimTemplates orig \<and> sb_conditions mut = sb_conditions orig \<and>
     sb_shutdownTime mut = sb_shutdownTime orig \<and> sb_shutdownPolicy mut = sb_shutdownPolicy orig \<and>
     sb_other mut = sb_other orig"

definition legalPatch :: "string \<Rightarrow> sandbox \<Rightarrow> action \<Rightarrow> sandbox \<Rightarrow> bool" where
  "legalPatch release orig a mut \<longleftrightarrow> \<not> deleting orig \<and> label orig LabelInstance = release \<and>
     samePart orig mut \<and> lifecycle (derivedName release orig) (sessionOf orig) a (sessionOf mut)"

lemma samePart_refl [simp]: "samePart sb sb"
  by (simp add: samePart_def)

lemma samePart_annotations [simp]: "samePart sb (mut\<lparr>sb_annotations := m\<rparr>) \<longleftrightarrow> samePart sb mut"
  by (simp add: samePart_def)

lemma samePart_mode [simp]: "samePart sb (mut\<lparr>sb_operatingMode := m\<rparr>) \<longleftrightarrow> samePart sb mut"
  by (simp add: samePart_def)

lemma samePart_podTemplate [simp]: "samePart sb (mut\<lparr>sb_podTemplate := pt\<rparr>) \<longleftrightarrow> samePart sb mut"
  by (simp add: samePart_def)

lemma derivedName_samePart: "samePart sb mut \<Longrightarrow> derivedName release mut = derivedName release sb"
  unfolding derivedName_def samePart_def by (intro ext) simp

text \<open>The object-level invariant: the session a Sandbox describes satisfies the contract's.\<close>

definition sandboxInv :: "string \<Rightarrow> sandbox \<Rightarrow> bool" where
  "sandboxInv release sb \<longleftrightarrow> sessionInv (derivedName release sb) (sessionOf sb)"

lemma legalPatch_inv: "sandboxInv release orig \<Longrightarrow> legalPatch release orig a mut \<Longrightarrow> sandboxInv release mut"
  using lifecycle_inv derivedName_samePart unfolding sandboxInv_def legalPatch_def by metis

end
