(* ===== verification/HookSpec.thy ===== *)
theory HookSpec
  imports Lifecycle
begin

text \<open>
  What the hook does, over every behaviour of the API server and of the other writers: which
  calls it issues after which responses, what its exit codes mean, and that it ends.
\<close>

section \<open>What a history shows\<close>

text \<open>A Sandbox the program has read or created.\<close>

definition received :: "history \<Rightarrow> sandbox \<Rightarrow> bool" where
  "received h sb \<longleftrightarrow> RSandbox sb \<in> snd ` set h"

text \<open>The Secret exists: created now, or found immutable, equal and owned.\<close>

definition secretReady :: "history \<Rightarrow> secret \<Rightarrow> bool" where
  "secretReady h se \<longleftrightarrow> (\<exists>r. (CreateSecret se, r) \<in> set h \<and> asOk r = Inr ()) \<or>
     (\<exists>ex. (GetSecret (se_namespace se) (se_name se), RSecret ex) \<in> set h \<and> verifySecret ex se = Inr ())"

text \<open>The patch was accepted by the API server.\<close>

definition patched :: "history \<Rightarrow> sandbox \<Rightarrow> sandbox \<Rightarrow> bool" where
  "patched h orig mut \<longleftrightarrow> (\<exists>doc r. (PatchSandbox orig mut doc, r) \<in> set h \<and> asOk r = Inr ())"

text \<open>The cap on active sessions is off, or a listing showed room under it.\<close>

definition admitted :: "hook \<Rightarrow> string \<Rightarrow> history \<Rightarrow> bool" where
  "admitted hk ownName h \<longleftrightarrow> cf_MaxActiveSessions (hk_Config hk) \<le> 0 \<or>
     (\<exists>items. (ListSandboxes (cf_Namespace (hk_Config hk))
          (SelectorLabels ComponentRunner (cf_Release (hk_Config hk))), RSandboxes items) \<in> set h \<and>
        int (activeOthers ownName items) < cf_MaxActiveSessions (hk_Config hk))"

text \<open>
  The times a history tells, and what may become of the time stamps of an object: each is kept,
  dropped, or the text of a told time.
\<close>

definition toldTimes :: "history \<Rightarrow> gotime set" where
  "toldTimes h = {asTime r |r. (Now, r) \<in> set h}"

definition stamped :: "history \<Rightarrow> sandbox \<Rightarrow> sandbox \<Rightarrow> bool" where
  "stamped h orig mut \<longleftrightarrow> (\<forall>k \<in> {AnnotationPendingSpawnAt, AnnotationLastSuspendedAt}.
     annot mut k \<in> {annot orig k, []} \<union> formatRFC3339 ` toldTimes h)"

lemma toldTimes_Cons [simp]: "toldTimes ((Now, r) # h) = insert (asTime r) (toldTimes h)"
  by (auto simp: toldTimes_def)

lemma toldTimes_mono: "toldTimes h \<subseteq> toldTimes (e @ h)" "toldTimes h \<subseteq> toldTimes (x # h)"
  by (auto simp: toldTimes_def)

lemma history_mono [simp]:
  "received h sb \<Longrightarrow> received (e @ h) sb" "received h sb \<Longrightarrow> received (x # h) sb"
  "secretReady h se \<Longrightarrow> secretReady (e @ h) se" "secretReady h se \<Longrightarrow> secretReady (x # h) se"
  "admitted hk n h \<Longrightarrow> admitted hk n (e @ h)" "admitted hk n h \<Longrightarrow> admitted hk n (x # h)"
  "patched h sb mut \<Longrightarrow> patched (e @ h) sb mut" "patched h sb mut \<Longrightarrow> patched (x # h) sb mut"
  by (auto simp: received_def secretReady_def admitted_def patched_def)

section \<open>Preparing a Secret\<close>

lemma parseAttempt_FormatInt [simp]: "inInt64 n \<Longrightarrow> parseAttempt (FormatInt n) = Some n"
  by (simp add: parseAttempt_def FormatInt_nonempty ParseInt_FormatInt)

text \<open>An error of the hook ends the process with exit code 1 or 2.\<close>

definition exits :: "hookError \<Rightarrow> bool" where
  "exits e \<longleftrightarrow> (\<exists>code r. e = ExitError code r \<and> (code = ExitRetryable \<or> code = ExitNonRetryable))"

lemma exits_simps [simp]: "exits (retryable r)" "exits (nonRetryable r)" "exits (classifyAPIError s e)"
  "\<not> exits NilDereference" "\<not> exits (ApiError e)"
  by (simp_all add: exits_def retryable_def nonRetryable_def classifyAPIError_def)

lemma exits_not_stale [simp]: "exits e \<Longrightarrow> \<not> staleError e"
  by (auto simp: exits_def staleError_def)

lemma verifySecret_exits: "verifySecret ex (workOrderSecret sb l req name) = Inl e \<Longrightarrow> exits e"
  by (auto simp: verifySecret_def workOrderSecret_def split: if_splits option.splits)

lemma ensureSecret_wp:
  assumes "P h (CreateSecret (workOrderSecret sb (sb_labels tmpl) req name))"
    and "\<And>h. P h (GetSecret (sb_namespace sb) name)"
  shows "wp P (\<lambda>x h. case x of Inl e \<Rightarrow> exits e
     | Inr _ \<Rightarrow> secretReady h (workOrderSecret sb (sb_labels tmpl) req name)) (ensureSecret sb tmpl req name) h"
proof -
  let ?se = "workOrderSecret sb (sb_labels tmpl) req name"
  have se: "se_namespace ?se = sb_namespace sb" "se_name ?se = name"
    by (simp_all add: workOrderSecret_def)
  have created: "asOk r = Inr () \<Longrightarrow> secretReady ((CreateSecret ?se, r) # h) ?se" for r h
    by (auto simp: secretReady_def)
  have found: "verifySecret ex ?se = Inr () \<Longrightarrow> secretReady ((GetSecret (sb_namespace sb) name, RSecret ex) # h) ?se"
    for ex h using se by (auto simp: secretReady_def)
  show ?thesis
    unfolding ensureSecret_def Let_def
    by (auto simp: prog_simps assms created found verifySecret_exits split: sum.splits)
qed

lemma hookPatch_wp:
  assumes "\<And>doc. Optimistic lib orig mut = Inr doc \<Longrightarrow> P h (PatchSandbox orig mut doc)"
  shows "wp P (\<lambda>x h. case x of Inl e \<Rightarrow> exits e \<or> staleError e | Inr _ \<Rightarrow> patched h orig mut)
     (hookPatch lib orig mut) h"
proof -
  have "asOk r = Inr () \<Longrightarrow> patched ((PatchSandbox orig mut doc, r) # h) orig mut" for r doc h
    by (auto simp: patched_def)
  moreover have "IsStale e \<Longrightarrow> staleError (ApiError e)" for e by (simp add: staleError_def)
  ultimately show ?thesis
    unfolding hookPatch_def by (auto simp: prog_simps assms split: sum.splits)
qed

lemma checkCapacity_wp:
  assumes "P h (ListSandboxes (cf_Namespace (hk_Config hk)) (SelectorLabels ComponentRunner (cf_Release (hk_Config hk))))"
  shows "wp P (\<lambda>x h. case x of Inl e \<Rightarrow> exits e
     | Inr _ \<Rightarrow> admitted hk ownName h \<or> (\<exists>sb. own = Some sb \<and> holdsSlot sb)) (checkCapacity hk own ownName) h"
proof -
  have "int (activeOthers ownName items) < cf_MaxActiveSessions (hk_Config hk) \<Longrightarrow>
      admitted hk ownName ((ListSandboxes (cf_Namespace (hk_Config hk))
        (SelectorLabels ComponentRunner (cf_Release (hk_Config hk))), RSandboxes items) # h)" for items h
    by (auto simp: admitted_def)
  moreover have "cf_MaxActiveSessions (hk_Config hk) \<le> 0 \<Longrightarrow> admitted hk ownName h"
    by (simp add: admitted_def)
  ultimately show ?thesis
    unfolding checkCapacity_def Let_def
    by (auto simp: prog_simps assms split: sum.splits option.splits)
qed

section \<open>The hook's patches are steps of the contract\<close>

lemma evaluate_InrE:
  assumes "evaluate sb req rel = Inr d"
  obtains m where "\<not> deleting sb" and "label sb LabelPartOf = PartOf" and "label sb LabelInstance = rel"
    and "label sb LabelSessionID = LabelValue (rq_SessionID req)"
    and "parseAttempt (annot sb AnnotationLastOrderAttempt) = Some m"
    and "d = DecisionRedelivery \<longleftrightarrow> rq_OrderID req = annot sb AnnotationLastOrderID"
    and "d = DecisionSuperseded \<longleftrightarrow> rq_OrderID req \<noteq> annot sb AnnotationLastOrderID \<and> rq_Attempt req < m"
    and "d = DecisionNewer \<longleftrightarrow> rq_OrderID req \<noteq> annot sb AnnotationLastOrderID \<and> m < rq_Attempt req"
  using assms by (auto simp: evaluate_def Let_def split: if_splits option.splits)

lemma evaluate_exits: "evaluate sb req rel = Inl e \<Longrightarrow> exits e"
  by (auto simp: evaluate_def Let_def split: if_splits option.splits)

lemma orderSecretName_derived:
  "evaluate sb req (cf_Release (hk_Config hk)) = Inr d \<Longrightarrow>
     derivedName (cf_Release (hk_Config hk)) sb (rq_OrderID req) (orderSecretName hk sb req)"
  unfolding derivedName_def orderSecretName_def by (erule evaluate_InrE) auto

lemma keepSecretName_secret:
  assumes "keepSecretName cur new = Some spec"
    and "\<exists>v. workOrderVolume cur = Some v \<and> v_secret v = Some s"
    and "\<exists>v t. workOrderVolume new = Some v \<and> v_secret v = Some t"
  shows "\<exists>v t. workOrderVolume spec = Some v \<and> v_secret v = Some t \<and> ss_secretName t = ss_secretName s"
  using assms by (auto simp: keepSecretName_def workOrderVolume_def find_updateFirst)

text \<open>A template that names a Secret: every one the contract was applied to.\<close>

definition namesSecret :: "podTemplate \<Rightarrow> bool" where
  "namesSecret pt \<longleftrightarrow> (\<exists>v t. workOrderVolume (pt_spec pt) = Some v \<and> v_secret v = Some t)"

lemma podTemplateSecret_SomeE:
  assumes "podTemplateSecret pt = Some name"
  obtains v s where "workOrderVolume (pt_spec pt) = Some v" and "v_secret v = Some s" and "ss_secretName s = name"
  using assms by (auto simp: podTemplateSecret_def split: option.splits)

lemma refreshedTemplate_keeps:
  assumes "refreshedTemplate sb new = Some pt" and "namesSecret new"
  shows "mget (pt_annotations (sb_podTemplate sb)) AnnotationOrderID \<noteq> [] \<Longrightarrow>
      mget (pt_annotations pt) AnnotationOrderID = mget (pt_annotations (sb_podTemplate sb)) AnnotationOrderID"
    and "podTemplateSecret (sb_podTemplate sb) \<noteq> None \<Longrightarrow>
      podTemplateSecret pt = podTemplateSecret (sb_podTemplate sb)"
proof -
  obtain spec where spec: "keepSecretName (specOf sb) (pt_spec new) = Some spec" "pt_spec pt = spec"
    using assms(1) by (auto simp: refreshedTemplate_def Let_def split: option.splits if_splits)
  show "mget (pt_annotations (sb_podTemplate sb)) AnnotationOrderID \<noteq> [] \<Longrightarrow>
      mget (pt_annotations pt) AnnotationOrderID = mget (pt_annotations (sb_podTemplate sb)) AnnotationOrderID"
    using assms(1) by (auto simp: refreshedTemplate_def Let_def split: option.splits)
  assume "podTemplateSecret (sb_podTemplate sb) \<noteq> None"
  then obtain name where name: "podTemplateSecret (sb_podTemplate sb) = Some name" by auto
  then obtain v s where v: "workOrderVolume (specOf sb) = Some v" "v_secret v = Some s" "ss_secretName s = name"
    by (rule podTemplateSecret_SomeE)
  have "\<exists>v t. workOrderVolume spec = Some v \<and> v_secret v = Some t \<and> ss_secretName t = ss_secretName s"
    using keepSecretName_secret [OF spec(1)] v(1,2) assms(2) by (auto simp: namesSecret_def)
  with v(3) spec(2) name show "podTemplateSecret pt = podTemplateSecret (sb_podTemplate sb)"
    by (auto simp: podTemplateSecret_def)
qed

lemma refreshedTemplate_Some:
  "namesSecret new \<Longrightarrow> \<exists>pt. refreshedTemplate sb new = Some pt"
  by (auto simp: refreshedTemplate_def keepSecretName_def namesSecret_def Let_def split: option.splits)

lemma samePart_acceptNewer [simp]: "samePart sb (acceptNewer sb req name now pt)"
  by (simp add: acceptNewer_def)

lemma sessionOf_acceptNewer:
  "inInt64 (rq_Attempt req) \<Longrightarrow> sessionOf (acceptNewer sb req name now pt) = (sessionOf sb)
     \<lparr>s_mode := Suspended, s_pending := rq_OrderID req, s_pendingSecret := name, s_lastID := rq_OrderID req,
      s_lastAttempt := Some (rq_Attempt req), s_lastSecret := name,
      s_podOrder := mget (pt_annotations pt) AnnotationOrderID, s_podSecret := podTemplateSecret pt\<rparr>"
  by (simp add: sessionOf_def acceptNewer_def)

lemma acceptNewer_legal:
  assumes "evaluate sb req (cf_Release (hk_Config hk)) = Inr DecisionNewer" and "validRequest req"
    and "refreshedTemplate sb new = Some pt" and "namesSecret new"
  shows "legalPatch (cf_Release (hk_Config hk)) sb (Accept (rq_OrderID req) (rq_Attempt req))
     (acceptNewer sb req (orderSecretName hk sb req) now pt)"
proof -
  let ?rel = "cf_Release (hk_Config hk)"
  obtain m where e: "\<not> deleting sb" "label sb LabelInstance = ?rel"
      "parseAttempt (annot sb AnnotationLastOrderAttempt) = Some m" "m < rq_Attempt req"
      "rq_OrderID req \<noteq> annot sb AnnotationLastOrderID"
    using assms(1) by (rule evaluate_InrE) auto
  have v: "inInt64 (rq_Attempt req)" "rq_OrderID req \<noteq> []"
    using assms(2) by (simp_all add: validRequest_order) (simp add: validRequest_def)
  have "lifecycle (derivedName ?rel sb) (sessionOf sb) (Accept (rq_OrderID req) (rq_Attempt req))
      (sessionOf (acceptNewer sb req (orderSecretName hk sb req) now pt))"
    unfolding sessionOf_acceptNewer [OF v(1)]
  proof (rule lifecycle.accept)
    show "s_lastAttempt (sessionOf sb) = Some m" "rq_OrderID req \<noteq> s_lastID (sessionOf sb)"
      using e by (simp_all add: sessionOf_def)
    show "derivedName ?rel sb (rq_OrderID req) (orderSecretName hk sb req)"
      by (rule orderSecretName_derived [OF assms(1)])
    show "mget (pt_annotations pt) AnnotationOrderID = s_podOrder (sessionOf sb)" if "s_podOrder (sessionOf sb) \<noteq> []"
      using refreshedTemplate_keeps(1) [OF assms(3,4)] that by (simp add: sessionOf_def)
    show "podTemplateSecret pt = s_podSecret (sessionOf sb)" if "s_podSecret (sessionOf sb) \<noteq> None"
      using refreshedTemplate_keeps(2) [OF assms(3,4)] that by (simp add: sessionOf_def)
  qed (use v e in simp_all)
  with e(1,2) show ?thesis by (simp add: legalPatch_def)
qed

lemma repairPointers_effect:
  assumes "repairPointers req name sb = Inr (mut, changed)" and "annot sb AnnotationLastOrderID = rq_OrderID req"
  shows "samePart sb mut" and "sessionOf mut = (sessionOf sb)
     \<lparr>s_pendingSecret := (if pendingOf sb = rq_OrderID req \<and> annot sb AnnotationPendingSecret = [] then name
         else annot sb AnnotationPendingSecret),
      s_lastSecret := (if annot sb AnnotationLastOrderSecret = [] then name else annot sb AnnotationLastOrderSecret)\<rparr>"
  using assms by (auto simp: repairPointers_def Let_def sessionOf_def split: if_splits)

lemma repairPointers_exits: "repairPointers req name sb = Inl e \<Longrightarrow> exits e"
  by (auto simp: repairPointers_def Let_def split: if_splits)

lemma repair_legal:
  assumes "evaluate sb req (cf_Release (hk_Config hk)) = Inr DecisionRedelivery" and "validRequest req"
    and "repairPointers req (orderSecretName hk sb req) sb = Inr (mut, changed)"
  shows "legalPatch (cf_Release (hk_Config hk)) sb (Repair (rq_OrderID req)) mut"
proof -
  let ?rel = "cf_Release (hk_Config hk)"
  have e: "\<not> deleting sb" "label sb LabelInstance = ?rel" "annot sb AnnotationLastOrderID = rq_OrderID req"
    using assms(1) by (auto elim: evaluate_InrE)
  note eff = repairPointers_effect [OF assms(3) e(3)]
  have "lifecycle (derivedName ?rel sb) (sessionOf sb) (Repair (rq_OrderID req)) (sessionOf mut)"
    unfolding eff(2)
  proof (rule lifecycle.repair)
    show "rq_OrderID req \<noteq> []" using assms(2) by (rule validRequest_order)
    show "derivedName ?rel sb (rq_OrderID req) (orderSecretName hk sb req)"
      by (rule orderSecretName_derived [OF assms(1)])
  qed (use e in \<open>simp_all add: sessionOf_def\<close>)
  with e(1,2) eff(1) show ?thesis by (simp add: legalPatch_def)
qed

lemma created_newSandbox:
  assumes "validRequest req"
  shows "created (sessionOf (newSandbox tmpl req now))"
    and "s_lastID (sessionOf (newSandbox tmpl req now)) = rq_OrderID req"
    and "s_lastAttempt (sessionOf (newSandbox tmpl req now)) = Some (rq_Attempt req)"
  using assms validRequest_order [OF assms]
  by (simp_all add: created_def sessionOf_def newSandbox_def validRequest_def)

section \<open>The calls of the hook\<close>

text \<open>
  When each write is allowed: what it must be, and what the history before it must show. A
  Secret is written for a Sandbox that was read or created and that the request may use; a
  Sandbox is created only after its absence and room under the cap were seen; a patch is a
  step of the contract on a Sandbox that was read, it is pinned, and the Secret it points at
  exists. The hook deletes nothing.
\<close>

definition hookSecret :: "hook \<Rightarrow> sandbox \<Rightarrow> spawnRequest \<Rightarrow> sandbox \<Rightarrow> secret" where
  "hookSecret hk tmpl req sb = workOrderSecret sb (sb_labels tmpl) req (orderSecretName hk sb req)"

definition acceptGuard :: "k8sLib \<Rightarrow> hook \<Rightarrow> spawnRequest \<Rightarrow> history \<Rightarrow> sandbox \<Rightarrow> sandbox \<Rightarrow> bool" where
  "acceptGuard lib hk req h orig mut \<longleftrightarrow>
     legalPatch (cf_Release (hk_Config hk)) orig (Accept (rq_OrderID req) (rq_Attempt req)) mut \<and>
     (holdsSlot orig \<or> admitted hk (sb_name orig) h)"

text \<open>The Secret pointers a patch changes.\<close>

definition pointsAt :: "string \<Rightarrow> sandbox \<Rightarrow> sandbox \<Rightarrow> bool" where
  "pointsAt name orig mut \<longleftrightarrow> (\<forall>k \<in> {AnnotationPendingSecret, AnnotationLastOrderSecret}.
     annot mut k = annot orig k \<or> annot mut k = name)"

lemma acceptNewer_pointsAt: "pointsAt name sb (acceptNewer sb req name now pt)"
  by (simp add: pointsAt_def acceptNewer_def)

lemma acceptNewer_stamped: "now \<in> toldTimes h \<Longrightarrow> stamped h sb (acceptNewer sb req name now pt)"
  by (simp add: stamped_def acceptNewer_def)

lemma repairPointers_stamped: "repairPointers req name sb = Inr (mut, changed) \<Longrightarrow> stamped h sb mut"
  by (auto simp: repairPointers_def Let_def stamped_def split: if_splits)

lemma repairPointers_pointsAt: "repairPointers req name sb = Inr (mut, changed) \<Longrightarrow> pointsAt name sb mut"
  by (auto simp: repairPointers_def Let_def pointsAt_def split: if_splits)

definition hookGuard :: "k8sLib \<Rightarrow> hook \<Rightarrow> sandbox \<Rightarrow> spawnRequest \<Rightarrow> history \<Rightarrow> call \<Rightarrow> bool" where
  "hookGuard lib hk tmpl req h c \<longleftrightarrow> (case c of
     CreateSecret se \<Rightarrow> (\<exists>sb d. received h sb \<and> evaluate sb req (cf_Release (hk_Config hk)) = Inr d \<and>
       d \<noteq> DecisionSuperseded \<and> se = hookSecret hk tmpl req sb)
   | CreateSandbox sb \<Rightarrow> (GetSandbox (sb_namespace tmpl) (sb_name tmpl), RErr NotFound) \<in> set h \<and>
       admitted hk (sb_name tmpl) h \<and> (\<exists>now \<in> toldTimes h. sb = newSandbox tmpl req now)
   | PatchSandbox orig mut doc \<Rightarrow> received h orig \<and> Optimistic lib orig mut = Inr doc \<and> stamped h orig mut \<and>
       secretReady h (hookSecret hk tmpl req orig) \<and> pointsAt (orderSecretName hk orig req) orig mut \<and>
       (acceptGuard lib hk req h orig mut \<or>
        legalPatch (cf_Release (hk_Config hk)) orig (Repair (rq_OrderID req)) mut)
   | DeleteSandbox _ _ _ _ \<Rightarrow> False
   | _ \<Rightarrow> True)"

lemma hookGuard_reads [simp]:
  "hookGuard lib hk tmpl req h (ReadFile p)" "hookGuard lib hk tmpl req h (GetSandbox ns n)"
  "hookGuard lib hk tmpl req h (ListSandboxes ns sel)" "hookGuard lib hk tmpl req h (GetSecret ns n)"
  "hookGuard lib hk tmpl req h Now" "hookGuard lib hk tmpl req h (Pause d)"
  by (simp_all add: hookGuard_def)

text \<open>
  What exit code 0 rests on: a higher attempt was accepted before, or the request's Secret
  exists and the Sandbox points at it.
\<close>

definition repaired :: "hook \<Rightarrow> spawnRequest \<Rightarrow> history \<Rightarrow> sandbox \<Rightarrow> bool" where
  "repaired hk req h sb \<longleftrightarrow> (\<exists>mut changed.
     repairPointers req (orderSecretName hk sb req) sb = Inr (mut, changed) \<and> (\<not> changed \<or> patched h sb mut))"

definition accepted :: "hook \<Rightarrow> spawnRequest \<Rightarrow> history \<Rightarrow> sandbox \<Rightarrow> bool" where
  "accepted hk req h sb \<longleftrightarrow> (\<exists>mut. patched h sb mut \<and>
     legalPatch (cf_Release (hk_Config hk)) sb (Accept (rq_OrderID req) (rq_Attempt req)) mut)"

fun settledBy :: "hook \<Rightarrow> sandbox \<Rightarrow> spawnRequest \<Rightarrow> history \<Rightarrow> sandbox \<Rightarrow> decision \<Rightarrow> bool" where
  "settledBy hk tmpl req h sb DecisionSuperseded \<longleftrightarrow> True"
| "settledBy hk tmpl req h sb DecisionRedelivery \<longleftrightarrow> secretReady h (hookSecret hk tmpl req sb) \<and> repaired hk req h sb"
| "settledBy hk tmpl req h sb DecisionNewer \<longleftrightarrow> secretReady h (hookSecret hk tmpl req sb) \<and> accepted hk req h sb"

definition settled :: "hook \<Rightarrow> sandbox \<Rightarrow> spawnRequest \<Rightarrow> history \<Rightarrow> bool" where
  "settled hk tmpl req h \<longleftrightarrow> (\<exists>sb d. received h sb \<and>
     evaluate sb req (cf_Release (hk_Config hk)) = Inr d \<and> settledBy hk tmpl req h sb d)"

lemma repaired_mono [simp]: "repaired hk req h sb \<Longrightarrow> repaired hk req (e @ h) sb"
  unfolding repaired_def using history_mono(7) by blast

lemma accepted_mono [simp]: "accepted hk req h sb \<Longrightarrow> accepted hk req (e @ h) sb"
  unfolding accepted_def using history_mono(7) by blast

lemma settled_mono [simp]: "settled hk tmpl req h \<Longrightarrow> settled hk tmpl req (e @ h)"
proof -
  have "settledBy hk tmpl req h sb d \<Longrightarrow> settledBy hk tmpl req (e @ h) sb d" for sb d by (cases d) auto
  then show "settled hk tmpl req h \<Longrightarrow> settled hk tmpl req (e @ h)"
    unfolding settled_def using history_mono(1) by blast
qed

section \<open>One request\<close>

text \<open>The result of \<open>reconcileExisting\<close>: done and settled, or an error that ends or restarts.\<close>

definition stepPost :: "hook \<Rightarrow> sandbox \<Rightarrow> spawnRequest \<Rightarrow> hookError + bool \<Rightarrow> history \<Rightarrow> bool" where
  "stepPost hk tmpl req x h \<longleftrightarrow> (case x of Inl e \<Rightarrow> exits e \<or> staleError e | Inr b \<Rightarrow> b \<and> settled hk tmpl req h)"

lemma prepareSecret_wp:
  assumes "received h sb" and "evaluate sb req (cf_Release (hk_Config hk)) = Inr d" and "d \<noteq> DecisionSuperseded"
  shows "wp (hookGuard lib hk tmpl req) (\<lambda>x h'. case x of Inl e \<Rightarrow> exits e
     | Inr _ \<Rightarrow> secretReady h' (hookSecret hk tmpl req sb)) (ensureSecret sb tmpl req (orderSecretName hk sb req)) h"
  unfolding hookSecret_def
  by (rule ensureSecret_wp) (use assms in \<open>auto simp: hookGuard_def hookSecret_def\<close>)

lemma repairRedelivery_wp:
  assumes r: "received h sb" and v: "validRequest req"
    and e: "evaluate sb req (cf_Release (hk_Config hk)) = Inr DecisionRedelivery"
  shows "wp (hookGuard lib hk tmpl req) (stepPost hk tmpl req) (repairRedelivery lib hk sb tmpl req) h"
proof -
  let ?name = "orderSecretName hk sb req" and ?P = "hookGuard lib hk tmpl req"
  let ?rest = "case repairPointers req ?name sb of Inl e \<Rightarrow> Ret (Inl e)
    | Inr (mut, changed) \<Rightarrow> (if \<not> changed then Ret (Inr True) else thenP (hookPatch lib sb mut) (\<lambda>_. Ret (Inr True)))"
  have rest: "wp ?P (stepPost hk tmpl req) ?rest h'" if s: "secretReady h' (hookSecret hk tmpl req sb)" and r': "received h' sb" for h'
  proof (cases "repairPointers req ?name sb")
    case (Inl err)
    then show ?thesis using repairPointers_exits by (simp add: stepPost_def)
  next
    case (Inr q)
    then obtain mut changed where q: "repairPointers req ?name sb = Inr (mut, changed)" by (cases q) auto
    have fin: "settled hk tmpl req h''" if "secretReady h'' (hookSecret hk tmpl req sb)" "received h'' sb"
        "\<not> changed \<or> patched h'' sb mut" for h''
      using that e q unfolding settled_def repaired_def
      by (intro exI [of _ sb] exI [of _ DecisionRedelivery]) (auto simp: repaired_def)
    have "wp ?P (\<lambda>x h. case x of Inl e \<Rightarrow> exits e \<or> staleError e | Inr _ \<Rightarrow> patched h sb mut) (hookPatch lib sb mut) h'"
      by (rule hookPatch_wp) (use r' s repair_legal [OF e v q] repairPointers_pointsAt [OF q] repairPointers_stamped [OF q] in \<open>simp add: hookGuard_def\<close>)
    then have "wp ?P (\<lambda>x h. case x of Inl e \<Rightarrow> stepPost hk tmpl req (Inl e) h | Inr _ \<Rightarrow> stepPost hk tmpl req (Inr True) h)
        (hookPatch lib sb mut) h'"
      by (rule wp_weaken) (use fin s r' in \<open>auto simp: stepPost_def split: sum.splits\<close>)
    then have "wp ?P (stepPost hk tmpl req) (thenP (hookPatch lib sb mut) (\<lambda>_. Ret (Inr True))) h'"
      unfolding wp_thenP wp.simps(1) .
    moreover have "\<not> changed \<Longrightarrow> stepPost hk tmpl req (Inr True) h'"
      using fin [of h'] s r' by (simp add: stepPost_def)
    ultimately show ?thesis using q by simp
  qed
  show ?thesis
    unfolding repairRedelivery_def Let_def wp_thenP
    by (rule wp_weaken [OF prepareSecret_wp [OF r e]])
      (use rest r in \<open>auto simp: stepPost_def split: sum.splits\<close>)
qed

lemma publishNewer_wp:
  assumes r: "received h sb" and v: "validRequest req"
    and e: "evaluate sb req (cf_Release (hk_Config hk)) = Inr DecisionNewer"
    and a: "holdsSlot sb \<or> admitted hk (sb_name sb) h" and n: "namesSecret (sb_podTemplate tmpl)"
  shows "wp (hookGuard lib hk tmpl req) (stepPost hk tmpl req) (publishNewer lib hk sb tmpl req) h"
proof -
  let ?name = "orderSecretName hk sb req" and ?P = "hookGuard lib hk tmpl req"
  obtain pt where pt: "refreshedTemplate sb (sb_podTemplate tmpl) = Some pt"
    using refreshedTemplate_Some [OF n] by blast
  let ?mut = "\<lambda>now. acceptNewer sb req ?name now pt"
  note legal = acceptNewer_legal [OF e v pt n]
  have fin: "settled hk tmpl req h''" if "secretReady h'' (hookSecret hk tmpl req sb)" "received h'' sb"
      "patched h'' sb (?mut now)" for h'' now
    using that e legal [of now] unfolding settled_def accepted_def
    by (intro exI [of _ sb] exI [of _ DecisionNewer]) (auto simp: accepted_def)
  have rest: "wp ?P (stepPost hk tmpl req) (thenP (hookPatch lib sb (?mut now)) (\<lambda>_. Ret (Inr True))) h'"
    if s: "secretReady h' (hookSecret hk tmpl req sb)" and r': "received h' sb"
      and a': "holdsSlot sb \<or> admitted hk (sb_name sb) h'" and told: "now \<in> toldTimes h'" for h' now
  proof -
    have "wp ?P (\<lambda>x h. case x of Inl e \<Rightarrow> exits e \<or> staleError e | Inr _ \<Rightarrow> patched h sb (?mut now))
        (hookPatch lib sb (?mut now)) h'"
      by (rule hookPatch_wp) (use r' s a' legal [of now] acceptNewer_pointsAt acceptNewer_stamped [OF told] in \<open>simp add: hookGuard_def acceptGuard_def\<close>)
    then have "wp ?P (\<lambda>x h. case x of Inl e \<Rightarrow> stepPost hk tmpl req (Inl e) h | Inr _ \<Rightarrow> stepPost hk tmpl req (Inr True) h)
        (hookPatch lib sb (?mut now)) h'"
      by (rule wp_weaken) (use fin [of _ now] s r' in \<open>auto simp: stepPost_def split: sum.splits\<close>)
    then show ?thesis unfolding wp_thenP wp.simps(1) .
  qed
  show ?thesis
    unfolding publishNewer_def Let_def wp_thenP pt option.case
  proof (rule wp_weaken [OF prepareSecret_wp [OF r e]])
    fix x d
    assume x: "case x of Inl e \<Rightarrow> exits e | Inr _ \<Rightarrow> secretReady (d @ h) (hookSecret hk tmpl req sb)"
    have "holdsSlot sb \<or> admitted hk (sb_name sb) (c # d @ h)" for c using a by auto
    with x r show "case x of Inl e \<Rightarrow> stepPost hk tmpl req (Inl e) (d @ h)
      | Inr _ \<Rightarrow> wp ?P (stepPost hk tmpl req) (bindP (request asTime Now)
           (\<lambda>now. thenP (hookPatch lib sb (?mut now)) (\<lambda>_. Ret (Inr True)))) (d @ h)"
      by (cases x) (simp_all add: stepPost_def wp_bindP wp_request rest)
  qed simp
qed

lemma reconcileExisting_wp:
  assumes r: "received h sb" and v: "validRequest req" and n: "namesSecret (sb_podTemplate tmpl)"
  shows "wp (hookGuard lib hk tmpl req) (stepPost hk tmpl req) (reconcileExisting lib hk sb tmpl req) h"
proof (cases "evaluate sb req (cf_Release (hk_Config hk))")
  case (Inl e)
  then show ?thesis using evaluate_exits by (simp add: reconcileExisting_def stepPost_def)
next
  case (Inr d)
  show ?thesis
  proof (cases d)
    case DecisionRedelivery
    with Inr show ?thesis using repairRedelivery_wp [OF r v] by (simp add: reconcileExisting_def)
  next
    case DecisionSuperseded
    with Inr r have "settled hk tmpl req h"
      unfolding settled_def by (intro exI [of _ sb] exI [of _ DecisionSuperseded]) simp
    with Inr DecisionSuperseded show ?thesis by (simp add: reconcileExisting_def stepPost_def)
  next
    case DecisionNewer
    have "wp (hookGuard lib hk tmpl req) (stepPost hk tmpl req)
        (thenP (checkCapacity hk (Some sb) (sb_name sb)) (\<lambda>_. publishNewer lib hk sb tmpl req)) h"
      unfolding wp_thenP
    proof (rule wp_weaken [OF checkCapacity_wp])
      fix x d
      assume "case x of Inl e \<Rightarrow> exits e
        | Inr _ \<Rightarrow> admitted hk (sb_name sb) (d @ h) \<or> (\<exists>sb'. Some sb = Some sb' \<and> holdsSlot sb')"
      then show "case x of Inl e \<Rightarrow> stepPost hk tmpl req (Inl e) (d @ h)
        | Inr _ \<Rightarrow> wp (hookGuard lib hk tmpl req) (stepPost hk tmpl req) (publishNewer lib hk sb tmpl req) (d @ h)"
        using r v n Inr DecisionNewer
        by (cases x) (auto simp: stepPost_def intro!: publishNewer_wp)
    qed simp
    with Inr DecisionNewer show ?thesis by (simp add: reconcileExisting_def)
  qed
qed

section \<open>The whole run\<close>

definition runPost :: "hook \<Rightarrow> sandbox \<Rightarrow> spawnRequest \<Rightarrow> hookError + unit \<Rightarrow> history \<Rightarrow> bool" where
  "runPost hk tmpl req x h \<longleftrightarrow> (case x of Inl e \<Rightarrow> exits e | Inr _ \<Rightarrow> settled hk tmpl req h)"

definition attemptPost :: "hook \<Rightarrow> sandbox \<Rightarrow> spawnRequest \<Rightarrow> attemptResult \<Rightarrow> history \<Rightarrow> bool" where
  "attemptPost hk tmpl req x h \<longleftrightarrow> (case x of Continue \<Rightarrow> True | Return r \<Rightarrow> runPost hk tmpl req r h)"

lemma afterRead_wp:
  assumes "received h sb" and "validRequest req" and "namesSecret (sb_podTemplate tmpl)"
  shows "wp (hookGuard lib hk tmpl req) (attemptPost hk tmpl req) (afterRead lib hk req tmpl sb) h"
  unfolding afterRead_def wp_bindP
  by (rule wp_weaken [OF reconcileExisting_wp [OF assms]])
    (auto simp: stepPost_def attemptPost_def runPost_def split: sum.splits)

lemma sessionAttempt_wp:
  assumes v: "validRequest req" and n: "namesSecret (sb_podTemplate tmpl)"
  shows "wp (hookGuard lib hk tmpl req) (attemptPost hk tmpl req) (sessionAttempt lib hk req tmpl k) h"
proof -
  let ?P = "hookGuard lib hk tmpl req" and ?Q = "attemptPost hk tmpl req"
  let ?get = "GetSandbox (sb_namespace tmpl) (sb_name tmpl)"
  have read: "wp ?P ?Q (afterRead lib hk req tmpl sb) ((c, RSandbox sb) # h)" for c sb h
    by (rule afterRead_wp [OF _ v n]) (simp add: received_def)
  have create: "wp ?P ?Q (bindP (createSandbox tmpl req) (\<lambda>cr. case cr of
      Inl cerr \<Rightarrow> Ret (if cerr = AlreadyExists then Continue
                      else Return (Inl (classifyAPIError ''creating Sandbox'' cerr)))
    | Inr sb \<Rightarrow> afterRead lib hk req tmpl sb)) h"
    if "(?get, RErr NotFound) \<in> set h" "admitted hk (sb_name tmpl) h" for h
    using that
    by (auto simp: createSandbox_def wp_bindP wp_request hookGuard_def attemptPost_def runPost_def
        intro: read split: sum.splits)
  have path: "wp ?P ?Q (createPath lib hk req tmpl) ((?get, RErr NotFound) # h)" for h
    unfolding createPath_def wp_bindP [of _ _ "checkCapacity _ _ _"]
  proof (rule wp_weaken [OF checkCapacity_wp])
    fix x d
    assume "case x of Inl e \<Rightarrow> exits e
      | Inr _ \<Rightarrow> admitted hk (sb_name tmpl) (d @ (?get, RErr NotFound) # h) \<or> (\<exists>sb. None = Some sb \<and> holdsSlot sb)"
    then show "wp ?P ?Q (case x of Inl e \<Rightarrow> Ret (Return (Inl e))
      | Inr _ \<Rightarrow> bindP (createSandbox tmpl req) (\<lambda>cr. case cr of
          Inl cerr \<Rightarrow> Ret (if cerr = AlreadyExists then Continue
                          else Return (Inl (classifyAPIError ''creating Sandbox'' cerr)))
        | Inr sb \<Rightarrow> afterRead lib hk req tmpl sb)) (d @ (?get, RErr NotFound) # h)"
      by (cases x) (auto simp: attemptPost_def runPost_def intro: create)
  qed simp
  have get: "wp ?P ?Q (bindP (request asSandbox ?get) (\<lambda>g. case g of
      Inl err \<Rightarrow> (if err = NotFound then createPath lib hk req tmpl
                 else Ret (Return (Inl (classifyAPIError ''reading Sandbox'' err))))
    | Inr sb \<Rightarrow> afterRead lib hk req tmpl sb)) h" for h
    by (auto simp: wp_bindP wp_request attemptPost_def runPost_def intro: read path split: sum.splits)
  show ?thesis
    unfolding sessionAttempt_def backoff_def
    using get by (auto simp: wp_bindP wp_request attemptPost_def runPost_def split: sum.splits)
qed

lemma sessionLoop_wp:
  assumes "validRequest req" and "namesSecret (sb_podTemplate tmpl)"
  shows "wp (hookGuard lib hk tmpl req) (runPost hk tmpl req) (sessionLoop lib hk req tmpl n k) h"
proof (induction n arbitrary: k h)
  case 0
  then show ?case by (simp add: runPost_def)
next
  case (Suc n)
  show ?case
    unfolding sessionLoop.simps wp_bindP
    by (rule wp_weaken [OF sessionAttempt_wp [OF assms]])
      (auto simp: attemptPost_def Suc.IH split: attemptResult.splits)
qed

text \<open>The Sandbox the hook made of the template file it read.\<close>

definition hookContract :: "hook \<Rightarrow> contract" where
  "hookContract hk = \<lparr>ct_WorkspaceMountPath = cf_WorkspaceMountPath (hk_Config hk),
     ct_BaseDir = cf_BaseDir (hk_Config hk),
     ct_TerminationGracePeriodSeconds = cf_TerminationGracePeriodSeconds (hk_Config hk)\<rparr>"

definition loaded :: "k8sLib \<Rightarrow> hook \<Rightarrow> spawnRequest \<Rightarrow> history \<Rightarrow> sandbox \<Rightarrow> bool" where
  "loaded lib hk req h tmpl \<longleftrightarrow> (\<exists>raw t. (ReadFile (cf_TemplatePath (hk_Config hk)), RBytes raw) \<in> set h \<and>
     ParseTemplate lib raw = Inr t \<and> ApplyContract (requestIdentity hk req) (hookContract hk) t = Inr tmpl)"

lemma loaded_mono [simp]: "loaded lib hk req h tmpl \<Longrightarrow> loaded lib hk req (e @ h) tmpl"
  by (auto simp: loaded_def)

lemma loaded_namesSecret: "loaded lib hk req h tmpl \<Longrightarrow> namesSecret (sb_podTemplate tmpl)"
  by (auto simp: loaded_def namesSecret_def meetsContract_def dest!: ApplyContract_meets)

lemma hookTemplate_wp:
  assumes "P h (ReadFile (cf_TemplatePath (hk_Config hk)))"
  shows "wp P (\<lambda>x h. case x of Inl e \<Rightarrow> exits e | Inr tmpl \<Rightarrow> loaded lib hk req h tmpl)
     (hookTemplate lib hk (requestIdentity hk req)) h"
  unfolding hookTemplate_def LoadTemplate_def hookContract_def [symmetric]
  by (auto simp: prog_simps assms loaded_def split: sum.splits)

definition runGuard :: "k8sLib \<Rightarrow> hook \<Rightarrow> spawnRequest \<Rightarrow> history \<Rightarrow> call \<Rightarrow> bool" where
  "runGuard lib hk req h c \<longleftrightarrow> c = ReadFile (cf_TemplatePath (hk_Config hk)) \<or>
     (\<exists>tmpl. loaded lib hk req h tmpl \<and> hookGuard lib hk tmpl req h c)"

definition outcome :: "k8sLib \<Rightarrow> hook \<Rightarrow> spawnRequest \<Rightarrow> hookError + unit \<Rightarrow> history \<Rightarrow> bool" where
  "outcome lib hk req x h \<longleftrightarrow> (case x of Inl e \<Rightarrow> exits e
     | Inr _ \<Rightarrow> \<exists>tmpl. loaded lib hk req h tmpl \<and> settled hk tmpl req h)"

lemma runSession_wp:
  assumes "validRequest req"
  shows "wp (runGuard lib hk req) (outcome lib hk req) (runSession lib hk req) h"
  unfolding runSession_def wp_thenP
proof (rule wp_weaken [OF hookTemplate_wp])
  fix x e
  assume x: "case x of Inl e \<Rightarrow> exits e | Inr tmpl \<Rightarrow> loaded lib hk req (e @ h) tmpl"
  show "case x of Inl err \<Rightarrow> outcome lib hk req (Inl err) (e @ h)
    | Inr tmpl \<Rightarrow> wp (runGuard lib hk req) (outcome lib hk req)
        (sessionLoop lib hk req tmpl (nat (hk_MaxAttempts hk)) 0) (e @ h)"
  proof (cases x)
    case (Inl err)
    with x show ?thesis by (simp add: outcome_def)
  next
    case (Inr tmpl)
    with x have l: "loaded lib hk req (e @ h) tmpl" by simp
    have "wp (runGuard lib hk req) (outcome lib hk req)
        (sessionLoop lib hk req tmpl (nat (hk_MaxAttempts hk)) 0) (e @ h)"
      by (rule wp_mono [OF sessionLoop_wp [OF assms loaded_namesSecret [OF l]]])
        (use loaded_mono [OF l] in \<open>auto simp: runGuard_def outcome_def runPost_def split: sum.splits\<close>)
    with Inr show ?thesis by simp
  qed
qed (simp add: runGuard_def)

text \<open>The number of attempts plays no part in any of this.\<close>

lemma hk_MaxAttempts_irrelevant [simp]:
  "runGuard lib (hk\<lparr>hk_MaxAttempts := n\<rparr>) req = runGuard lib hk req"
  "outcome lib (hk\<lparr>hk_MaxAttempts := n\<rparr>) req = outcome lib hk req"
proof -
  have n: "orderSecretName (hk\<lparr>hk_MaxAttempts := n\<rparr>) = orderSecretName hk"
    by (intro ext) (simp add: orderSecretName_def)
  then have s: "hookSecret (hk\<lparr>hk_MaxAttempts := n\<rparr>) = hookSecret hk"
      "repaired (hk\<lparr>hk_MaxAttempts := n\<rparr>) = repaired hk" "accepted (hk\<lparr>hk_MaxAttempts := n\<rparr>) = accepted hk"
    by (intro ext; simp add: hookSecret_def repaired_def accepted_def)+
  have a: "admitted (hk\<lparr>hk_MaxAttempts := n\<rparr>) = admitted hk"
    by (intro ext) (simp add: admitted_def)
  have l: "loaded lib (hk\<lparr>hk_MaxAttempts := n\<rparr>) = loaded lib hk"
    by (intro ext) (simp add: loaded_def requestIdentity_def hookContract_def)
  have g: "hookGuard lib (hk\<lparr>hk_MaxAttempts := n\<rparr>) = hookGuard lib hk"
  proof (intro ext)
    show "hookGuard lib (hk\<lparr>hk_MaxAttempts := n\<rparr>) tmpl req h c = hookGuard lib hk tmpl req h c" for tmpl req h c
      by (cases c) (simp_all add: hookGuard_def acceptGuard_def s a n)
  qed
  have "settledBy (hk\<lparr>hk_MaxAttempts := n\<rparr>) tmpl r h sb d = settledBy hk tmpl r h sb d" for tmpl r h sb d
    by (cases d) (simp_all add: s)
  then have "settled (hk\<lparr>hk_MaxAttempts := n\<rparr>) = settled hk"
    by (intro ext) (simp add: settled_def)
  then show "runGuard lib (hk\<lparr>hk_MaxAttempts := n\<rparr>) req = runGuard lib hk req"
    "outcome lib (hk\<lparr>hk_MaxAttempts := n\<rparr>) req = outcome lib hk req"
    by (intro ext; simp add: runGuard_def outcome_def l g split: sum.split)+
qed

lemma Run_wp:
  assumes "validRequest req"
  shows "wp (runGuard lib hk req) (outcome lib hk req) (Run lib hk req) h"
proof -
  have "wp (runGuard lib hk req) (outcome lib hk req) (runSession lib (hk\<lparr>hk_MaxAttempts := n\<rparr>) req) h" for n
    using runSession_wp [OF assms, of lib "hk\<lparr>hk_MaxAttempts := n\<rparr>" h] by simp
  then show ?thesis
    using runSession_wp [OF assms, of lib hk h] by (simp add: Run_def Let_def outcome_def)
qed

section \<open>Bounds on the calls\<close>

lemma calls_case_sum [intro!]:
  "(\<And>e. x = Inl e \<Longrightarrow> callsWithin (f e) n) \<Longrightarrow> (\<And>a. x = Inr a \<Longrightarrow> callsWithin (g a) n) \<Longrightarrow>
     callsWithin (case x of Inl e \<Rightarrow> f e | Inr a \<Rightarrow> g a) n"
  by (cases x) auto

lemma calls_bindP:
  "callsWithin p m \<Longrightarrow> (\<And>x. callsWithin (f x) n) \<Longrightarrow> m + n \<le> k \<Longrightarrow> callsWithin (bindP p f) k"
  by (rule callsWithin_mono [OF callsWithin_bindP])

lemma calls_thenP:
  "callsWithin p m \<Longrightarrow> (\<And>x. callsWithin (f x) n) \<Longrightarrow> m + n \<le> k \<Longrightarrow> callsWithin (thenP p f) k"
  by (rule callsWithin_mono [OF callsWithin_thenP])

lemma calls_ensureSecret: "callsWithin (ensureSecret sb tmpl req name) 2"
  by (auto simp: ensureSecret_def Let_def request_def)

lemma calls_hookPatch: "callsWithin (hookPatch lib orig mut) 1"
  by (auto simp: hookPatch_def request_def)

lemma calls_checkCapacity: "callsWithin (checkCapacity hk own n) 1"
  by (auto simp: checkCapacity_def Let_def request_def)

lemma calls_repairRedelivery: "callsWithin (repairRedelivery lib hk sb tmpl req) 3"
proof -
  have "callsWithin (thenP (hookPatch lib sb mut) (\<lambda>_. Ret (Inr True))) 1" for mut
    using callsWithin_thenP [OF calls_hookPatch [of lib sb mut], of "\<lambda>_. Ret (Inr True)" 0] by simp
  then have "callsWithin (case repairPointers req (orderSecretName hk sb req) sb of Inl e \<Rightarrow> Ret (Inl e)
      | Inr (mut, changed) \<Rightarrow> (if \<not> changed then Ret (Inr True)
          else thenP (hookPatch lib sb mut) (\<lambda>_. Ret (Inr True)))) 1"
    by (auto split: prod.splits)
  then show ?thesis
    unfolding repairRedelivery_def Let_def by (rule calls_thenP [OF calls_ensureSecret]) simp
qed

lemma calls_publishNewer: "callsWithin (publishNewer lib hk sb tmpl req) 4"
proof -
  have p: "callsWithin (thenP (hookPatch lib sb mut) (\<lambda>_. Ret (Inr True))) 1" for mut
    using callsWithin_thenP [OF calls_hookPatch [of lib sb mut], of "\<lambda>_. Ret (Inr True)" 0] by simp
  have "callsWithin (bindP (request asTime Now) (\<lambda>now. case refreshedTemplate sb (sb_podTemplate tmpl) of
      None \<Rightarrow> Ret (Inl NilDereference)
    | Some pt \<Rightarrow> thenP (hookPatch lib sb (acceptNewer sb req (orderSecretName hk sb req) now pt)) (\<lambda>_. Ret (Inr True)))) 2"
    using p by (auto simp: request_def split: option.splits)
  then show ?thesis
    unfolding publishNewer_def Let_def by (rule calls_thenP [OF calls_ensureSecret]) simp
qed

lemma calls_reconcileExisting: "callsWithin (reconcileExisting lib hk sb tmpl req) 5"
proof -
  have "callsWithin (thenP (checkCapacity hk (Some sb) (sb_name sb)) (\<lambda>_. publishNewer lib hk sb tmpl req)) 5"
    by (rule calls_thenP [OF calls_checkCapacity calls_publishNewer]) simp
  then show ?thesis
    using callsWithin_mono [OF calls_repairRedelivery, of 5]
    by (auto simp: reconcileExisting_def split: decision.splits)
qed

lemma calls_afterRead: "callsWithin (afterRead lib hk req tmpl sb) 5"
  unfolding afterRead_def by (rule calls_bindP [OF calls_reconcileExisting, of _ 0]) auto

lemma calls_createPath: "callsWithin (createPath lib hk req tmpl) 8"
proof -
  have "callsWithin (bindP (createSandbox tmpl req) (\<lambda>cr. case cr of
      Inl cerr \<Rightarrow> Ret (if cerr = AlreadyExists then Continue
                      else Return (Inl (classifyAPIError ''creating Sandbox'' cerr)))
    | Inr sb \<Rightarrow> afterRead lib hk req tmpl sb)) 7"
    using calls_afterRead by (auto simp: createSandbox_def request_def)
  then show ?thesis
    unfolding createPath_def by (intro calls_bindP [OF calls_checkCapacity, of _ 7]) auto
qed

lemma calls_sessionAttempt: "callsWithin (sessionAttempt lib hk req tmpl k) 10"
proof -
  have "callsWithin (bindP (request asSandbox (GetSandbox (sb_namespace tmpl) (sb_name tmpl))) (\<lambda>g. case g of
      Inl err \<Rightarrow> (if err = NotFound then createPath lib hk req tmpl
                 else Ret (Return (Inl (classifyAPIError ''reading Sandbox'' err))))
    | Inr sb \<Rightarrow> afterRead lib hk req tmpl sb)) 9"
    using calls_createPath callsWithin_mono [OF calls_afterRead, of 8] by (auto simp: request_def)
  moreover have "callsWithin (backoff k) 1" by (simp add: backoff_def)
  ultimately show ?thesis
    unfolding sessionAttempt_def by (intro calls_bindP [of "backoff k" 1 _ 9]) auto
qed

lemma calls_sessionLoop: "callsWithin (sessionLoop lib hk req tmpl n k) (10 * n)"
proof (induction n arbitrary: k)
  case 0
  then show ?case by simp
next
  case (Suc n)
  have "callsWithin (case x of Continue \<Rightarrow> sessionLoop lib hk req tmpl n (Suc k) | Return r \<Rightarrow> Ret r) (10 * n)" for x
    using Suc.IH by (cases x) auto
  then show ?case unfolding sessionLoop.simps by (rule calls_bindP [OF calls_sessionAttempt]) simp
qed

lemma calls_runSession: "callsWithin (runSession lib hk req) (1 + 10 * nat (hk_MaxAttempts hk))"
proof -
  have "callsWithin (hookTemplate lib hk (requestIdentity hk req)) 1"
    by (auto simp: hookTemplate_def LoadTemplate_def request_def split: sum.splits)
  then show ?thesis
    unfolding runSession_def using calls_sessionLoop by (rule callsWithin_thenP)
qed

end
