(* ===== verification/ReconcilerSpec.thy ===== *)
theory ReconcilerSpec
  imports HookSpec
begin

text \<open>
  What one reconcile pass does, over every behaviour of the API server: the guard of each of
  its writes, and that it writes at most once.
\<close>

section \<open>The pass's patches are steps of the contract\<close>

lemma samePart_rec [simp]: "samePart sb (observed sb)" "samePart sb (asleep sb now)" "samePart sb (awake sb pending name)"
  by (simp_all add: observed_def asleep_def awake_def)

lemma stamped_rec: "stamped h sb (observed sb)" "now \<in> toldTimes h \<Longrightarrow> stamped h sb (asleep sb now)" "stamped h sb (awake sb pending name)"
  by (simp_all add: stamped_def observed_def asleep_def awake_def)

lemma observed_step:
  assumes "pendingOf sb \<noteq> []" and "annot sb AnnotationAppliedSpawn = pendingOf sb"
  shows "lifecycle D (sessionOf sb) Observe (sessionOf (observed sb))"
proof -
  have eq: "sessionOf (observed sb) = (sessionOf sb)\<lparr>s_pending := [], s_pendingSecret := []\<rparr>"
    by (simp add: sessionOf_def observed_def)
  show ?thesis unfolding eq by (rule lifecycle.observe) (use assms in \<open>simp_all add: sessionOf_def\<close>)
qed

lemma asleep_step:
  assumes "sb_operatingMode sb = Running" and "pendingOf sb = []"
  shows "lifecycle D (sessionOf sb) Sleep (sessionOf (asleep sb now))"
proof -
  have eq: "sessionOf (asleep sb now) = (sessionOf sb)\<lparr>s_mode := Suspended\<rparr>"
    by (simp add: sessionOf_def asleep_def)
  show ?thesis unfolding eq by (rule lifecycle.sleep) (use assms in \<open>simp_all add: sessionOf_def\<close>)
qed

lemma workOrderVolume_installOrder:
  assumes "list_ex (\<lambda>v. v_name v = WorkOrderVolumeName) (ps_volumes (pt_spec pt))"
  shows "podTemplateSecret (installOrder pending name pt) = Some name"
proof -
  let ?f = "\<lambda>v. if v_name v = WorkOrderVolumeName then setSecretName name v else v"
  have n: "v_name (setSecretName name v) = v_name v" for v
    by (simp add: setSecretName_def split: option.splits)
  have "find (\<lambda>v. v_name v = WorkOrderVolumeName) (map ?f vs)
      = map_option (setSecretName name) (find (\<lambda>v. v_name v = WorkOrderVolumeName) vs)" for vs
    by (induction vs) (simp_all add: n)
  moreover obtain v where "find (\<lambda>v. v_name v = WorkOrderVolumeName) (ps_volumes (pt_spec pt)) = Some v"
    using assms by (auto simp: list_ex_find)
  ultimately have "workOrderVolume (pt_spec (installOrder pending name pt)) = Some (setSecretName name v)"
    by (simp add: workOrderVolume_def installOrder_def)
  then show ?thesis
    by (simp add: podTemplateSecret_def setSecretName_def split: option.splits)
qed

lemma awake_step:
  assumes "sb_operatingMode sb = Suspended" and "pendingOf sb \<noteq> []" and "lastOrderOf sb = pendingOf sb"
    and "D (pendingOf sb) (annot sb AnnotationPendingSecret)" and "hasWorkOrderVolume sb"
  shows "lifecycle D (sessionOf sb) Wake (sessionOf (awake sb (pendingOf sb) (annot sb AnnotationPendingSecret)))"
proof -
  let ?n = "annot sb AnnotationPendingSecret" and ?p = "pendingOf sb"
  have "podTemplateSecret (installOrder ?p ?n (sb_podTemplate sb)) = Some ?n"
    using assms(5) by (intro workOrderVolume_installOrder) (simp add: hasWorkOrderVolume_def)
  then have eq: "sessionOf (awake sb ?p ?n) = (sessionOf sb)\<lparr>s_mode := Running, s_applied := s_pending (sessionOf sb),
      s_podOrder := s_pending (sessionOf sb), s_podSecret := Some (s_pendingSecret (sessionOf sb))\<rparr>"
    by (simp add: sessionOf_def awake_def) (simp add: installOrder_def)
  show ?thesis unfolding eq by (rule lifecycle.wake) (use assms in \<open>simp_all add: sessionOf_def\<close>)
qed

text \<open>What the controller checks of a Secret.\<close>

lemma validateWorkOrderSecret_InrE:
  assumes "validateWorkOrderSecret s sb order release = Inr ()"
  obtains "se_immutable s = Some True" and "mget (se_data s) WorkOrderSecretKey \<noteq> []"
    and "mget (se_annotations s) AnnotationOrderID = order"
    and "mget (se_annotations s) AnnotationOrderAttempt = annot sb AnnotationLastOrderAttempt"
    and "LabelValue (mget (se_annotations s) AnnotationSessionID) = label sb LabelSessionID"
    and "se_name s = WorkOrderSecretName release (mget (se_annotations s) AnnotationSessionID) (sb_uid sb) order"
    and "\<exists>ref \<in> set (se_owners s). or_uid ref = sb_uid sb"
  using assms by (auto simp: validateWorkOrderSecret_def Let_def list_ex_iff split: if_splits)

lemma validateWorkOrderSecret_derived:
  "validateWorkOrderSecret s sb order release = Inr () \<Longrightarrow> derivedName release sb order (se_name s)"
  unfolding derivedName_def by (erule validateWorkOrderSecret_InrE) auto

section \<open>The guards of the writes\<close>

definition noWrite :: "history \<Rightarrow> bool" where
  "noWrite h \<longleftrightarrow> (\<forall>(c, r) \<in> set h. \<not> isWrite c)"

lemma noWrite_Cons [simp]: "noWrite ((c, r) # h) \<longleftrightarrow> \<not> isWrite c \<and> noWrite h"
  by (auto simp: noWrite_def)

text \<open>
  The API server answers a request for a Secret with the Secret of that name: the documented
  behaviour of a get.
\<close>

definition namedAsAsked :: "history \<Rightarrow> bool" where
  "namedAsAsked h \<longleftrightarrow> (\<forall>ns n se. (GetSecret ns n, RSecret se) \<in> set h \<longrightarrow> se_name se = n)"

lemma namedAsAsked_appendD: "namedAsAsked (e @ h) \<Longrightarrow> namedAsAsked h"
  by (auto simp: namedAsAsked_def)

text \<open>The Sandbox the pass read, which it may act on, and the Pods it listed as owned.\<close>

definition readBy :: "reconciler \<Rightarrow> string \<Rightarrow> string \<Rightarrow> history \<Rightarrow> sandbox \<Rightarrow> bool" where
  "readBy rc ns n h sb \<longleftrightarrow> (GetSandbox ns n, RSandbox sb) \<in> set h \<and> \<not> deleting sb \<and>
     label sb LabelInstance = rc_Release rc \<and> label sb LabelName = ComponentRunner"

definition owns :: "k8sLib \<Rightarrow> sandbox \<Rightarrow> pod \<Rightarrow> bool" where
  "owns lib sb p \<longleftrightarrow> (\<exists>ref. lib_getControllerOf lib (p_owners p) = Some ref \<and> or_uid ref = sb_uid sb)"

definition listedBy :: "k8sLib \<Rightarrow> reconciler \<Rightarrow> history \<Rightarrow> sandbox \<Rightarrow> pod list \<Rightarrow> bool" where
  "listedBy lib rc h sb pods \<longleftrightarrow> (\<exists>items. (ListPods (sb_namespace sb) (SelectorLabels ComponentRunner (rc_Release rc)),
     RPods items) \<in> set h \<and> pods = filter (owns lib sb) items)"

definition observeGuard :: "k8sLib \<Rightarrow> reconciler \<Rightarrow> history \<Rightarrow> sandbox \<Rightarrow> bool" where
  "observeGuard lib rc h sb \<longleftrightarrow> (\<exists>pods p. listedBy lib rc h sb pods \<and> p \<in> set pods \<and>
     mget (p_annotations p) AnnotationOrderID = pendingOf sb \<and> annot sb AnnotationAppliedSpawn = pendingOf sb \<and>
     annot sb AnnotationPendingSecret \<noteq> [] \<and> podWorkOrderSecret p = annot sb AnnotationPendingSecret)"

definition wakeGuard :: "k8sLib \<Rightarrow> reconciler \<Rightarrow> history \<Rightarrow> sandbox \<Rightarrow> bool" where
  "wakeGuard lib rc h sb \<longleftrightarrow> currentGenerationTrue lib sb SandboxConditionSuspended \<and>
     (\<exists>se. (GetSecret (sb_namespace sb) (annot sb AnnotationPendingSecret), RSecret se) \<in> set h \<and>
        validateWorkOrderSecret se sb (pendingOf sb) (rc_Release rc) = Inr ())"

text \<open>Why a Sandbox may be collected, at the time the pass read.\<close>

definition gcDue :: "k8sLib \<Rightarrow> reconciler \<Rightarrow> history \<Rightarrow> sandbox \<Rightarrow> bool" where
  "gcDue lib rc h sb \<longleftrightarrow> op_GCEnabled (rc_Options rc) \<and>
     (\<exists>at now. idleSince lib sb = Inr (Some at) \<and> now \<in> asTime ` snd ` set (filter (\<lambda>(c, r). c = Now) h) \<and>
       (op_GCMaxIdleAge (rc_Options rc) \<le> timeSub now at \<or>
        op_GCMaxIdleSessions (rc_Options rc) > 0 \<and>
        (\<exists>items. (ListSandboxes (sb_namespace sb) (SelectorLabels ComponentRunner (rc_Release rc)), RSandboxes items) \<in> set h \<and>
           sb_uid sb \<in> ie_uid ` set (selectVictims (op_GCMaxIdleSessions (rc_Options rc))
              (List.map_filter (idleEntryOf lib) items)))))"

definition patchGuard :: "k8sLib \<Rightarrow> reconciler \<Rightarrow> history \<Rightarrow> sandbox \<Rightarrow> sandbox \<Rightarrow> bool" where
  "patchGuard lib rc h orig mut \<longleftrightarrow>
     (legalPatch (rc_Release rc) orig Observe mut \<and> observeGuard lib rc h orig) \<or>
     (legalPatch (rc_Release rc) orig Sleep mut \<and> currentGenerationTrue lib orig SandboxConditionFinished \<and>
        (\<exists>now. mut = asleep orig now)) \<or>
     (legalPatch (rc_Release rc) orig Wake mut \<and> wakeGuard lib rc h orig)"

definition reconcileGuard :: "k8sLib \<Rightarrow> reconciler \<Rightarrow> string \<Rightarrow> string \<Rightarrow> history \<Rightarrow> call \<Rightarrow> bool" where
  "reconcileGuard lib rc ns n h c \<longleftrightarrow> (case c of
     PatchSandbox orig mut doc \<Rightarrow> noWrite h \<and> readBy rc ns n h orig \<and> Optimistic lib orig mut = Inr doc \<and>
       stamped h orig mut \<and>
       (namedAsAsked h \<longrightarrow> patchGuard lib rc h orig mut)
   | DeleteSandbox ns' n' uid rv \<Rightarrow> noWrite h \<and> (\<exists>sb. readBy rc ns n h sb \<and> ns' = sb_namespace sb \<and>
       n' = sb_name sb \<and> uid = sb_uid sb \<and> rv = sb_resourceVersion sb \<and> gcDue lib rc h sb)
   | CreateSandbox _ \<Rightarrow> False
   | CreateSecret _ \<Rightarrow> False
   | _ \<Rightarrow> True)"

lemma reconcileGuard_reads [simp]:
  "reconcileGuard lib rc ns n h (GetSandbox ns' n')" "reconcileGuard lib rc ns n h (ListSandboxes ns' sel)"
  "reconcileGuard lib rc ns n h (GetSecret ns' n')" "reconcileGuard lib rc ns n h (ListPods ns' sel)"
  "reconcileGuard lib rc ns n h (Emit e)" "reconcileGuard lib rc ns n h Now"
  by (simp_all add: reconcileGuard_def)

lemma rec_history_mono [simp]:
  "readBy rc ns n h sb \<Longrightarrow> readBy rc ns n (e @ h) sb" "readBy rc ns n h sb \<Longrightarrow> readBy rc ns n (x # h) sb"
  "listedBy lib rc h sb pods \<Longrightarrow> listedBy lib rc (e @ h) sb pods"
  "listedBy lib rc h sb pods \<Longrightarrow> listedBy lib rc (x # h) sb pods"
  by (auto simp: readBy_def listedBy_def)

text \<open>What a predicate leaves behind when it did nothing: no write so far.\<close>

definition untouched :: "recError + bool \<Rightarrow> history \<Rightarrow> bool" where
  "untouched x h \<longleftrightarrow> x = Inr False \<longrightarrow> noWrite h"

lemma wp_emit [prog_simps]:
  "wp P Q (emit sb t rsn args) h \<longleftrightarrow>
     P h (Emit \<lparr>ev_sandbox = sb_name sb, ev_type = t, ev_reason = rsn, ev_args = args\<rparr>) \<and>
     (\<forall>r. Q () ((Emit \<lparr>ev_sandbox = sb_name sb, ev_type = t, ev_reason = rsn, ev_args = args\<rparr>, r) # h))"
  by (simp add: emit_def prog_simps)

section \<open>The predicates\<close>

lemma recPatch_wp:
  assumes "\<And>doc. Optimistic lib orig mut = Inr doc \<Longrightarrow> P h (PatchSandbox orig mut doc)"
  shows "wp P (\<lambda>_ _. True) (recPatch lib orig mut) h"
  unfolding recPatch_def by (auto simp: prog_simps assms split: sum.splits)

lemma patch_then_emit:
  assumes "\<And>doc. Optimistic lib sb mut = Inr doc \<Longrightarrow> reconcileGuard lib rc ns n h (PatchSandbox sb mut doc)"
  shows "wp (reconcileGuard lib rc ns n) untouched
     (thenP (recPatch lib sb mut) (\<lambda>_. bindP (emit sb t rsn args) (\<lambda>_. Ret (Inr True)))) h"
  unfolding wp_thenP
  by (rule wp_weaken, rule recPatch_wp, erule assms) (auto simp: prog_simps untouched_def split: sum.splits)

lemma spawnObservation_wp:
  assumes r: "readBy rc ns n h sb" and l: "listedBy lib rc h sb pods" and w: "noWrite h"
  shows "wp (reconcileGuard lib rc ns n) untouched (spawnObservation lib sb pods) h"
proof -
  have "wp (reconcileGuard lib rc ns n) untouched
      (thenP (recPatch lib sb (observed sb)) (\<lambda>_. bindP (emit sb t rsn args) (\<lambda>_. Ret (Inr True)))) h"
    if p: "pendingOf sb \<noteq> []" "annot sb AnnotationAppliedSpawn = pendingOf sb" and m: "matchingPod sb pods = Some p" for t rsn args p
  proof (rule patch_then_emit)
    fix doc assume "Optimistic lib sb (observed sb) = Inr doc"
    moreover have "legalPatch (rc_Release rc) sb Observe (observed sb)"
      using r p by (simp add: legalPatch_def readBy_def observed_step)
    moreover have "observeGuard lib rc h sb"
      using find_SomeD [OF m [unfolded matchingPod_def Let_def]] l p(2) by (auto simp: observeGuard_def)
    ultimately show "reconcileGuard lib rc ns n h (PatchSandbox sb (observed sb) doc)"
      using r w by (simp add: reconcileGuard_def patchGuard_def stamped_rec)
  qed
  then show ?thesis
    using w by (auto simp: spawnObservation_def Let_def untouched_def split: option.splits)
qed

lemma recSleep_wp:
  assumes r: "readBy rc ns n h sb" and w: "noWrite h"
  shows "wp (reconcileGuard lib rc ns n) untouched (recSleep lib sb) h"
proof -
  have "wp (reconcileGuard lib rc ns n) untouched
      (thenP (recPatch lib sb (asleep sb (asTime r'))) (\<lambda>_. bindP (emit sb t rsn args) (\<lambda>_. Ret (Inr True)))) ((Now, r') # h)"
    if p: "sb_operatingMode sb = Running" "pendingOf sb = []" "currentGenerationTrue lib sb SandboxConditionFinished"
    for t rsn args r'
  proof (rule patch_then_emit)
    fix doc assume "Optimistic lib sb (asleep sb (asTime r')) = Inr doc"
    moreover have "legalPatch (rc_Release rc) sb Sleep (asleep sb (asTime r'))"
      using r p by (simp add: legalPatch_def readBy_def asleep_step)
    ultimately show "reconcileGuard lib rc ns n ((Now, r') # h) (PatchSandbox sb (asleep sb (asTime r')) doc)"
      using r w p(3) by (auto simp: reconcileGuard_def patchGuard_def stamped_rec)
  qed
  then show ?thesis
    using w by (auto simp: recSleep_def Let_def untouched_def prog_simps)
qed

lemma wake_patch_guard:
  assumes r: "readBy rc ns n h sb" and w: "noWrite h" and o: "Optimistic lib sb (awake sb (pendingOf sb) name) = Inr doc"
    and name: "name = annot sb AnnotationPendingSecret"
    and p: "sb_operatingMode sb = Suspended" "pendingOf sb \<noteq> []" "lastOrderOf sb = pendingOf sb"
      "currentGenerationTrue lib sb SandboxConditionSuspended" "hasWorkOrderVolume sb"
    and v: "validateWorkOrderSecret se sb (pendingOf sb) (rc_Release rc) = Inr ()"
  shows "reconcileGuard lib rc ns n ((GetSecret (sb_namespace sb) name, RSecret se) # h)
     (PatchSandbox sb (awake sb (pendingOf sb) name) doc)"
proof -
  let ?h = "(GetSecret (sb_namespace sb) name, RSecret se) # h"
  have "patchGuard lib rc ?h sb (awake sb (pendingOf sb) name)" if "namedAsAsked ?h"
  proof -
    have "se_name se = name" using that by (auto simp: namedAsAsked_def)
    then have "derivedName (rc_Release rc) sb (pendingOf sb) name"
      using validateWorkOrderSecret_derived [OF v] by simp
    then have "legalPatch (rc_Release rc) sb Wake (awake sb (pendingOf sb) name)"
      using r p unfolding name by (simp add: legalPatch_def readBy_def awake_step)
    moreover have "wakeGuard lib rc ?h sb" using p(4) v name by (auto simp: wakeGuard_def)
    ultimately show ?thesis by (simp add: patchGuard_def)
  qed
  with r w o show ?thesis by (simp add: reconcileGuard_def stamped_rec)
qed

lemma wake_wp:
  assumes r: "readBy rc ns n h sb" and w: "noWrite h"
  shows "wp (reconcileGuard lib rc ns n) untouched (wake lib rc sb) h"
proof -
  let ?p = "pendingOf sb" and ?n = "annot sb AnnotationPendingSecret"
  let ?h = "\<lambda>se. (GetSecret (sb_namespace sb) ?n, RSecret se) # h"
  have patch: "wp (reconcileGuard lib rc ns n) (\<lambda>_ _. True) (recPatch lib sb (awake sb ?p ?n)) (?h se)"
    if "sb_operatingMode sb = Suspended" "?p \<noteq> []" "lastOrderOf sb = ?p"
      "currentGenerationTrue lib sb SandboxConditionSuspended" "hasWorkOrderVolume sb"
      "validateWorkOrderSecret se sb ?p (rc_Release rc) = Inr ()" for se
    by (rule recPatch_wp) (rule wake_patch_guard [OF r w _ refl that])
  show ?thesis
    using w unfolding wake_def Let_def
    by (auto simp: prog_simps untouched_def intro!: patch split: sum.splits)
qed

lemma zombieLoop_wp:
  assumes "noWrite h"
  shows "wp (reconcileGuard lib rc ns n) (\<lambda>_. noWrite) (zombieLoop rc' sb now pods requeue alerted) h"
  using assms
proof (induction pods arbitrary: requeue alerted h)
  case Nil
  then show ?case by simp
next
  case (Cons p pods)
  have "wp (reconcileGuard lib rc ns n) (\<lambda>_. noWrite) (bindP (emit sb EventTypeWarning EventPodStuckTerminating a)
      (\<lambda>_. zombieLoop rc' sb now pods requeue al)) h" for a al
    using Cons by (simp add: prog_simps)
  with Cons show ?case by (auto simp: Let_def split: option.splits)
qed

lemma zombie_wp:
  "noWrite h \<Longrightarrow> wp (reconcileGuard lib rc ns n) (\<lambda>_. noWrite) (zombie rc st sb pods) h"
proof -
  assume w: "noWrite h"
  have "wp (reconcileGuard lib rc ns n) (\<lambda>_. noWrite) (bindP (zombieLoop rc sb now pods 0 al)
      (\<lambda>(requeue, alerted). Ret (requeue, st\<lparr>rs_zombiesAlerted := alerted\<rparr>))) ((Now, r) # h)" for now al r
    unfolding wp_bindP by (rule wp_weaken [OF zombieLoop_wp]) (use w in auto)
  then show ?thesis using w by (auto simp: zombie_def prog_simps)
qed

lemma gc_delete_guard:
  assumes "readBy rc ns n h sb" and "noWrite h" and "gcDue lib rc h sb"
  shows "reconcileGuard lib rc ns n h (DeleteSandbox (sb_namespace sb) (sb_name sb) (sb_uid sb) (sb_resourceVersion sb))"
  using assms by (auto simp: reconcileGuard_def)

lemma gcReasonOf_wp:
  assumes w: "noWrite h" and i: "idleSince lib sb = Inr (Some at)" and e: "op_GCEnabled (rc_Options rc)"
    and now: "(Now, r) \<in> set h"
  shows "wp (reconcileGuard lib rc ns n) (\<lambda>x h'. noWrite h' \<and> (\<forall>why. x = Inr (Some why) \<longrightarrow> gcDue lib rc h' sb))
     (gcReasonOf lib rc sb (timeSub (asTime r) at)) h"
proof -
  let ?ls = "ListSandboxes (sb_namespace sb) (SelectorLabels ComponentRunner (rc_Release rc))"
  have t: "asTime r \<in> asTime ` snd ` set (filter (\<lambda>(c, r). c = Now) (e @ h))" for e
    using now by (force intro!: image_eqI)
  have age: "gcDue lib rc h sb" if "op_GCMaxIdleAge (rc_Options rc) \<le> timeSub (asTime r) at"
    unfolding gcDue_def using e i t [of "[]"] that
    by (intro conjI exI [of _ at] exI [of _ "asTime r"]) auto
  have old: "gcDue lib rc ((?ls, RSandboxes items) # h) sb"
    if "op_GCMaxIdleSessions (rc_Options rc) > 0"
      "list_ex (\<lambda>v. ie_uid v = sb_uid sb) (selectVictims (op_GCMaxIdleSessions (rc_Options rc))
         (List.map_filter (idleEntryOf lib) items))" for items
    unfolding gcDue_def using e i t [of "[(?ls, RSandboxes items)]"] that
    by (intro conjI exI [of _ at] exI [of _ "asTime r"]) (force simp: list_ex_iff)+
  show ?thesis
    using w age old by (auto simp: gcReasonOf_def idleVictims_def prog_simps split: sum.splits)
qed

lemma gc_wp:
  assumes r: "readBy rc ns n h sb" and w: "noWrite h"
  shows "wp (reconcileGuard lib rc ns n) (\<lambda>_ _. True) (gc lib rc sb) h"
proof (cases "op_GCEnabled (rc_Options rc) \<and> (\<exists>at. idleSince lib sb = Inr (Some at))")
  case False
  then show ?thesis by (auto simp: gc_def split: sum.splits option.splits)
next
  case True
  then obtain at where e: "op_GCEnabled (rc_Options rc)" and i: "idleSince lib sb = Inr (Some at)" by blast
  have "wp (reconcileGuard lib rc ns n) (\<lambda>_ _. True)
      (thenP (gcReasonOf lib rc sb (timeSub (asTime t) at)) (\<lambda>reason. case reason of
         None \<Rightarrow> Ret (Inr (False, wrapInt64 (op_GCMaxIdleAge (rc_Options rc) - timeSub (asTime t) at)))
       | Some why \<Rightarrow> bindP (request asOk (DeleteSandbox (sb_namespace sb) (sb_name sb) (sb_uid sb) (sb_resourceVersion sb))) (\<lambda>x.
           case x of Inl err \<Rightarrow> (if err = NotFound then Ret (Inr (True, 0)) else Ret (Inl (Deleting err)))
           | Inr _ \<Rightarrow> bindP (emit sb EventTypeNormal EventGarbageCollected [ReasonArg why]) (\<lambda>_. Ret (Inr (True, 0)))))) ((Now, t) # h)" for t
    unfolding wp_thenP
  proof (rule wp_weaken [OF gcReasonOf_wp [OF _ i e]])
    fix x :: "recError + gcReason option" and d
    assume x: "noWrite (d @ (Now, t) # h) \<and> (\<forall>why. x = Inr (Some why) \<longrightarrow> gcDue lib rc (d @ (Now, t) # h) sb)"
    have "readBy rc ns n (d @ (Now, t) # h) sb" using r by simp
    note g = gc_delete_guard [OF this]
    show "case x of Inl e \<Rightarrow> True
      | Inr reason \<Rightarrow> wp (reconcileGuard lib rc ns n) (\<lambda>_ _. True) (case reason of
         None \<Rightarrow> Ret (Inr (False, wrapInt64 (op_GCMaxIdleAge (rc_Options rc) - timeSub (asTime t) at)))
       | Some why \<Rightarrow> bindP (request asOk (DeleteSandbox (sb_namespace sb) (sb_name sb) (sb_uid sb) (sb_resourceVersion sb))) (\<lambda>x.
           case x of Inl err \<Rightarrow> (if err = NotFound then Ret (Inr (True, 0)) else Ret (Inl (Deleting err)))
           | Inr _ \<Rightarrow> bindP (emit sb EventTypeNormal EventGarbageCollected [ReasonArg why]) (\<lambda>_. Ret (Inr (True, 0))))) (d @ (Now, t) # h)"
      using x g by (auto simp: prog_simps split: sum.splits option.splits)
  qed (use w in auto)
  then show ?thesis using e i by (simp add: gc_def Let_def prog_simps)
qed

lemma alarm_wp: "wp (reconcileGuard lib rc ns n) (\<lambda>_ _. True) (alarm lib st sb) h"
  by (simp add: alarm_def Let_def prog_simps)

section \<open>The pass\<close>

definition passPost :: "recState \<times> (recError + duration) \<Rightarrow> history \<Rightarrow> bool" where
  "passPost x h \<longleftrightarrow> (case snd x of Inl _ \<Rightarrow> True | Inr d \<Rightarrow> 0 \<le> d)"

lemma passPost_simps [simp]: "passPost (st, Inl e) h" "passPost (st, Inr d) h \<longleftrightarrow> 0 \<le> d"
  by (simp_all add: passPost_def)

lemma earlier_nonneg: "0 \<le> cur \<Longrightarrow> 0 \<le> earlier cur requeue"
  by (simp add: earlier_def)

lemma lastPredicates_wp:
  assumes r: "readBy rc ns n h sb" and w: "noWrite h"
  shows "wp (reconcileGuard lib rc ns n) passPost (lastPredicates lib rc st sb pods) h"
proof -
  let ?P = "reconcileGuard lib rc ns n"
  have rest: "wp ?P passPost (bindP (gc lib rc sb) (\<lambda>g. case g of
       Inl e \<Rightarrow> Ret (st', Inl e)
     | Inr (done, requeue) \<Rightarrow> (if done then Ret (st', Inr 0)
         else bindP (alarm lib st' sb) (\<lambda>st. Ret (st, Inr (earlier after requeue)))))) h'"
    if "0 \<le> after" "noWrite h'" "readBy rc ns n h' sb" for after st' h'
    unfolding wp_bindP [of _ _ "gc lib rc sb"]
  proof (rule wp_weaken [OF gc_wp [OF that(3,2)]])
    fix x e
    have "wp ?P passPost (bindP (alarm lib st' sb) (\<lambda>st. Ret (st, Inr (earlier after d)))) (e @ h')" for d
      unfolding wp_bindP by (rule wp_weaken [OF alarm_wp]) (use that(1) in \<open>simp add: earlier_nonneg\<close>)
    then show "wp ?P passPost (case x of Inl e \<Rightarrow> Ret (st', Inl e)
      | Inr (done, requeue) \<Rightarrow> (if done then Ret (st', Inr 0)
         else bindP (alarm lib st' sb) (\<lambda>st. Ret (st, Inr (earlier after requeue))))) (e @ h')"
      by (auto split: sum.splits)
  qed
  show ?thesis
    unfolding lastPredicates_def wp_bindP [of _ _ "zombie rc st sb pods"]
  proof (rule wp_weaken [OF zombie_wp [OF w]])
    fix x e
    assume "noWrite (e @ h)"
    moreover have "readBy rc ns n (e @ h) sb" using r by simp
    ultimately show "wp ?P passPost (case x of (requeue, st) \<Rightarrow>
       let after = (if requeue > 0 then requeue else 0) in
       bindP (gc lib rc sb) (\<lambda>g. case g of
         Inl e \<Rightarrow> Ret (st, Inl e)
       | Inr (done, requeue) \<Rightarrow> (if done then Ret (st, Inr 0)
          else bindP (alarm lib st sb) (\<lambda>st. Ret (st, Inr (earlier after requeue)))))) (e @ h)"
      by (cases x) (auto simp: Let_def intro!: rest)
  qed
qed

lemma predicate_wp:
  assumes "wp P untouched p h" and "\<And>e. noWrite (e @ h) \<Longrightarrow> wp P passPost rest (e @ h)"
  shows "wp P passPost (predicate p st rest) h"
  unfolding predicate_def wp_bindP
  by (rule wp_weaken [OF assms(1)]) (use assms(2) in \<open>auto simp: untouched_def split: sum.splits\<close>)

lemma actOn_wp:
  assumes r: "readBy rc ns n h sb" and l: "listedBy lib rc h sb pods" and w: "noWrite h"
  shows "wp (reconcileGuard lib rc ns n) passPost
     (predicate (spawnObservation lib sb pods) st (predicate (recSleep lib sb) st
        (predicate (wake lib rc sb) st (lastPredicates lib rc st sb pods)))) h"
  by (intro predicate_wp spawnObservation_wp recSleep_wp wake_wp lastPredicates_wp rec_history_mono assms)

lemma Reconcile_wp: "wp (reconcileGuard lib rc ns n) passPost (Reconcile lib rc st ns n) []"
proof -
  have "wp (reconcileGuard lib rc ns n) passPost
      (predicate (spawnObservation lib sb pods) st (predicate (recSleep lib sb) st
        (predicate (wake lib rc sb) st (lastPredicates lib rc st sb pods))))
      [(ListPods (sb_namespace sb) (SelectorLabels ComponentRunner (rc_Release rc)), RPods items),
       (GetSandbox ns n, RSandbox sb)]"
    if "\<not> deleting sb" "label sb LabelInstance = rc_Release rc" "label sb LabelName = ComponentRunner"
      "pods = filter (owns lib sb) items" for sb pods items
    using that by (intro actOn_wp) (auto simp: readBy_def listedBy_def noWrite_def)
  moreover have "owns lib sb = (\<lambda>p. case lib_getControllerOf lib (p_owners p) of
      None \<Rightarrow> False | Some ref \<Rightarrow> or_uid ref = sb_uid sb)" for sb
    by (intro ext) (simp add: owns_def split: option.splits)
  ultimately show ?thesis
    by (auto simp: Reconcile_def ownedPods_def prog_simps split: sum.splits)
qed

end
