(* ===== verification/HookProps.thy ===== *)
theory HookProps
  imports HookSpec
begin

text \<open>
  The properties of the spawn-runner hook, each over every run: any template file, any answers
  of the API server, any interference of other writers between two calls. A run is a program
  fed with a list of responses; \<open>issuedAt\<close> pairs each call with the history before it.
\<close>

section \<open>A sample run\<close>

definition sampleHook :: hook where
  "sampleHook = \<lparr>hk_Config = \<lparr>cf_Release = ''rel'', cf_Namespace = ''ns'', cf_TemplatePath = ''/t'',
     cf_WorkspaceMountPath = ''/home/runner'', cf_BaseDir = ''/home/runner/workspace'',
     cf_TerminationGracePeriodSeconds = 120, cf_HookTimeoutSeconds = 30, cf_MaxActiveSessions = 1\<rparr>,
     hk_MaxAttempts = 0\<rparr>"

definition sampleRequest :: spawnRequest where
  "sampleRequest = \<lparr>rq_OrderID = ''o2'', rq_SessionID = ''S-1'', rq_SessionUUID = [], rq_Attempt = 2,
     rq_AccountID = ''acc'', rq_WorkOrder = ''jwt''\<rparr>"

text \<open>The session's Sandbox, running order \<open>o1\<close> of attempt 1.\<close>

definition sampleRunning :: sandbox where
  "sampleRunning = sampleLive\<lparr>
     sb_labels := (sb_labels sampleLive)(LabelSessionID \<mapsto> LabelValue ''S-1''),
     sb_annotations := [AnnotationLastOrderID \<mapsto> ''o1'', AnnotationLastOrderAttempt \<mapsto> ''1'',
       AnnotationAppliedSpawn \<mapsto> ''o1'']\<rparr>"

lemma sample_ident: "requestIdentity sampleHook sampleRequest = sampleIdentity"
    "requestIdentity (sampleHook\<lparr>hk_MaxAttempts := n\<rparr>) sampleRequest = sampleIdentity"
    "hookContract sampleHook = sampleContract"
    "hookContract (sampleHook\<lparr>hk_MaxAttempts := n\<rparr>) = sampleContract"
    "cf_TemplatePath (hk_Config (sampleHook\<lparr>hk_MaxAttempts := n\<rparr>)) = ''/t''"
  by (simp_all add: requestIdentity_def sampleHook_def sampleRequest_def sampleIdentity_def
      hookContract_def sampleContract_def)

lemma sample_fields: "cf_Release (hk_Config sampleHook) = ''rel''" "rq_SessionID sampleRequest = ''S-1''"
    "rq_OrderID sampleRequest = ''o2''" "rq_WorkOrder sampleRequest = ''jwt''" "rq_Attempt sampleRequest = 2"
  by (simp_all add: sampleHook_def sampleRequest_def)

lemma sampleRequest_valid: "validRequest sampleRequest"
  by (simp add: validRequest_def sampleRequest_def orderIDPattern_def asciiAlnum_def isLowerRune_def
      isDigitRune_def byte_def inInt64_def minInt64_def maxInt64_def ContainsAny_def)

lemma sampleLib_Optimistic:
  "sb_uid orig \<noteq> [] \<Longrightarrow> sb_resourceVersion orig \<noteq> [] \<Longrightarrow> \<exists>p. Optimistic sampleLib orig mut = Inr p"
  by (simp add: Optimistic_def sampleLib_def sampleMarshal_def)

lemma parseAttempt_1: "parseAttempt ''1'' = Some 1"
  by code_simp

lemma sample_evaluate: "evaluate sampleRunning sampleRequest ''rel'' = Inr DecisionNewer"
  by (simp add: evaluate_def Let_def deleting_def sampleRunning_def sampleRequest_def sampleLive_def
      sampleTemplate_def PartOf_def parseAttempt_1)

lemma sample_holdsSlot: "holdsSlot sampleRunning"
  by (simp add: holdsSlot_def deleting_def sampleRunning_def sampleLive_def sampleTemplate_def)

lemma sample_parse: "ParseTemplate sampleLib ''yaml'' = Inr sampleTemplate"
  by (simp add: ParseTemplate_def sampleLib_def sampleTemplate_def GroupVersion_def)

lemma sample_start:
  "Run sampleLib sampleHook sampleRequest = runSession sampleLib (sampleHook\<lparr>hk_MaxAttempts := 12\<rparr>) sampleRequest"
  by (simp add: Run_def sampleRequest_def sampleHook_def DefaultMaxAttempts_def)

lemma sample_template:
  "hookTemplate sampleLib (sampleHook\<lparr>hk_MaxAttempts := n\<rparr>) sampleIdentity
     = Call (ReadFile ''/t'') (\<lambda>r. bindP (case asBytes r of Inl e \<Rightarrow> Ret (Inl (ReadFailed e))
          | Inr raw \<Rightarrow> Ret (ParseTemplate sampleLib raw)) (\<lambda>x. case x of
            Inl e \<Rightarrow> Ret (Inl (nonRetryable (BadTemplate e)))
          | Inr tmpl \<Rightarrow> (case ApplyContract sampleIdentity sampleContract tmpl of
              Inl e \<Rightarrow> Ret (Inl (nonRetryable (BadTemplate e))) | Inr t \<Rightarrow> Ret (Inr t))))"
  unfolding hookTemplate_def LoadTemplate_def request_def hookContract_def [symmetric] sample_ident
  by simp

lemma sample_loop:
  "sessionLoop lib hk req t 12 0 = bindP (sessionAttempt lib hk req t 0) (\<lambda>x. case x of
     Continue \<Rightarrow> sessionLoop lib hk req t 11 (Suc 0) | Return r \<Rightarrow> Ret r)"
  using sessionLoop.simps(2) [of lib hk req t 11 0] by simp

text \<open>The template is read, the Sandbox is read, the Secret created, the patch accepted.\<close>

definition sampleResponses :: "resp list" where
  "sampleResponses = [RBytes ''yaml'', RSandbox sampleRunning, ROk, RTime 0, ROk]"

lemma sample_run:
  "\<exists>t pt p. ApplyContract sampleIdentity sampleContract sampleTemplate = Inr t \<and>
     (let mut = acceptNewer sampleRunning sampleRequest (orderSecretName sampleHook sampleRunning sampleRequest) 0 pt;
          se = workOrderSecret sampleRunning (sb_labels t) sampleRequest
                 (orderSecretName sampleHook sampleRunning sampleRequest)
      in run (Run sampleLib sampleHook sampleRequest) sampleResponses =
        ([(ReadFile ''/t'', RBytes ''yaml''), (GetSandbox (sb_namespace t) (sb_name t), RSandbox sampleRunning),
          (CreateSecret se, ROk), (Now, RTime 0), (PatchSandbox sampleRunning mut p, ROk)], Some (Inr ())))"
proof -
  obtain t where t: "ApplyContract sampleIdentity sampleContract sampleTemplate = Inr t"
    using sample_accepted by blast
  have "namesSecret (sb_podTemplate t)"
    using ApplyContract_meets [OF t] by (auto simp: namesSecret_def meetsContract_def)
  then obtain pt where pt: "refreshedTemplate sampleRunning (sb_podTemplate t) = Some pt"
    using refreshedTemplate_Some by blast
  let ?n = "orderSecretName sampleHook sampleRunning sampleRequest"
  obtain p where p: "Optimistic sampleLib sampleRunning (acceptNewer sampleRunning sampleRequest ?n 0 pt) = Inr p"
    using sampleLib_Optimistic [of sampleRunning] by (auto simp: sampleRunning_def sampleLive_def)
  let ?hk = "sampleHook\<lparr>hk_MaxAttempts := 12\<rparr>"
  have n: "orderSecretName ?hk sampleRunning sampleRequest = ?n" by (simp add: orderSecretName_def)
  have rec: "reconcileExisting sampleLib ?hk sampleRunning t sampleRequest
      = publishNewer sampleLib ?hk sampleRunning t sampleRequest"
    using sample_evaluate
    by (simp add: reconcileExisting_def sampleHook_def checkCapacity_def sample_holdsSlot thenP_def)
  have "run (Run sampleLib sampleHook sampleRequest) sampleResponses =
        ([(ReadFile ''/t'', RBytes ''yaml''), (GetSandbox (sb_namespace t) (sb_name t), RSandbox sampleRunning),
          (CreateSecret (workOrderSecret sampleRunning (sb_labels t) sampleRequest ?n), ROk), (Now, RTime 0),
          (PatchSandbox sampleRunning (acceptNewer sampleRunning sampleRequest ?n 0 pt) p, ROk)], Some (Inr ()))"
    unfolding sample_start runSession_def sample_ident sample_template sampleResponses_def
    by (simp add: thenP_def asBytes_def sample_parse t sample_loop sessionAttempt_def backoff_def request_def
        asSandbox_def afterRead_def rec publishNewer_def n Let_def ensureSecret_def asOk_def pt asTime_def
        hookPatch_def p)
  with t show ?thesis by auto
qed

lemma run_issuedAt:
  "run p rs = (tr, y) \<Longrightarrow> i < length tr \<Longrightarrow> (rev (take i tr) @ h, fst (tr ! i)) \<in> set (issuedAt p h rs)"
proof (induction p rs arbitrary: h tr i rule: run.induct)
  case (3 c k r rs)
  then obtain tr' where tr: "run (k r) rs = (tr', y)" "tr = (c, r) # tr'" by (auto split: prod.splits)
  then show ?case using 3 by (cases i) auto
qed auto

lemma sample_issued:
  "\<exists>h pt p. (h, PatchSandbox sampleRunning (acceptNewer sampleRunning sampleRequest
       (orderSecretName sampleHook sampleRunning sampleRequest) 0 pt) p)
     \<in> set (issuedAt (Run sampleLib sampleHook sampleRequest) [] sampleResponses)"
  "\<exists>h se. (h, CreateSecret se) \<in> set (issuedAt (Run sampleLib sampleHook sampleRequest) [] sampleResponses)"
  "result (Run sampleLib sampleHook sampleRequest) sampleResponses = Some (Inr ())"
proof -
  let ?n = "orderSecretName sampleHook sampleRunning sampleRequest"
  obtain tr se pt p where r: "run (Run sampleLib sampleHook sampleRequest) sampleResponses = (tr, Some (Inr ()))"
      and tr: "length tr = 5" "fst (tr ! 2) = CreateSecret se"
        "fst (tr ! 4) = PatchSandbox sampleRunning (acceptNewer sampleRunning sampleRequest ?n 0 pt) p"
    using sample_run by (auto simp: Let_def)
  show "\<exists>h pt p. (h, PatchSandbox sampleRunning (acceptNewer sampleRunning sampleRequest ?n 0 pt) p)
      \<in> set (issuedAt (Run sampleLib sampleHook sampleRequest) [] sampleResponses)"
    using run_issuedAt [OF r, of 4 "[]"] tr(1,3) by auto
  show "\<exists>h se. (h, CreateSecret se) \<in> set (issuedAt (Run sampleLib sampleHook sampleRequest) [] sampleResponses)"
    using run_issuedAt [OF r, of 2 "[]"] tr(1,2) by auto
  show "result (Run sampleLib sampleHook sampleRequest) sampleResponses = Some (Inr ())"
    using r by (simp add: result_def)
qed

text \<open>The run of a new session: the Sandbox is absent, nothing else holds a slot.\<close>

definition createResponses :: "resp list" where
  "createResponses = [RBytes ''yaml'', RErr NotFound, RSandboxes [], RTime 0]"

lemma sample_create:
  "\<exists>h t. (h, CreateSandbox (newSandbox t sampleRequest 0))
     \<in> set (issuedAt (Run sampleLib sampleHook sampleRequest) [] createResponses) \<and> sb_deletionTimestamp t = None"
proof -
  obtain t where t: "ApplyContract sampleIdentity sampleContract sampleTemplate = Inr t"
    using sample_accepted by blast
  then have d: "sb_deletionTimestamp t = None" by (simp add: ApplyContract_result sampleTemplate_def)
  let ?hk = "sampleHook\<lparr>hk_MaxAttempts := 12\<rparr>"
  have cap: "checkCapacity ?hk None n = bindP (request asSandboxes (ListSandboxes ''ns'' (SelectorLabels ComponentRunner ''rel'')))
      (\<lambda>x. case x of Inl e \<Rightarrow> Ret (Inl (classifyAPIError ''listing Sandboxes for the active-session cap'' e))
        | Inr items \<Rightarrow> (let active = activeOthers n items in
           if int active < 1 then Ret (Inr ()) else Ret (Inl (retryable (AtCapacity active 1)))))" for n
    by (simp add: checkCapacity_def sampleHook_def Let_def cong: sum.case_cong)
  show ?thesis
    unfolding sample_start runSession_def sample_ident sample_template createResponses_def
    by (simp add: thenP_def asBytes_def sample_parse t sample_loop sessionAttempt_def backoff_def request_def
        asSandbox_def createPath_def cap asSandboxes_def activeOthers_def createSandbox_def asTime_def) (use d in blast)
qed

section \<open>The calls of a run\<close>

lemma Run_guard:
  "validRequest req \<Longrightarrow> (h, c) \<in> set (issuedAt (Run lib hk req) [] rs) \<Longrightarrow> runGuard lib hk req h c"
  by (rule wp_issuedAt [OF Run_wp])

lemma Run_patchE:
  assumes "validRequest req" and "(h, PatchSandbox orig mut doc) \<in> set (issuedAt (Run lib hk req) [] rs)"
  obtains tmpl where "loaded lib hk req h tmpl" and "received h orig" and "Optimistic lib orig mut = Inr doc"
    and "secretReady h (hookSecret hk tmpl req orig)"
    and "pointsAt (orderSecretName hk orig req) orig mut"
    and "acceptGuard lib hk req h orig mut \<or> legalPatch (cf_Release (hk_Config hk)) orig (Repair (rq_OrderID req)) mut"
  using Run_guard [OF assms] by (auto simp: runGuard_def hookGuard_def)

text \<open>
  C11: Every patch the hook sends is computed from a Sandbox it has read or created, carries
  that object's UID and resourceVersion as preconditions, leaves name, labels, conditions and
  the rest of the object alone, and is a step of the session contract: it accepts the request's
  order with a higher attempt than the accepted one, or completes the pointers of the order that
  is already the accepted one.
\<close>

theorem hook_patches_are_steps:
  assumes "validRequest req" and "(h, PatchSandbox orig mut doc) \<in> set (issuedAt (Run lib hk req) [] rs)"
  shows "RSandbox orig \<in> snd ` set h \<and>
     pinOf doc ''uid'' = Some (JStr (sb_uid orig)) \<and>
     pinOf doc ''resourceVersion'' = Some (JStr (sb_resourceVersion orig)) \<and>
     (\<exists>a \<in> {Accept (rq_OrderID req) (rq_Attempt req), Repair (rq_OrderID req)}.
        legalPatch (cf_Release (hk_Config hk)) orig a mut)"
  using Run_patchE [OF assms] Optimistic_pins
  by (smt (verit) acceptGuard_def insertI1 insertI2 received_def)

theorem hook_patches_are_steps_witness:
  "\<exists>h mut doc. (h, PatchSandbox sampleRunning mut doc)
       \<in> set (issuedAt (Run sampleLib sampleHook sampleRequest) [] sampleResponses) \<and>
     pinOf doc ''uid'' = Some (JStr (sb_uid sampleRunning)) \<and>
     (\<exists>a. legalPatch ''rel'' sampleRunning a mut)"
proof -
  obtain h mut doc where i: "(h, PatchSandbox sampleRunning mut doc)
      \<in> set (issuedAt (Run sampleLib sampleHook sampleRequest) [] sampleResponses)"
    using sample_issued(1) by blast
  from hook_patches_are_steps [OF sampleRequest_valid i] i show ?thesis by (auto simp: sample_fields)
qed

text \<open>
  C14: The Secret comes first: when a patch changes the pending or the last-order Secret
  pointer, it points it at the name derived from release, session, Sandbox UID and order, and
  the history shows that Secret created, or found immutable, with the same work order and order
  identity, and owned by that Sandbox.
\<close>

theorem hook_secret_before_pointer:
  assumes "validRequest req" and "(h, PatchSandbox orig mut doc) \<in> set (issuedAt (Run lib hk req) [] rs)"
    and "k = AnnotationPendingSecret \<or> k = AnnotationLastOrderSecret" and "annot mut k \<noteq> annot orig k"
  shows "annot mut k = orderSecretName hk orig req \<and>
     (\<exists>labels. secretReady h (workOrderSecret orig labels req (annot mut k)))"
proof -
  let ?name = "orderSecretName hk orig req"
  obtain tmpl where s: "secretReady h (hookSecret hk tmpl req orig)"
      and p: "pointsAt ?name orig mut"
      and g: "acceptGuard lib hk req h orig mut \<or>
        legalPatch (cf_Release (hk_Config hk)) orig (Repair (rq_OrderID req)) mut"
    using assms(1,2) by (rule Run_patchE)
  have k: "annot mut k = ?name" using p assms(3,4) by (auto simp: pointsAt_def)
  then have "hookSecret hk tmpl req orig = workOrderSecret orig (sb_labels tmpl) req (annot mut k)"
    by (simp add: hookSecret_def)
  with s k show ?thesis by metis
qed

theorem hook_secret_before_pointer_witness:
  "\<exists>h mut doc. (h, PatchSandbox sampleRunning mut doc)
       \<in> set (issuedAt (Run sampleLib sampleHook sampleRequest) [] sampleResponses) \<and>
     annot mut AnnotationPendingSecret = orderSecretName sampleHook sampleRunning sampleRequest \<and>
     (\<exists>labels. secretReady h (workOrderSecret sampleRunning labels sampleRequest (annot mut AnnotationPendingSecret)))"
proof -
  let ?n = "orderSecretName sampleHook sampleRunning sampleRequest"
  obtain h pt doc where i: "(h, PatchSandbox sampleRunning (acceptNewer sampleRunning sampleRequest ?n 0 pt) doc)
      \<in> set (issuedAt (Run sampleLib sampleHook sampleRequest) [] sampleResponses)"
    using sample_issued(1) by blast
  have "annot (acceptNewer sampleRunning sampleRequest ?n 0 pt) AnnotationPendingSecret
      \<noteq> annot sampleRunning AnnotationPendingSecret"
    by (simp add: acceptNewer_def sampleRunning_def orderSecretName_def)
  with hook_secret_before_pointer [OF sampleRequest_valid i, of AnnotationPendingSecret] i show ?thesis by blast
qed

text \<open>The Sandbox a call makes take an active slot it did not hold.\<close>

definition takesSlot :: "call \<Rightarrow> string option" where
  "takesSlot c = (case c of CreateSandbox sb \<Rightarrow> (if holdsSlot sb then Some (sb_name sb) else None)
     | PatchSandbox orig mut _ \<Rightarrow> (if holdsSlot mut \<and> \<not> holdsSlot orig then Some (sb_name orig) else None)
     | _ \<Rightarrow> None)"

lemma repair_keeps_slot: "legalPatch rel orig (Repair n) mut \<Longrightarrow> holdsSlot mut \<Longrightarrow> holdsSlot orig"
  by (auto simp: legalPatch_def holdsSlot_def deleting_def samePart_def sessionOf_def elim!: lifecycle.cases)

text \<open>
  C19: The cap on active sessions is honoured: whenever a write of the hook makes a Sandbox
  take a slot, the cap is off or a listing of the release's Sandboxes showed fewer other
  slot holders than the cap.
\<close>

theorem hook_admission:
  assumes "validRequest req" and "(h, c) \<in> set (issuedAt (Run lib hk req) [] rs)" and "takesSlot c = Some name"
  shows "admitted hk name h"
proof -
  obtain tmpl where g: "hookGuard lib hk tmpl req h c"
    using Run_guard [OF assms(1,2)] assms(3) by (auto simp: runGuard_def takesSlot_def)
  show ?thesis
  proof (cases c)
    case (CreateSandbox sb)
    with g assms(3) show ?thesis
      by (auto simp: hookGuard_def takesSlot_def newSandbox_def split: if_splits)
  next
    case (PatchSandbox orig mut doc)
    with g assms(3) show ?thesis
      by (auto simp: hookGuard_def takesSlot_def acceptGuard_def split: if_splits dest: repair_keeps_slot)
  qed (use assms(3) in \<open>auto simp: takesSlot_def\<close>)
qed

lemma newSandbox_holdsSlot: "validRequest req \<Longrightarrow> sb_deletionTimestamp tmpl = None \<Longrightarrow> holdsSlot (newSandbox tmpl req now)"
  using validRequest_order [of req] by (simp add: holdsSlot_def deleting_def newSandbox_def)

theorem hook_admission_witness:
  "\<exists>h sb. (h, CreateSandbox sb) \<in> set (issuedAt (Run sampleLib sampleHook sampleRequest) [] createResponses) \<and>
     admitted sampleHook (sb_name sb) h"
proof -
  obtain h t where i: "(h, CreateSandbox (newSandbox t sampleRequest 0))
      \<in> set (issuedAt (Run sampleLib sampleHook sampleRequest) [] createResponses)"
      and t: "sb_deletionTimestamp t = None"
    using sample_create by blast
  have "takesSlot (CreateSandbox (newSandbox t sampleRequest 0)) = Some (sb_name (newSandbox t sampleRequest 0))"
    using newSandbox_holdsSlot [OF sampleRequest_valid t] by (simp add: takesSlot_def)
  from hook_admission [OF sampleRequest_valid i this] i show ?thesis by blast
qed

text \<open>
  The hook creates a Sandbox only after the API server reported it absent; the Sandbox
  has the session's name in the configured namespace, belongs to the release, starts suspended
  and carries the request's order as pending and as last accepted order, at its attempt, with no
  order applied yet.
\<close>

theorem hook_creates_pending:
  assumes "validRequest req" and "(h, CreateSandbox sb) \<in> set (issuedAt (Run lib hk req) [] rs)"
  shows "(GetSandbox (sb_namespace sb) (sb_name sb), RErr NotFound) \<in> set h \<and>
     sb_name sb = SandboxName (cf_Release (hk_Config hk)) (rq_SessionID req) \<and>
     sb_namespace sb = cf_Namespace (hk_Config hk) \<and> label sb LabelInstance = cf_Release (hk_Config hk) \<and>
     created (sessionOf sb) \<and> s_lastID (sessionOf sb) = rq_OrderID req \<and>
     s_lastAttempt (sessionOf sb) = Some (rq_Attempt req)"
proof -
  obtain tmpl now where l: "loaded lib hk req h tmpl" and sb: "sb = newSandbox tmpl req now"
      and n: "(GetSandbox (sb_namespace tmpl) (sb_name tmpl), RErr NotFound) \<in> set h"
    using Run_guard [OF assms] by (auto simp: runGuard_def hookGuard_def)
  obtain t where "ApplyContract (requestIdentity hk req) (hookContract hk) t = Inr tmpl"
    using l by (auto simp: loaded_def)
  from ApplyContract_meets [OF this] have m: "sb_name tmpl = SandboxName (cf_Release (hk_Config hk)) (rq_SessionID req)"
      "sb_namespace tmpl = cf_Namespace (hk_Config hk)" "label tmpl LabelInstance = cf_Release (hk_Config hk)"
    by (simp_all add: meetsContract_def requestIdentity_def)
  have "sb_name sb = sb_name tmpl" "sb_namespace sb = sb_namespace tmpl" "sb_labels sb = sb_labels tmpl"
    by (simp_all add: sb newSandbox_def)
  then show ?thesis using n m created_newSandbox [OF assms(1), of tmpl now] by (simp add: sb)
qed

theorem hook_creates_pending_witness:
  "\<exists>h sb. (h, CreateSandbox sb) \<in> set (issuedAt (Run sampleLib sampleHook sampleRequest) [] createResponses) \<and>
     sb_name sb = SandboxName ''rel'' ''S-1'' \<and> s_pending (sessionOf sb) = ''o2''"
proof -
  obtain h sb where i: "(h, CreateSandbox sb)
      \<in> set (issuedAt (Run sampleLib sampleHook sampleRequest) [] createResponses)"
    using sample_create by blast
  from hook_creates_pending [OF sampleRequest_valid i]
  have "sb_name sb = SandboxName ''rel'' ''S-1''" "s_pending (sessionOf sb) = ''o2''"
    by (auto simp: sample_fields created_def)
  with i show ?thesis by blast
qed

text \<open>
  C24: A Secret the hook creates belongs to a Sandbox it has read or created, that is not being
  deleted and that carries this release and session: its name is derived from release, session,
  Sandbox UID and order, it is immutable, holds the work order, names the order, the attempt and
  the session, and its one owner is that Sandbox.
\<close>

theorem hook_secrets_owned:
  assumes "validRequest req" and "(h, CreateSecret se) \<in> set (issuedAt (Run lib hk req) [] rs)"
  shows "\<exists>sb. RSandbox sb \<in> snd ` set h \<and> \<not> deleting sb \<and> label sb LabelInstance = cf_Release (hk_Config hk) \<and>
     label sb LabelSessionID = LabelValue (rq_SessionID req) \<and>
     se_name se = WorkOrderSecretName (cf_Release (hk_Config hk)) (rq_SessionID req) (sb_uid sb) (rq_OrderID req) \<and>
     se_immutable se = Some True \<and> se_data se = [WorkOrderSecretKey \<mapsto> rq_WorkOrder req] \<and>
     mget (se_annotations se) AnnotationOrderID = rq_OrderID req \<and>
     mget (se_annotations se) AnnotationOrderAttempt = FormatInt (rq_Attempt req) \<and>
     mget (se_annotations se) AnnotationSessionID = rq_SessionID req \<and> map or_uid (se_owners se) = [sb_uid sb]"
proof -
  obtain tmpl sb d where r: "received h sb" and e: "evaluate sb req (cf_Release (hk_Config hk)) = Inr d"
      and se: "se = hookSecret hk tmpl req sb"
    using Run_guard [OF assms] by (auto simp: runGuard_def hookGuard_def)
  show ?thesis
    using r e unfolding se
    by (intro exI [of _ sb]) (auto simp: received_def hookSecret_def workOrderSecret_def orderSecretName_def
        elim: evaluate_InrE)
qed

theorem hook_secrets_owned_witness:
  "\<exists>h se. (h, CreateSecret se) \<in> set (issuedAt (Run sampleLib sampleHook sampleRequest) [] sampleResponses) \<and>
     se_data se = [WorkOrderSecretKey \<mapsto> ''jwt'']"
proof -
  obtain h se where i: "(h, CreateSecret se)
      \<in> set (issuedAt (Run sampleLib sampleHook sampleRequest) [] sampleResponses)"
    using sample_issued(2) by blast
  from hook_secrets_owned [OF sampleRequest_valid i] have "se_data se = [WorkOrderSecretKey \<mapsto> ''jwt'']"
    by (auto simp: sample_fields)
  with i show ?thesis by blast
qed

section \<open>Exit codes and termination\<close>

text \<open>
  Whatever happens, the process exits with code 0, 1 or 2, no run ends in a bare API error
  or a nil dereference, and it exits 0 only when the order is settled: a higher attempt was
  accepted before, or the order's Secret exists and the Sandbox's pointers lead to it, either
  because they already did or because the API server accepted the patch.
\<close>

theorem hook_exit_codes:
  assumes "validRequest req" and "result (Run lib hk req) rs = Some x"
  shows "ExitCodeFor x \<in> {ExitSubmitted, ExitRetryable, ExitNonRetryable} \<and>
     (case x of
        Inl e \<Rightarrow> (\<exists>r. e = ExitError (ExitCodeFor x) r) \<and> ExitCodeFor x \<noteq> ExitSubmitted
      | Inr _ \<Rightarrow> ExitCodeFor x = ExitSubmitted \<and>
          (\<exists>tmpl. loaded lib hk req (finalHistory (Run lib hk req) rs) tmpl \<and>
                  settled hk tmpl req (finalHistory (Run lib hk req) rs)))"
  using wp_final [OF Run_wp [OF assms(1)] assms(2)]
  by (auto simp: outcome_def exits_def ExitCodeFor_def ExitRetryable_def ExitNonRetryable_def ExitSubmitted_def
      split: sum.splits)

theorem hook_exit_codes_witness:
  "result (Run sampleLib sampleHook sampleRequest) sampleResponses = Some (Inr ()) \<and>
   ExitCodeFor (Inr ()) = ExitSubmitted \<and>
   (\<exists>tmpl. settled sampleHook tmpl sampleRequest (finalHistory (Run sampleLib sampleHook sampleRequest) sampleResponses))"
  using hook_exit_codes [OF sampleRequest_valid sample_issued(3)] sample_issued(3) by auto

lemma calls_Run:
  "callsWithin (Run lib hk req) (1 + 10 * nat (if hk_MaxAttempts hk = 0 then DefaultMaxAttempts else hk_MaxAttempts hk))"
  using calls_runSession [of lib hk req] calls_runSession [of lib "hk\<lparr>hk_MaxAttempts := DefaultMaxAttempts\<rparr>" req]
  by (simp add: Run_def Let_def)

text \<open>
  C28: The hook ends: it issues at most ten calls per attempt and one to read the template, 121
  with the default number of attempts, and once as many responses have arrived it has returned.
\<close>

theorem hook_terminates:
  assumes "n = 1 + 10 * nat (if hk_MaxAttempts hk = 0 then DefaultMaxAttempts else hk_MaxAttempts hk)"
    and "n \<le> length rs"
  shows "length (issued (Run lib hk req) rs) \<le> n \<and> (\<exists>x. result (Run lib hk req) rs = Some x)"
  using callsWithin_issued [OF calls_Run] callsWithin_result [OF calls_Run] assms by simp

theorem hook_terminates_witness:
  "length (issued (Run sampleLib sampleHook sampleRequest) (replicate 121 (RErr Conflict))) \<le> 121 \<and>
   (\<exists>x. result (Run sampleLib sampleHook sampleRequest) (replicate 121 (RErr Conflict)) = Some x)"
  by (rule hook_terminates) (simp_all add: sampleHook_def DefaultMaxAttempts_def)

section \<open>Redelivery and supersession\<close>

text \<open>
  The decision on a request: only for a live Sandbox of this release and session whose
  accepted attempt is readable, and then redelivery exactly for the accepted order id, superseded
  exactly for another id at a lower attempt, newer exactly for another id at a higher attempt;
  another id at the same attempt is refused.
\<close>

theorem evaluate_iff:
  "evaluate sb req release = Inr d \<longleftrightarrow>
     \<not> deleting sb \<and> label sb LabelPartOf = PartOf \<and> label sb LabelInstance = release \<and>
     label sb LabelSessionID = LabelValue (rq_SessionID req) \<and>
     (\<exists>m. parseAttempt (annot sb AnnotationLastOrderAttempt) = Some m \<and>
        (d, rq_OrderID req = annot sb AnnotationLastOrderID, sgn (rq_Attempt req - m)) \<in>
          {(DecisionSuperseded, False, -1), (DecisionNewer, False, 1)} \<union>
          {DecisionRedelivery} \<times> {True} \<times> {-1, 0, 1})"
proof (cases "parseAttempt (annot sb AnnotationLastOrderAttempt)")
  case None
  then show ?thesis by (simp add: evaluate_def Let_def)
next
  case (Some m)
  have "sgn (rq_Attempt req - m) = (if rq_Attempt req < m then -1 else if rq_Attempt req = m then 0 else 1)"
    by (simp add: sgn_if)
  with Some show ?thesis by (cases d) (auto simp: evaluate_def Let_def)
qed

text \<open>The API server's answer: the object with its UID and a new version.\<close>

definition asStored :: "sandbox \<Rightarrow> string \<Rightarrow> string \<Rightarrow> sandbox" where
  "asStored sb uid rv = sb\<lparr>sb_uid := uid, sb_resourceVersion := rv\<rparr>"

lemma evaluate_redelivery:
  assumes "\<not> deleting sb" and "label sb LabelPartOf = PartOf" and "label sb LabelInstance = release"
    and "label sb LabelSessionID = LabelValue (rq_SessionID req)"
    and "annot sb AnnotationLastOrderID = rq_OrderID req"
    and "annot sb AnnotationLastOrderAttempt = FormatInt (rq_Attempt req)" and "inInt64 (rq_Attempt req)"
  shows "evaluate sb req release = Inr DecisionRedelivery"
  using assms by (simp add: evaluate_def Let_def)

text \<open>
  At-least-once delivery is harmless: on the Sandbox as the hook left it after accepting an
  order, or after creating it and repairing its pointers, the same request is a redelivery with
  nothing left to change.
\<close>

theorem redelivery_idempotent:
  assumes "validRequest req" and "evaluate sb req release = Inr DecisionNewer" and "release = cf_Release (hk_Config hk)"
    and "mut = asStored (acceptNewer sb req (orderSecretName hk sb req) now pt) (sb_uid sb) rv"
  shows "evaluate mut req release = Inr DecisionRedelivery \<and>
     orderSecretName hk mut req = orderSecretName hk sb req \<and>
     repairPointers req (orderSecretName hk mut req) mut = Inr (mut, False)"
proof -
  have n: "orderSecretName hk mut req = orderSecretName hk sb req"
    by (simp add: orderSecretName_def assms(4) asStored_def)
  have "\<not> deleting sb \<and> label sb LabelPartOf = PartOf \<and> label sb LabelInstance = release \<and>
      label sb LabelSessionID = LabelValue (rq_SessionID req)"
    using assms(2) by (auto elim: evaluate_InrE)
  then have "evaluate mut req release = Inr DecisionRedelivery"
    using assms(1) by (intro evaluate_redelivery)
      (simp_all add: assms(4) asStored_def acceptNewer_def deleting_def validRequest_def)
  moreover have "orderSecretName hk sb req \<noteq> []" by (simp add: orderSecretName_def)
  then have "repairPointers req (orderSecretName hk mut req) mut = Inr (mut, False)"
    unfolding n by (simp add: repairPointers_def Let_def assms(4) asStored_def acceptNewer_def)
  ultimately show ?thesis using n by simp
qed

theorem redelivery_idempotent_witness:
  "\<exists>mut. repairPointers sampleRequest (orderSecretName sampleHook mut sampleRequest) mut = Inr (mut, False) \<and>
     evaluate mut sampleRequest ''rel'' = Inr DecisionRedelivery"
  using redelivery_idempotent [OF sampleRequest_valid sample_evaluate sample_fields(1) [symmetric] refl, of 0 samplePodTemplate "''8''"]
  by blast

text \<open>
  A run that finds the Sandbox: the template is read, the Sandbox is read, and the rest is what
  is done with the existing Sandbox.
\<close>

lemma reconcileExisting_MaxAttempts: "reconcileExisting lib (hk\<lparr>hk_MaxAttempts := n\<rparr>) = reconcileExisting lib hk"
proof -
  have n: "orderSecretName (hk\<lparr>hk_MaxAttempts := n\<rparr>) = orderSecretName hk" by (intro ext) (simp add: orderSecretName_def)
  have c: "hk_Config (hk\<lparr>hk_MaxAttempts := n\<rparr>) = hk_Config hk" by simp
  have "repairRedelivery lib (hk\<lparr>hk_MaxAttempts := n\<rparr>) = repairRedelivery lib hk"
      "publishNewer lib (hk\<lparr>hk_MaxAttempts := n\<rparr>) = publishNewer lib hk"
      "checkCapacity (hk\<lparr>hk_MaxAttempts := n\<rparr>) = checkCapacity hk"
    by (intro ext, simp only: repairRedelivery_def publishNewer_def checkCapacity_def n c)+
  then show ?thesis by (intro ext) (simp only: reconcileExisting_def c)
qed

lemma Run_reads:
  assumes "rq_SessionID req \<noteq> []" and "0 \<le> hk_MaxAttempts hk"
    and "ParseTemplate lib raw = Inr t" and "ApplyContract (requestIdentity hk req) (hookContract hk) t = Inr tmpl"
    and "run (reconcileExisting lib hk sb tmpl req) rs = (tr, Some (Inr True))"
  shows "run (Run lib hk req) (RBytes raw # RSandbox sb # rs) =
     ((ReadFile (cf_TemplatePath (hk_Config hk)), RBytes raw) # (GetSandbox (sb_namespace tmpl) (sb_name tmpl), RSandbox sb) # tr,
      Some (Inr ()))"
proof -
  define hk' where "hk' = (if hk_MaxAttempts hk = 0 then hk\<lparr>hk_MaxAttempts := DefaultMaxAttempts\<rparr> else hk)"
  have c: "hk_Config hk' = hk_Config hk" "requestIdentity hk' req = requestIdentity hk req"
      "hookContract hk' = hookContract hk" "reconcileExisting lib hk' = reconcileExisting lib hk"
    by (simp_all add: hk'_def requestIdentity_def hookContract_def reconcileExisting_MaxAttempts)
  obtain n where n: "nat (hk_MaxAttempts hk') = Suc n"
    using assms(2) by (cases "nat (hk_MaxAttempts hk')") (auto simp: hk'_def DefaultMaxAttempts_def split: if_splits)
  have start: "Run lib hk req = runSession lib hk' req" using assms(1) by (simp add: Run_def hk'_def)
  have tmpl: "hookTemplate lib hk' (requestIdentity hk req) = Call (ReadFile (cf_TemplatePath (hk_Config hk)))
      (\<lambda>r. bindP (case asBytes r of Inl e \<Rightarrow> Ret (Inl (ReadFailed e)) | Inr raw \<Rightarrow> Ret (ParseTemplate lib raw))
        (\<lambda>x. case x of Inl e \<Rightarrow> Ret (Inl (nonRetryable (BadTemplate e)))
          | Inr tmpl \<Rightarrow> (case ApplyContract (requestIdentity hk req) (hookContract hk) tmpl of
              Inl e \<Rightarrow> Ret (Inl (nonRetryable (BadTemplate e))) | Inr t \<Rightarrow> Ret (Inr t))))"
    unfolding hookTemplate_def LoadTemplate_def request_def hookContract_def [symmetric] c by simp
  show ?thesis
    unfolding start runSession_def c tmpl
    by (simp add: thenP_def asBytes_def assms(3,4) n sessionAttempt_def backoff_def request_def bindP_assoc
        asSandbox_def afterRead_def c run_bindP [OF assms(5)])
qed

text \<open>
  A request the accepted order supersedes is acknowledged without any write: the run reads
  the template and the Sandbox and exits 0.
\<close>

theorem superseded_writes_nothing:
  assumes "rq_SessionID req \<noteq> []" and "0 \<le> hk_MaxAttempts hk"
    and "ParseTemplate lib raw = Inr t" and "ApplyContract (requestIdentity hk req) (hookContract hk) t = Inr tmpl"
    and "evaluate sb req (cf_Release (hk_Config hk)) = Inr DecisionSuperseded"
  shows "run (Run lib hk req) [RBytes raw, RSandbox sb] =
     ([(ReadFile (cf_TemplatePath (hk_Config hk)), RBytes raw),
       (GetSandbox (sb_namespace tmpl) (sb_name tmpl), RSandbox sb)], Some (Inr ()))"
  using Run_reads [OF assms(1-4), of sb "[]" "[]"] assms(5) by (simp add: reconcileExisting_def)

definition sampleLater :: sandbox where
  "sampleLater = acceptNewer sampleRunning (sampleRequest\<lparr>rq_OrderID := ''o3'', rq_Attempt := 3\<rparr>) [] 0 samplePodTemplate"

theorem superseded_writes_nothing_witness:
  "\<exists>t :: sandbox. run (Run sampleLib sampleHook sampleRequest) [RBytes ''yaml'', RSandbox sampleLater] =
     ([(ReadFile ''/t'', RBytes ''yaml''), (GetSandbox (sb_namespace t) (sb_name t), RSandbox sampleLater)],
      Some (Inr ()))"
proof -
  obtain t where t: "ApplyContract (requestIdentity sampleHook sampleRequest) (hookContract sampleHook) sampleTemplate = Inr t"
    using sample_accepted by (auto simp: sample_ident)
  have "inInt64 3" by (simp add: inInt64_def minInt64_def maxInt64_def)
  then have e: "evaluate sampleLater sampleRequest (cf_Release (hk_Config sampleHook)) = Inr DecisionSuperseded"
    by (simp add: evaluate_def Let_def deleting_def sampleLater_def acceptNewer_def sampleRunning_def
        sampleRequest_def sampleLive_def sampleTemplate_def PartOf_def sampleHook_def)
  have p: "rq_SessionID sampleRequest \<noteq> []" "0 \<le> hk_MaxAttempts sampleHook"
      "cf_TemplatePath (hk_Config sampleHook) = ''/t''"
    by (simp_all add: sample_fields) (simp_all add: sampleHook_def)
  show ?thesis
    using superseded_writes_nothing [OF p(1,2) sample_parse t e] p(3) by (intro exI [of _ t]) simp
qed

end
