(* ===== verification/ReconcilerProps.thy ===== *)
theory ReconcilerProps
  imports ReconcilerSpec HookProps
begin

text \<open>
  The properties of the session controller's reconcile pass: the guard of every write over
  every run, and what a pass does when its conditions hold.
\<close>

section \<open>What a pass does\<close>

text \<open>The passes with one predicate that applies, as exact runs.\<close>

definition actsOn :: "reconciler \<Rightarrow> sandbox \<Rightarrow> bool" where
  "actsOn rc sb \<longleftrightarrow> \<not> deleting sb \<and> label sb LabelInstance = rc_Release rc \<and> label sb LabelName = ComponentRunner"

definition listPods :: "reconciler \<Rightarrow> sandbox \<Rightarrow> call" where
  "listPods rc sb = ListPods (sb_namespace sb) (SelectorLabels ComponentRunner (rc_Release rc))"

definition eventOf :: "sandbox \<Rightarrow> string \<Rightarrow> string \<Rightarrow> eventArg list \<Rightarrow> call" where
  "eventOf sb t rsn args = Emit \<lparr>ev_sandbox = sb_name sb, ev_type = t, ev_reason = rsn, ev_args = args\<rparr>"

lemmas pass_defs = Reconcile_def ownedPods_def predicate_def request_def asSandbox_def asPods_def
  actsOn_def listPods_def eventOf_def emit_def recPatch_def thenP_def asOk_def asTime_def asSecret_def Let_def

text \<open>An order that is pending, prepared and confirmed suspended.\<close>

definition readyToWake :: "k8sLib \<Rightarrow> reconciler \<Rightarrow> sandbox \<Rightarrow> secret \<Rightarrow> bool" where
  "readyToWake lib rc sb se \<longleftrightarrow> actsOn rc sb \<and> sb_operatingMode sb = Suspended \<and> pendingOf sb \<noteq> [] \<and>
     annot sb AnnotationPendingSecret \<noteq> [] \<and> lastOrderOf sb = pendingOf sb \<and>
     currentGenerationTrue lib sb SandboxConditionSuspended \<and>
     validateWorkOrderSecret se sb (pendingOf sb) (rc_Release rc) = Inr () \<and> hasWorkOrderVolume sb"

lemma wake_run:
  assumes "readyToWake lib rc sb se" and "Optimistic lib sb (awake sb (pendingOf sb) (annot sb AnnotationPendingSecret)) = Inr p"
  shows "run (Reconcile lib rc st ns n) [RSandbox sb, RPods [], RSecret se, ROk, ROk] =
     ([(GetSandbox ns n, RSandbox sb), (listPods rc sb, RPods []),
       (GetSecret (sb_namespace sb) (annot sb AnnotationPendingSecret), RSecret se),
       (PatchSandbox sb (awake sb (pendingOf sb) (annot sb AnnotationPendingSecret)) p, ROk),
       (eventOf sb EventTypeNormal EventWake [StrArg (pendingOf sb)], ROk)], Some (st, Inr 0))"
  using assms
  by (auto simp: pass_defs readyToWake_def spawnObservation_def matchingPod_def recSleep_def wake_def)

definition finishedRun :: "k8sLib \<Rightarrow> reconciler \<Rightarrow> sandbox \<Rightarrow> bool" where
  "finishedRun lib rc sb \<longleftrightarrow> actsOn rc sb \<and> sb_operatingMode sb = Running \<and> pendingOf sb = [] \<and>
     currentGenerationTrue lib sb SandboxConditionFinished"

lemma sleep_run:
  assumes "finishedRun lib rc sb" and "Optimistic lib sb (asleep sb now) = Inr p"
  shows "\<exists>why. run (Reconcile lib rc st ns n) [RSandbox sb, RPods pods, RTime now, ROk, ROk] =
     ([(GetSandbox ns n, RSandbox sb), (listPods rc sb, RPods pods), (Now, RTime now),
       (PatchSandbox sb (asleep sb now) p, ROk), (eventOf sb EventTypeNormal EventSleep why, ROk)], Some (st, Inr 0))"
  using assms
  by (auto simp: pass_defs finishedRun_def spawnObservation_def recSleep_def)

definition spawned :: "k8sLib \<Rightarrow> reconciler \<Rightarrow> sandbox \<Rightarrow> pod \<Rightarrow> bool" where
  "spawned lib rc sb p \<longleftrightarrow> actsOn rc sb \<and> pendingOf sb \<noteq> [] \<and> annot sb AnnotationAppliedSpawn = pendingOf sb \<and>
     owns lib sb p \<and> mget (p_annotations p) AnnotationOrderID = pendingOf sb \<and>
     annot sb AnnotationPendingSecret \<noteq> [] \<and> podWorkOrderSecret p = annot sb AnnotationPendingSecret"

lemma observe_run:
  assumes "spawned lib rc sb p" and "Optimistic lib sb (observed sb) = Inr doc"
  shows "run (Reconcile lib rc st ns n) [RSandbox sb, RPods [p], ROk, ROk] =
     ([(GetSandbox ns n, RSandbox sb), (listPods rc sb, RPods [p]), (PatchSandbox sb (observed sb) doc, ROk),
       (eventOf sb EventTypeNormal EventSpawnObserved [StrArg (p_name p), StrArg (pendingOf sb)], ROk)], Some (st, Inr 0))"
  using assms
  by (auto simp: pass_defs spawned_def owns_def spawnObservation_def matchingPod_def)

text \<open>Asleep past the maximal idle age.\<close>

definition expired :: "k8sLib \<Rightarrow> reconciler \<Rightarrow> sandbox \<Rightarrow> gotime \<Rightarrow> bool" where
  "expired lib rc sb now \<longleftrightarrow> actsOn rc sb \<and> op_GCEnabled (rc_Options rc) \<and> \<not> op_ZombieEnabled (rc_Options rc) \<and>
     (\<exists>at. idleSince lib sb = Inr (Some at) \<and> op_GCMaxIdleAge (rc_Options rc) \<le> timeSub now at)"

lemma gc_run:
  assumes "expired lib rc sb now"
  shows "\<exists>why. run (Reconcile lib rc st ns n) [RSandbox sb, RPods pods, RTime now, ROk, ROk] =
     ([(GetSandbox ns n, RSandbox sb), (listPods rc sb, RPods pods), (Now, RTime now),
       (DeleteSandbox (sb_namespace sb) (sb_name sb) (sb_uid sb) (sb_resourceVersion sb), ROk),
       (eventOf sb EventTypeNormal EventGarbageCollected [ReasonArg why], ROk)], Some (st, Inr 0))"
proof -
  have "sb_operatingMode sb = Suspended" "pendingOf sb = []"
    using assms by (auto simp: expired_def idleSince_def split: if_splits)
  then show ?thesis using assms
    by (auto simp: pass_defs expired_def spawnObservation_def recSleep_def wake_def lastPredicates_def
        zombie_def gc_def gcReasonOf_def)
qed

section \<open>Samples\<close>

definition sampleReconciler :: reconciler where
  "sampleReconciler = \<lparr>rc_Release = ''rel'', rc_Options = \<lparr>op_GCEnabled = True, op_GCMaxIdleAge = 100,
     op_GCMaxIdleSessions = 1, op_ZombieEnabled = False, op_ZombieAlertAfter = 0\<rparr>\<rparr>"

definition sampleCondition :: "string \<Rightarrow> condition" where
  "sampleCondition t = \<lparr>cd_type = t, cd_status = ConditionTrue, cd_reason = ''r'', cd_message = [],
     cd_observedGeneration = 0\<rparr>"

definition sampleSecretName :: string where
  "sampleSecretName = orderSecretName sampleHook sampleRunning sampleRequest"

text \<open>The state of a controller that has just started: both maps are empty.\<close>

definition freshState :: recState where
  "freshState = \<lparr>rs_multiplePods = \<lambda>_. False, rs_zombiesAlerted = \<lambda>_. False\<rparr>"

text \<open>The sample Sandbox as the hook left it, with its suspension confirmed.\<close>

definition sampleAccepted :: sandbox where
  "sampleAccepted = (acceptNewer sampleRunning sampleRequest sampleSecretName 0 samplePodTemplate)
     \<lparr>sb_resourceVersion := ''8'', sb_conditions := [sampleCondition SandboxConditionSuspended]\<rparr>"

definition sampleSecret :: secret where
  "sampleSecret = workOrderSecret sampleRunning Map.empty sampleRequest sampleSecretName"

lemma sampleLib_condition:
  "currentGenerationTrue sampleLib sb t \<longleftrightarrow> (case find (\<lambda>c. cd_type c = t) (sb_conditions sb) of None \<Rightarrow> False
     | Some c \<Rightarrow> cd_status c = ConditionTrue \<and> cd_observedGeneration c = sb_generation sb)"
  by (simp add: currentGenerationTrue_def sampleLib_def)

lemmas sample_defs = sampleAccepted_def acceptNewer_def sampleRunning_def sampleLive_def sampleTemplate_def
  sampleReconciler_def sampleRequest_def

lemma sample_actsOn: "actsOn sampleReconciler sampleAccepted"
  by (simp add: actsOn_def deleting_def sample_defs)

text \<open>
  The Secret the hook writes for an order passes the controller's check on every Sandbox of the
  UID and session it was written for that has the order and attempt as last accepted.
\<close>

lemma workOrderSecret_valid:
  assumes "sb_uid sb' = sb_uid sb" and "label sb' LabelSessionID = LabelValue (rq_SessionID req)"
    and "annot sb' AnnotationLastOrderAttempt = FormatInt (rq_Attempt req)" and "rq_WorkOrder req \<noteq> []"
  shows "validateWorkOrderSecret (workOrderSecret sb labels req
       (WorkOrderSecretName rel (rq_SessionID req) (sb_uid sb) (rq_OrderID req))) sb' (rq_OrderID req) rel = Inr ()"
  using assms by (simp add: validateWorkOrderSecret_def workOrderSecret_def)

lemma sample_valid:
  "validateWorkOrderSecret sampleSecret sampleAccepted ''o2'' ''rel'' = Inr ()"
  using workOrderSecret_valid [of sampleAccepted sampleRunning sampleRequest Map.empty "''rel''"]
  by (simp add: sampleSecret_def sampleSecretName_def orderSecretName_def sample_fields)
    (simp add: sample_defs)

lemma sample_ready: "readyToWake sampleLib sampleReconciler sampleAccepted sampleSecret"
proof -
  have "sb_operatingMode sampleAccepted = Suspended" "pendingOf sampleAccepted = ''o2''"
      "annot sampleAccepted AnnotationPendingSecret \<noteq> []" "lastOrderOf sampleAccepted = ''o2''"
    by (simp_all add: sample_defs sampleSecretName_def orderSecretName_def)
  moreover have "currentGenerationTrue sampleLib sampleAccepted SandboxConditionSuspended"
    by (simp add: sampleLib_condition sample_defs sampleCondition_def)
  moreover have "hasWorkOrderVolume sampleAccepted"
    by (simp add: hasWorkOrderVolume_def sample_defs samplePodTemplate_def)
  moreover have "rc_Release sampleReconciler = ''rel''" by (simp add: sampleReconciler_def)
  ultimately show ?thesis using sample_actsOn sample_valid by (simp add: readyToWake_def)
qed

text \<open>The sample session after its order ran to the end, as put to sleep, and with a spawned Pod.\<close>

definition sampleFinished :: sandbox where
  "sampleFinished = sampleRunning\<lparr>sb_conditions := [sampleCondition SandboxConditionFinished]\<rparr>"

definition sampleAsleep :: sandbox where
  "sampleAsleep = (asleep sampleRunning 0)\<lparr>sb_conditions := [sampleCondition SandboxConditionSuspended]\<rparr>"

definition sampleSpawned :: sandbox where
  "sampleSpawned = awake sampleAccepted (pendingOf sampleAccepted) (annot sampleAccepted AnnotationPendingSecret)"

definition samplePod :: pod where
  "samplePod = \<lparr>p_name = ''pod'', p_uid = ''p1'', p_annotations = [AnnotationOrderID \<mapsto> ''o2''],
     p_owners = [\<lparr>or_apiVersion = [], or_kind = ''Sandbox'', or_name = [], or_uid = ''u1'', or_controller = Some True,
       or_blockOwnerDeletion = None\<rparr>], p_deletionTimestamp = None,
     p_volumes = [\<lparr>v_name = WorkOrderVolumeName, v_secret = Some \<lparr>ss_secretName = sampleSecretName, ss_other = []\<rparr>,
       v_other = []\<rparr>], p_phase = ''Running'', p_nodeName = ''node''\<rparr>"

lemma sample_finished: "finishedRun sampleLib sampleReconciler sampleFinished"
  by (simp add: finishedRun_def actsOn_def deleting_def sampleLib_condition sampleFinished_def sampleCondition_def sample_defs)

lemma sample_spawned: "spawned sampleLib sampleReconciler sampleSpawned samplePod"
proof -
  have "actsOn sampleReconciler sampleSpawned" using sample_actsOn
    by (simp add: actsOn_def deleting_def sampleSpawned_def awake_def)
  moreover have "pendingOf sampleSpawned = ''o2''" "annot sampleSpawned AnnotationAppliedSpawn = ''o2''"
      "annot sampleSpawned AnnotationPendingSecret = sampleSecretName" "sb_uid sampleSpawned = ''u1''"
    by (simp_all add: sampleSpawned_def awake_def) (simp_all add: sample_defs)
  moreover have "sampleSecretName \<noteq> []" by (simp add: sampleSecretName_def orderSecretName_def)
  ultimately show ?thesis
    by (simp add: spawned_def owns_def sampleLib_def samplePod_def podWorkOrderSecret_def)
qed

lemma sample_idleSince: "idleSince sampleLib sampleAsleep = Inr (Some 0)"
proof -
  have "yearZeroTo9999 0" by (simp add: yearZeroTo9999_def epochSecs_def daysBefore_def)
  then have "parseRFC3339 (formatRFC3339 0) = Some 0" by (simp add: parse_format)
  moreover have "\<not> deleting sampleAsleep" "sb_operatingMode sampleAsleep = Suspended" "pendingOf sampleAsleep = []"
      "annot sampleAsleep AnnotationLastSuspendedAt = formatRFC3339 0"
    by (simp_all add: sampleAsleep_def asleep_def deleting_def) (simp_all add: sample_defs)
  moreover have "currentGenerationTrue sampleLib sampleAsleep SandboxConditionSuspended"
    by (simp add: sampleLib_condition sampleAsleep_def asleep_def sampleCondition_def) (simp add: sample_defs)
  ultimately show ?thesis by (simp add: idleSince_def Let_def)
qed

lemma sample_expired: "expired sampleLib sampleReconciler sampleAsleep 100"
proof -
  have "timeSub 100 0 = 100" by (rule timeSub_exact [of 100 0, simplified]) (simp add: inInt64_def minInt64_def maxInt64_def)
  moreover have "actsOn sampleReconciler sampleAsleep"
    by (simp add: actsOn_def deleting_def sampleAsleep_def asleep_def) (simp add: sample_defs)
  ultimately show ?thesis using sample_idleSince by (simp add: expired_def) (simp add: sampleReconciler_def)
qed

text \<open>Where a known run issues its call.\<close>

lemma run_issues:
  "run p rs = (tr, y) \<Longrightarrow> i < length tr \<Longrightarrow> fst (tr ! i) = c \<Longrightarrow> (rev (take i tr), c) \<in> set (issuedAt p [] rs)"
  using run_issuedAt [of p rs tr y i "[]"] by simp

section \<open>The guards of the writes\<close>

lemma Reconcile_guard:
  "(h, c) \<in> set (issuedAt (Reconcile lib rc st ns n) [] rs) \<Longrightarrow> reconcileGuard lib rc ns n h c"
  by (rule wp_issuedAt [OF Reconcile_wp])

lemma Reconcile_patchE:
  assumes "(h, PatchSandbox orig mut doc) \<in> set (issuedAt (Reconcile lib rc st ns n) [] rs)"
  obtains "noWrite h" and "readBy rc ns n h orig" and "Optimistic lib orig mut = Inr doc"
    and "namedAsAsked h \<longrightarrow> patchGuard lib rc h orig mut"
  using Reconcile_guard [OF assms] by (simp add: reconcileGuard_def)

text \<open>What each kind of patch of the controller does to the session.\<close>

lemma legalPatch_ObserveD:
  "legalPatch release orig Observe mut \<Longrightarrow> pendingOf orig \<noteq> [] \<and> pendingOf mut = [] \<and>
     sb_operatingMode mut = sb_operatingMode orig"
  unfolding legalPatch_def by (auto simp: sessionOf_def elim!: lifecycle.cases)

lemma legalPatch_SleepD:
  "legalPatch release orig Sleep mut \<Longrightarrow> sb_operatingMode orig = Running \<and> pendingOf orig = [] \<and>
     sb_operatingMode mut = Suspended"
  unfolding legalPatch_def by (auto simp: sessionOf_def elim!: lifecycle.cases)

lemma legalPatch_WakeD:
  "legalPatch release orig Wake mut \<Longrightarrow> sb_operatingMode orig = Suspended \<and> sb_operatingMode mut = Running \<and>
     pendingOf mut = pendingOf orig \<and> pendingOf orig \<noteq> [] \<and> annot mut AnnotationAppliedSpawn = pendingOf orig \<and>
     mget (pt_annotations (sb_podTemplate mut)) AnnotationOrderID = pendingOf orig \<and>
     podTemplateSecret (sb_podTemplate mut) = Some (annot orig AnnotationPendingSecret)"
  unfolding legalPatch_def by (auto simp: sessionOf_def elim!: lifecycle.cases)

lemma patchGuard_cases:
  assumes "patchGuard lib rc h orig mut"
  obtains (Observe) "legalPatch (rc_Release rc) orig Observe mut" "observeGuard lib rc h orig"
    "pendingOf orig \<noteq> []" "pendingOf mut = []" "sb_operatingMode mut = sb_operatingMode orig"
  | (Sleep) now where "legalPatch (rc_Release rc) orig Sleep mut" "mut = asleep orig now"
    "currentGenerationTrue lib orig SandboxConditionFinished" "pendingOf orig = []"
    "sb_operatingMode orig = Running" "sb_operatingMode mut = Suspended"
  | (Wake) "legalPatch (rc_Release rc) orig Wake mut" "wakeGuard lib rc h orig"
    "sb_operatingMode orig = Suspended" "sb_operatingMode mut = Running" "pendingOf mut = pendingOf orig"
    "pendingOf orig \<noteq> []" "annot mut AnnotationAppliedSpawn = pendingOf orig"
    "mget (pt_annotations (sb_podTemplate mut)) AnnotationOrderID = pendingOf orig"
    "podTemplateSecret (sb_podTemplate mut) = Some (annot orig AnnotationPendingSecret)"
  using assms unfolding patchGuard_def
proof (elim disjE conjE exE)
  assume "legalPatch (rc_Release rc) orig Observe mut" "observeGuard lib rc h orig"
  with legalPatch_ObserveD [OF this(1)] show ?thesis by (intro Observe) simp_all
next
  fix now
  assume "legalPatch (rc_Release rc) orig Sleep mut" "currentGenerationTrue lib orig SandboxConditionFinished"
    "mut = asleep orig now"
  with legalPatch_SleepD [OF this(1)] show ?thesis by (intro Sleep) simp_all
next
  assume "legalPatch (rc_Release rc) orig Wake mut" "wakeGuard lib rc h orig"
  with legalPatch_WakeD [OF this(1)] show ?thesis by (intro Wake) simp_all
qed

text \<open>
  C12: Every patch of the session controller is computed from the Sandbox the pass read, live,
  of its release and component, is pinned to that object's UID and resourceVersion, and is a
  step of the session contract: it observes a spawn, puts the session to sleep or wakes it.
\<close>

theorem controller_patches_are_steps:
  assumes "(h, PatchSandbox orig mut doc) \<in> set (issuedAt (Reconcile lib rc st ns n) [] rs)" and "namedAsAsked h"
  shows "(GetSandbox ns n, RSandbox orig) \<in> set h \<and> label orig LabelName = ComponentRunner \<and>
     pinOf doc ''uid'' = Some (JStr (sb_uid orig)) \<and>
     pinOf doc ''resourceVersion'' = Some (JStr (sb_resourceVersion orig)) \<and>
     (\<exists>a \<in> {Observe, Sleep, Wake}. legalPatch (rc_Release rc) orig a mut)"
proof -
  have g: "readBy rc ns n h orig" "Optimistic lib orig mut = Inr doc" "patchGuard lib rc h orig mut"
    using assms by (auto elim: Reconcile_patchE)
  have "\<exists>a \<in> {Observe, Sleep, Wake}. legalPatch (rc_Release rc) orig a mut"
    using g(3) by (rule patchGuard_cases) auto
  with g(1) Optimistic_pins [OF g(2)] show ?thesis by (simp add: readBy_def)
qed

lemma sample_wake:
  "\<exists>p. ([(GetSecret (sb_namespace sampleAccepted) (annot sampleAccepted AnnotationPendingSecret), RSecret sampleSecret),
       (listPods sampleReconciler sampleAccepted, RPods []), (GetSandbox ''ns'' ''n'', RSandbox sampleAccepted)],
      PatchSandbox sampleAccepted (awake sampleAccepted (pendingOf sampleAccepted) (annot sampleAccepted AnnotationPendingSecret)) p)
     \<in> set (issuedAt (Reconcile sampleLib sampleReconciler st ''ns'' ''n'') []
         [RSandbox sampleAccepted, RPods [], RSecret sampleSecret, ROk, ROk])"
proof -
  have "sb_uid sampleAccepted \<noteq> []" "sb_resourceVersion sampleAccepted \<noteq> []" by (simp_all add: sample_defs)
  from sampleLib_Optimistic [OF this] obtain p where
    p: "Optimistic sampleLib sampleAccepted (awake sampleAccepted (pendingOf sampleAccepted)
          (annot sampleAccepted AnnotationPendingSecret)) = Inr p" by blast
  show ?thesis
    using run_issuedAt [OF wake_run [OF sample_ready p, of st "''ns''" "''n''"], of 3 "[]"]
    by (intro exI [of _ p]) (simp add: numeral_3_eq_3)
qed

lemma sample_named:
  "namedAsAsked [(GetSecret ns (annot sampleAccepted AnnotationPendingSecret), RSecret sampleSecret),
     (listPods rc sb, RPods []), (GetSandbox ns' n', RSandbox sb')]"
  by (simp add: namedAsAsked_def listPods_def sampleSecret_def workOrderSecret_def)
    (simp add: sample_defs)

theorem controller_patches_are_steps_witness:
  "\<exists>h mut p. (h, PatchSandbox sampleAccepted mut p)
       \<in> set (issuedAt (Reconcile sampleLib sampleReconciler freshState ''ns'' ''n'') []
           [RSandbox sampleAccepted, RPods [], RSecret sampleSecret, ROk, ROk]) \<and>
     (\<exists>a \<in> {Observe, Sleep, Wake}. legalPatch ''rel'' sampleAccepted a mut)"
proof -
  have "rc_Release sampleReconciler = ''rel''" by (simp add: sampleReconciler_def)
  then show ?thesis
    using sample_wake [of freshState] controller_patches_are_steps [OF _ sample_named] by metis
qed

text \<open>
  C15: A session is woken only when the suspension of the current generation is confirmed and
  the Secret of the pending order, read in this pass without a cache, is immutable, not empty,
  made for this order, attempt, session and Sandbox UID and owned by the Sandbox; the Pod
  template then names exactly that order and that Secret.
\<close>

theorem controller_wakes_safely:
  assumes "(h, PatchSandbox orig mut doc) \<in> set (issuedAt (Reconcile lib rc st ns n) [] rs)" and "namedAsAsked h"
    and "sb_operatingMode orig \<noteq> Running" and "sb_operatingMode mut = Running"
  shows "currentGenerationTrue lib orig SandboxConditionSuspended \<and> pendingOf orig \<noteq> [] \<and>
     annot mut AnnotationAppliedSpawn = pendingOf orig \<and>
     mget (pt_annotations (sb_podTemplate mut)) AnnotationOrderID = pendingOf orig \<and>
     (\<exists>se. (GetSecret (sb_namespace orig) (annot orig AnnotationPendingSecret), RSecret se) \<in> set h \<and>
        podTemplateSecret (sb_podTemplate mut) = Some (se_name se) \<and>
        validateWorkOrderSecret se orig (pendingOf orig) (rc_Release rc) = Inr ())"
proof -
  have "patchGuard lib rc h orig mut" using assms(1,2) by (auto elim: Reconcile_patchE)
  then show ?thesis
  proof (cases rule: patchGuard_cases)
    case Wake
    then obtain se where se: "(GetSecret (sb_namespace orig) (annot orig AnnotationPendingSecret), RSecret se) \<in> set h"
        "validateWorkOrderSecret se orig (pendingOf orig) (rc_Release rc) = Inr ()"
        and c: "currentGenerationTrue lib orig SandboxConditionSuspended"
      by (auto simp: wakeGuard_def)
    have "se_name se = annot orig AnnotationPendingSecret" using se(1) assms(2) by (auto simp: namedAsAsked_def)
    with Wake se c show ?thesis by auto
  qed (use assms(3,4) in auto)
qed

theorem controller_wakes_safely_witness:
  "\<exists>h mut p. (h, PatchSandbox sampleAccepted mut p)
       \<in> set (issuedAt (Reconcile sampleLib sampleReconciler freshState ''ns'' ''n'') []
           [RSandbox sampleAccepted, RPods [], RSecret sampleSecret, ROk, ROk]) \<and>
     annot mut AnnotationAppliedSpawn = pendingOf sampleAccepted"
proof -
  obtain h p where i: "(h, PatchSandbox sampleAccepted (awake sampleAccepted (pendingOf sampleAccepted)
        (annot sampleAccepted AnnotationPendingSecret)) p)
      \<in> set (issuedAt (Reconcile sampleLib sampleReconciler freshState ''ns'' ''n'') []
           [RSandbox sampleAccepted, RPods [], RSecret sampleSecret, ROk, ROk])" and n: "namedAsAsked h"
    using sample_wake [of freshState] sample_named by blast
  have "sb_operatingMode sampleAccepted \<noteq> Running" by (simp add: sample_defs)
  moreover have "sb_operatingMode (awake sampleAccepted a b) = Running" for a b by (simp add: awake_def)
  ultimately show ?thesis using controller_wakes_safely [OF i n] i by blast
qed

text \<open>
  A session is put to sleep only when the current generation is confirmed finished and no
  order is pending; the patch suspends the Sandbox, notes the time and changes nothing else.
\<close>

theorem controller_sleeps_safely:
  assumes "(h, PatchSandbox orig mut doc) \<in> set (issuedAt (Reconcile lib rc st ns n) [] rs)" and "namedAsAsked h"
    and "sb_operatingMode orig = Running" and "sb_operatingMode mut \<noteq> Running"
  shows "currentGenerationTrue lib orig SandboxConditionFinished \<and> pendingOf orig = [] \<and>
     (\<exists>now. mut = orig\<lparr>sb_operatingMode := Suspended,
        sb_annotations := (sb_annotations orig)(AnnotationLastSuspendedAt \<mapsto> formatRFC3339 now)\<rparr>)"
proof -
  have "patchGuard lib rc h orig mut" using assms(1,2) by (auto elim: Reconcile_patchE)
  then show ?thesis
  proof (cases rule: patchGuard_cases)
    case (Sleep now)
    then show ?thesis unfolding asleep_def by blast
  qed (use assms(3,4) in simp_all)
qed

lemma sample_sleep:
  "\<exists>p. ([(Now, RTime 0), (listPods sampleReconciler sampleFinished, RPods []), (GetSandbox ''ns'' ''n'', RSandbox sampleFinished)],
      PatchSandbox sampleFinished (asleep sampleFinished 0) p)
     \<in> set (issuedAt (Reconcile sampleLib sampleReconciler st ''ns'' ''n'') [] [RSandbox sampleFinished, RPods [], RTime 0, ROk, ROk])"
proof -
  have "sb_uid sampleFinished \<noteq> []" "sb_resourceVersion sampleFinished \<noteq> []"
    by (simp_all add: sampleFinished_def sample_defs)
  from sampleLib_Optimistic [OF this] obtain p where
    "Optimistic sampleLib sampleFinished (asleep sampleFinished 0) = Inr p" by blast
  from sleep_run [OF sample_finished this, of st "''ns''" "''n''" "[]"] obtain why where
    r: "run (Reconcile sampleLib sampleReconciler st ''ns'' ''n'') [RSandbox sampleFinished, RPods [], RTime 0, ROk, ROk] =
     ([(GetSandbox ''ns'' ''n'', RSandbox sampleFinished), (listPods sampleReconciler sampleFinished, RPods []), (Now, RTime 0),
       (PatchSandbox sampleFinished (asleep sampleFinished 0) p, ROk),
       (eventOf sampleFinished EventTypeNormal EventSleep why, ROk)], Some (st, Inr 0))" by blast
  show ?thesis using run_issues [OF r, of 3] by (intro exI [of _ p]) (simp add: numeral_3_eq_3)
qed

theorem controller_sleeps_safely_witness:
  "\<exists>h mut p. (h, PatchSandbox sampleFinished mut p)
       \<in> set (issuedAt (Reconcile sampleLib sampleReconciler freshState ''ns'' ''n'') []
           [RSandbox sampleFinished, RPods [], RTime 0, ROk, ROk]) \<and>
     (\<exists>now. mut = sampleFinished\<lparr>sb_operatingMode := Suspended,
        sb_annotations := (sb_annotations sampleFinished)(AnnotationLastSuspendedAt \<mapsto> formatRFC3339 now)\<rparr>)"
proof -
  obtain h p where i: "(h, PatchSandbox sampleFinished (asleep sampleFinished 0) p)
      \<in> set (issuedAt (Reconcile sampleLib sampleReconciler freshState ''ns'' ''n'') []
           [RSandbox sampleFinished, RPods [], RTime 0, ROk, ROk])" and n: "namedAsAsked h"
    using sample_sleep [of freshState] by (auto simp: namedAsAsked_def listPods_def)
  have "sb_operatingMode sampleFinished = Running" "sb_operatingMode (asleep sampleFinished 0) \<noteq> Running"
    by (simp add: sampleFinished_def sample_defs) (simp add: asleep_def)
  from controller_sleeps_safely [OF i n this] i show ?thesis by blast
qed

text \<open>
  C23: A pending order is taken off only when the pass has listed a Pod owned by the Sandbox
  that carries the order and mounts the order's Secret, and the order is the one applied.
\<close>

theorem controller_observes_safely:
  assumes "(h, PatchSandbox orig mut doc) \<in> set (issuedAt (Reconcile lib rc st ns n) [] rs)" and "namedAsAsked h"
    and "pendingOf mut \<noteq> pendingOf orig"
  shows "pendingOf mut = [] \<and> annot orig AnnotationAppliedSpawn = pendingOf orig \<and>
     (\<exists>items p. (listPods rc orig, RPods items) \<in> set h \<and> p \<in> set items \<and> owns lib orig p \<and>
        mget (p_annotations p) AnnotationOrderID = pendingOf orig \<and>
        podWorkOrderSecret p = annot orig AnnotationPendingSecret \<and> annot orig AnnotationPendingSecret \<noteq> [])"
proof -
  have "patchGuard lib rc h orig mut" using assms(1,2) by (auto elim: Reconcile_patchE)
  then show ?thesis
  proof (cases rule: patchGuard_cases)
    case Observe
    then obtain items p where "(listPods rc orig, RPods items) \<in> set h" "p \<in> set items" "owns lib orig p"
        "mget (p_annotations p) AnnotationOrderID = pendingOf orig" "annot orig AnnotationAppliedSpawn = pendingOf orig"
        "podWorkOrderSecret p = annot orig AnnotationPendingSecret" "annot orig AnnotationPendingSecret \<noteq> []"
      unfolding observeGuard_def listedBy_def listPods_def by auto
    with Observe show ?thesis by blast
  next
    case (Sleep now)
    then show ?thesis using assms(3) by (simp add: asleep_def)
  qed (use assms(3) in auto)
qed

lemma sample_observe:
  "\<exists>p. ([(listPods sampleReconciler sampleSpawned, RPods [samplePod]), (GetSandbox ''ns'' ''n'', RSandbox sampleSpawned)],
      PatchSandbox sampleSpawned (observed sampleSpawned) p)
     \<in> set (issuedAt (Reconcile sampleLib sampleReconciler st ''ns'' ''n'') [] [RSandbox sampleSpawned, RPods [samplePod], ROk, ROk])"
proof -
  have "sb_uid sampleSpawned \<noteq> []" "sb_resourceVersion sampleSpawned \<noteq> []"
    by (simp_all add: sampleSpawned_def awake_def) (simp_all add: sample_defs)
  from sampleLib_Optimistic [OF this] obtain p where
    p: "Optimistic sampleLib sampleSpawned (observed sampleSpawned) = Inr p" by blast
  show ?thesis using run_issues [OF observe_run [OF sample_spawned p, of st "''ns''" "''n''"], of 2]
    by (intro exI [of _ p]) (simp add: numeral_2_eq_2)
qed

theorem controller_observes_safely_witness:
  "\<exists>h mut p. (h, PatchSandbox sampleSpawned mut p)
       \<in> set (issuedAt (Reconcile sampleLib sampleReconciler freshState ''ns'' ''n'') []
           [RSandbox sampleSpawned, RPods [samplePod], ROk, ROk]) \<and> pendingOf mut = []"
proof -
  obtain h p where i: "(h, PatchSandbox sampleSpawned (observed sampleSpawned) p)
      \<in> set (issuedAt (Reconcile sampleLib sampleReconciler freshState ''ns'' ''n'') []
           [RSandbox sampleSpawned, RPods [samplePod], ROk, ROk])" and n: "namedAsAsked h"
    using sample_observe [of freshState] by (auto simp: namedAsAsked_def listPods_def)
  have "pendingOf sampleSpawned \<noteq> []" using sample_spawned by (simp add: spawned_def)
  then have "pendingOf (observed sampleSpawned) \<noteq> pendingOf sampleSpawned" by (simp add: observed_def)
  from controller_observes_safely [OF i n this] i show ?thesis by blast
qed

text \<open>
  C22: The session controller deletes only the Sandbox the pass read, pinned to its UID and
  resourceVersion, when collection is enabled and the Sandbox is suspended with its suspension
  confirmed, without a pending order, and either asleep past the maximal idle age by the clock
  the pass read or among the oldest sessions beyond the cap of the list the pass read.
\<close>

theorem controller_deletes_safely:
  assumes "(h, DeleteSandbox ns' n' uid rv) \<in> set (issuedAt (Reconcile lib rc st ns n) [] rs)"
  shows "\<exists>sb. (GetSandbox ns n, RSandbox sb) \<in> set h \<and> \<not> deleting sb \<and>
     label sb LabelInstance = rc_Release rc \<and> label sb LabelName = ComponentRunner \<and>
     (ns', n', uid, rv) = (sb_namespace sb, sb_name sb, sb_uid sb, sb_resourceVersion sb) \<and>
     sb_operatingMode sb = Suspended \<and> pendingOf sb = [] \<and>
     currentGenerationTrue lib sb SandboxConditionSuspended \<and> gcDue lib rc h sb"
proof -
  obtain sb where sb: "readBy rc ns n h sb" "ns' = sb_namespace sb" "n' = sb_name sb" "uid = sb_uid sb"
      "rv = sb_resourceVersion sb" "gcDue lib rc h sb"
    using Reconcile_guard [OF assms] by (auto simp: reconcileGuard_def)
  then obtain at where "idleSince lib sb = Inr (Some at)" by (auto simp: gcDue_def)
  then have "sb_operatingMode sb = Suspended \<and> pendingOf sb = [] \<and> currentGenerationTrue lib sb SandboxConditionSuspended"
    by (auto simp: idleSince_def split: if_splits)
  with sb show ?thesis by (intro exI [of _ sb]) (simp add: readBy_def)
qed

theorem controller_deletes_safely_witness:
  "\<exists>h n' uid. (h, DeleteSandbox [] n' uid ''7'')
       \<in> set (issuedAt (Reconcile sampleLib sampleReconciler freshState ''ns'' ''n'') []
           [RSandbox sampleAsleep, RPods [], RTime 100, ROk, ROk]) \<and>
     (\<exists>sb. (GetSandbox ''ns'' ''n'', RSandbox sb) \<in> set h \<and> gcDue sampleLib sampleReconciler h sb)"
proof -
  have f: "sb_namespace sampleAsleep = []" "sb_resourceVersion sampleAsleep = ''7''"
    by (simp_all add: sampleAsleep_def asleep_def) (simp_all add: sample_defs)
  obtain why where r: "run (Reconcile sampleLib sampleReconciler freshState ''ns'' ''n'') [RSandbox sampleAsleep, RPods [], RTime 100, ROk, ROk] =
     ([(GetSandbox ''ns'' ''n'', RSandbox sampleAsleep), (listPods sampleReconciler sampleAsleep, RPods []), (Now, RTime 100),
       (DeleteSandbox (sb_namespace sampleAsleep) (sb_name sampleAsleep) (sb_uid sampleAsleep) (sb_resourceVersion sampleAsleep), ROk),
       (eventOf sampleAsleep EventTypeNormal EventGarbageCollected [ReasonArg why], ROk)], Some (freshState, Inr 0))"
    using gc_run [OF sample_expired, of freshState "''ns''" "''n''" "[]"] by blast
  obtain h where i: "(h, DeleteSandbox [] (sb_name sampleAsleep) (sb_uid sampleAsleep) ''7'')
      \<in> set (issuedAt (Reconcile sampleLib sampleReconciler freshState ''ns'' ''n'') []
           [RSandbox sampleAsleep, RPods [], RTime 100, ROk, ROk])"
    using run_issues [OF r, of 3] f by force
  from controller_deletes_safely [OF i] i show ?thesis by blast
qed

text \<open>A program whose writes come after no write issues at most one.\<close>

lemma single_write:
  assumes "\<forall>(h', c) \<in> set (issuedAt p h rs). isWrite c \<longrightarrow> noWrite h'"
  shows "length (filter isWrite (map snd (issuedAt p h rs))) \<le> (if noWrite h then 1 else 0)"
  using assms
proof (induction p h rs rule: issuedAt.induct)
  case (3 c k h r rs)
  have "length (filter isWrite (map snd (issuedAt (k r) ((c, r) # h) rs))) \<le> (if noWrite ((c, r) # h) then 1 else 0)"
    using "3.prems" by (intro "3.IH") simp
  moreover have "isWrite c \<longrightarrow> noWrite h" using "3.prems" by auto
  ultimately show ?case by (auto simp: filter_map)
qed auto

text \<open>
  A pass of the session controller writes at most once: nothing, one patch of a Sandbox or
  one deletion. It never creates an object.
\<close>

theorem controller_writes_once:
  "filter isWrite (issued (Reconcile lib rc st ns n) rs) \<in> {[]} \<union>
     {[PatchSandbox orig mut doc] | orig mut doc. True} \<union>
     {[DeleteSandbox ns' n' uid rv] | ns' n' uid rv. True}"
proof -
  let ?p = "Reconcile lib rc st ns n"
  have w: "isWrite c \<Longrightarrow> noWrite h" and nc: "c \<noteq> CreateSandbox sb" "c \<noteq> CreateSecret se"
    if "(h, c) \<in> set (issuedAt ?p [] rs)" for h c sb se
    using Reconcile_guard [OF that] by (cases c; simp add: reconcileGuard_def)+
  have "length (filter isWrite (issued ?p rs)) \<le> 1"
    using single_write [of ?p "[]" rs] w by (fastforce simp: issued_def noWrite_def)
  then consider "filter isWrite (issued ?p rs) = []" | c where "filter isWrite (issued ?p rs) = [c]"
    by (cases "filter isWrite (issued ?p rs)") auto
  then show ?thesis
  proof cases
    case (2 c)
    then have "c \<in> set (filter isWrite (issued ?p rs))" by simp
    then obtain h where "isWrite c" "(h, c) \<in> set (issuedAt ?p [] rs)" by (auto simp: issued_def)
    with nc [OF this(2)] 2 show ?thesis by (cases c) auto
  qed simp
qed

end
