(* ===== verification/Protocol.thy ===== *)
theory Protocol
  imports ReconcilerProps
begin

text \<open>
  The hook and the session controller together: any number of hook processes and reconcile
  passes run against one API server, their calls interleaved in any order, answered from any
  version stored so far (caches may lag), refused, or lost after taking effect, while other
  writers change the objects too. The server is the documented optimistic concurrency of
  Kubernetes: a write with a UID and a resourceVersion in it commits only against the object
  that has them, and every stored version gets a resourceVersion of its own.
\<close>

section \<open>The API server\<close>

type_synonym objectKey = "string \<times> string"

definition keyOf :: "sandbox \<Rightarrow> objectKey" where
  "keyOf sb = (sb_namespace sb, sb_name sb)"

record cluster =
  cl_live :: "objectKey \<rightharpoonup> sandbox"
  cl_versions :: "sandbox set"

definition storing :: "sandbox \<Rightarrow> cluster \<Rightarrow> cluster" where
  "storing sb cl = cl\<lparr>cl_live := (cl_live cl)(keyOf sb \<mapsto> sb), cl_versions := insert sb (cl_versions cl)\<rparr>"

definition removing :: "objectKey \<Rightarrow> cluster \<Rightarrow> cluster" where
  "removing k cl = cl\<lparr>cl_live := (cl_live cl)(k := None)\<rparr>"

definition freshVersion :: "cluster \<Rightarrow> string \<Rightarrow> bool" where
  "freshVersion cl rv \<longleftrightarrow> rv \<notin> sb_resourceVersion ` cl_versions cl"

text \<open>
  The writes that take effect. A patch is applied to the live object when its pins name that
  object: applied to the object it was computed from it gives the mutated one (the law of
  merge patches), applied to another it may give anything of the same name and UID. A deletion
  removes the object or marks it while finalizers run.
\<close>

inductive commits :: "cluster \<Rightarrow> call \<Rightarrow> cluster \<Rightarrow> bool" where
  create: "\<lbrakk> cl_live cl (keyOf sb) = None; uid \<notin> sb_uid ` cl_versions cl; freshVersion cl rv;
      new = sb\<lparr>sb_uid := uid, sb_resourceVersion := rv, sb_generation := g\<rparr> \<rbrakk>
    \<Longrightarrow> commits cl (CreateSandbox sb) (storing new cl)"
| patch: "\<lbrakk> cl_live cl (keyOf orig) = Some cur; pinOf doc ''uid'' = Some (JStr (sb_uid cur));
      pinOf doc ''resourceVersion'' = Some (JStr (sb_resourceVersion cur)); freshVersion cl rv;
      cur = orig \<Longrightarrow> new = mut\<lparr>sb_resourceVersion := rv, sb_generation := g\<rparr>;
      keyOf new = keyOf cur; sb_uid new = sb_uid cur; sb_resourceVersion new = rv \<rbrakk>
    \<Longrightarrow> commits cl (PatchSandbox orig mut doc) (storing new cl)"
| delete: "\<lbrakk> cl_live cl (ns, n) = Some cur; uid = sb_uid cur; rv = sb_resourceVersion cur \<rbrakk>
    \<Longrightarrow> commits cl (DeleteSandbox ns n uid rv) (removing (ns, n) cl)"
| mark: "\<lbrakk> cl_live cl (ns, n) = Some cur; uid = sb_uid cur; rv = sb_resourceVersion cur; freshVersion cl rv' \<rbrakk>
    \<Longrightarrow> commits cl (DeleteSandbox ns n uid rv)
          (storing (cur\<lparr>sb_resourceVersion := rv', sb_deletionTimestamp := Some t\<rparr>) cl)"
| secret: "commits cl (CreateSecret se) cl"

inductive_cases commits_CreateE: "commits cl (CreateSandbox sb) cl'"
inductive_cases commits_PatchE: "commits cl (PatchSandbox orig mut doc) cl'"
inductive_cases commits_DeleteE: "commits cl (DeleteSandbox ns n uid rv) cl'"

text \<open>Any answer that shows stored versions only, and a Secret by the name asked for.\<close>

definition answerOk :: "cluster \<Rightarrow> call \<Rightarrow> resp \<Rightarrow> bool" where
  "answerOk cl c r \<longleftrightarrow> (\<forall>sb. r = RSandbox sb \<longrightarrow> sb \<in> cl_versions cl) \<and>
     (\<forall>ns n se. c = GetSecret ns n \<and> r = RSecret se \<longrightarrow> se_name se = n)"

inductive serves :: "cluster \<Rightarrow> call \<Rightarrow> resp \<Rightarrow> cluster \<Rightarrow> bool" where
  refuse: "serves cl c (RErr e) cl"
| answer: "\<not> isWrite c \<Longrightarrow> answerOk cl c r \<Longrightarrow> serves cl c r cl"
| written: "commits cl c cl' \<Longrightarrow> answerOk cl' c r \<Longrightarrow> serves cl c r cl'"

section \<open>The system\<close>

record system =
  sys_cluster :: cluster
  sys_clients :: "(history \<times> unit prog) list"

datatype event_kind = Launch | Exchange nat call resp | Interfere

text \<open>
  Another writer, say the agent-sandbox controller, may change an object in everything but its
  identity, its labels and what describes the session.
\<close>

definition otherWriter :: "sandbox \<Rightarrow> sandbox \<Rightarrow> bool" where
  "otherWriter cur new \<longleftrightarrow> keyOf new = keyOf cur \<and> sb_uid new = sb_uid cur \<and> sb_labels new = sb_labels cur \<and>
     sessionOf new = sessionOf cur"

definition exchanged :: "nat \<Rightarrow> history \<times> unit prog \<Rightarrow> cluster \<Rightarrow> system \<Rightarrow> system" where
  "exchanged i proc cl s = s\<lparr>sys_cluster := cl, sys_clients := (sys_clients s)[i := proc]\<rparr>"

inductive sysStep :: "string \<Rightarrow> (unit prog \<Rightarrow> bool) \<Rightarrow> system \<Rightarrow> event_kind \<Rightarrow> system \<Rightarrow> bool"
  for release :: string and client :: "unit prog \<Rightarrow> bool" where
  launch: "client p \<Longrightarrow> sysStep release client s Launch (s\<lparr>sys_clients := sys_clients s @ [([], p)]\<rparr>)"
| exchange: "\<lbrakk> i < length (sys_clients s); sys_clients s ! i = (h, Call c k); serves (sys_cluster s) c r cl \<rbrakk>
    \<Longrightarrow> sysStep release client s (Exchange i c r) (exchanged i ((c, r) # h, k r) cl s)"
| touch: "\<lbrakk> cl_live (sys_cluster s) (keyOf cur) = Some cur; otherWriter cur new;
      freshVersion (sys_cluster s) (sb_resourceVersion new) \<rbrakk>
    \<Longrightarrow> sysStep release client s Interfere (s\<lparr>sys_cluster := storing new (sys_cluster s)\<rparr>)"
| vanish: "sysStep release client s Interfere (s\<lparr>sys_cluster := removing key (sys_cluster s)\<rparr>)"
| foreign: "\<lbrakk> cl_live (sys_cluster s) (keyOf new) = None; label new LabelInstance \<noteq> release;
      sb_uid new \<notin> sb_uid ` cl_versions (sys_cluster s); freshVersion (sys_cluster s) (sb_resourceVersion new) \<rbrakk>
    \<Longrightarrow> sysStep release client s Interfere (s\<lparr>sys_cluster := storing new (sys_cluster s)\<rparr>)"

text \<open>At the start nothing is stored and nothing runs.\<close>

definition blank :: "system \<Rightarrow> bool" where
  "blank s \<longleftrightarrow> cl_live (sys_cluster s) = Map.empty \<and> cl_versions (sys_cluster s) = {} \<and> sys_clients s = []"

section \<open>The invariant\<close>

definition attemptOf :: "sandbox \<Rightarrow> int" where
  "attemptOf sb = the (parseAttempt (annot sb AnnotationLastOrderAttempt))"

lemma attemptOf_session: "attemptOf sb = the (s_lastAttempt (sessionOf sb))"
  and lastOrder_session: "lastOrderOf sb = s_lastID (sessionOf sb)"
  by (simp_all add: attemptOf_def sessionOf_def)

definition stageOf :: "sandbox \<Rightarrow> nat" where
  "stageOf sb = stage (sessionOf sb)"

text \<open>
  \<open>upToDate v cur\<close>: the live object is at least as far as a version of it. An attempt stands for
  one order, which only ever moves on.
\<close>

definition upToDate :: "sandbox \<Rightarrow> sandbox \<Rightarrow> bool" where
  "upToDate v cur \<longleftrightarrow> keyOf v = keyOf cur \<and> sb_labels v = sb_labels cur \<and>
     (attemptOf v < attemptOf cur \<or>
      attemptOf v = attemptOf cur \<and> lastOrderOf v = lastOrderOf cur \<and> stageOf v \<le> stageOf cur)"

definition ofRelease :: "string \<Rightarrow> sandbox \<Rightarrow> bool" where
  "ofRelease release sb \<longleftrightarrow> label sb LabelInstance = release"

text \<open>What is live is stored under its own key.\<close>

definition liveStored :: "cluster \<Rightarrow> bool" where
  "liveStored cl \<longleftrightarrow> (\<forall>key cur. cl_live cl key = Some cur \<longrightarrow> keyOf cur = key \<and> cur \<in> cl_versions cl)"

definition allSound :: "string \<Rightarrow> cluster \<Rightarrow> bool" where
  "allSound release cl \<longleftrightarrow> (\<forall>v \<in> cl_versions cl. ofRelease release v \<longrightarrow> sandboxInv release v)"

definition versionsUnique :: "cluster \<Rightarrow> bool" where
  "versionsUnique cl \<longleftrightarrow> inj_on sb_resourceVersion (cl_versions cl)"

definition liveNewest :: "string \<Rightarrow> cluster \<Rightarrow> bool" where
  "liveNewest release cl \<longleftrightarrow> (\<forall>key cur v. cl_live cl key = Some cur \<longrightarrow> v \<in> cl_versions cl \<longrightarrow>
     sb_uid v = sb_uid cur \<longrightarrow> ofRelease release cur \<longrightarrow> upToDate v cur)"

definition identityFixed :: "string \<Rightarrow> cluster \<Rightarrow> bool" where
  "identityFixed release cl \<longleftrightarrow> (\<forall>v \<in> cl_versions cl. \<forall>w \<in> cl_versions cl. sb_uid v = sb_uid w \<longrightarrow>
     keyOf v = keyOf w \<and> ofRelease release v = ofRelease release w)"

definition clusterInv :: "string \<Rightarrow> cluster \<Rightarrow> bool" where
  "clusterInv release cl \<longleftrightarrow> liveStored cl \<and> allSound release cl \<and> versionsUnique cl \<and>
     liveNewest release cl \<and> identityFixed release cl"

lemma clusterInv_live:
  "clusterInv release cl \<Longrightarrow> cl_live cl key = Some cur \<Longrightarrow> keyOf cur = key \<and> cur \<in> cl_versions cl"
  unfolding clusterInv_def liveStored_def by blast

lemma clusterInv_sandboxInv:
  "clusterInv release cl \<Longrightarrow> v \<in> cl_versions cl \<Longrightarrow> ofRelease release v \<Longrightarrow> sandboxInv release v"
  unfolding clusterInv_def allSound_def by blast

lemma clusterInv_unique:
  "clusterInv release cl \<Longrightarrow> v \<in> cl_versions cl \<Longrightarrow> w \<in> cl_versions cl \<Longrightarrow>
     sb_resourceVersion v = sb_resourceVersion w \<Longrightarrow> v = w"
  unfolding clusterInv_def versionsUnique_def by (blast dest: inj_onD)

lemma clusterInv_upToDate:
  "clusterInv release cl \<Longrightarrow> cl_live cl key = Some cur \<Longrightarrow> v \<in> cl_versions cl \<Longrightarrow> sb_uid v = sb_uid cur \<Longrightarrow>
     ofRelease release cur \<Longrightarrow> upToDate v cur"
  unfolding clusterInv_def liveNewest_def by blast

lemma clusterInv_identity:
  "clusterInv release cl \<Longrightarrow> v \<in> cl_versions cl \<Longrightarrow> w \<in> cl_versions cl \<Longrightarrow> sb_uid v = sb_uid w \<Longrightarrow>
     keyOf v = keyOf w \<and> ofRelease release v = ofRelease release w"
  unfolding clusterInv_def identityFixed_def by blast

lemmas clusterInv_parts = clusterInv_def liveStored_def allSound_def versionsUnique_def inj_on_def liveNewest_def identityFixed_def

lemma clusterInv_removing: "clusterInv release cl \<Longrightarrow> clusterInv release (removing key cl)"
proof -
  assume inv: "clusterInv release cl"
  have l: "cl_live cl key' = Some c" if "cl_live (removing key cl) key' = Some c" for key' c
    using that by (simp add: removing_def split: if_splits)
  have v: "cl_versions (removing key cl) = cl_versions cl" by (simp add: removing_def)
  have "liveStored (removing key cl)" unfolding liveStored_def v using l clusterInv_live [OF inv] by blast
  moreover have "liveNewest release (removing key cl)"
    unfolding liveNewest_def v using l clusterInv_upToDate [OF inv] by blast
  ultimately show ?thesis
    using inv unfolding clusterInv_def allSound_def versionsUnique_def identityFixed_def v by blast
qed

lemma upToDate_refl [simp]: "upToDate v v"
  by (simp add: upToDate_def)

lemma upToDate_trans: "upToDate u v \<Longrightarrow> upToDate v w \<Longrightarrow> upToDate u w"
  unfolding upToDate_def by (elim conjE disjE; intro conjI; simp)

lemma upToDateD: "upToDate v cur \<Longrightarrow> attemptOf v \<le> attemptOf cur \<and>
     (attemptOf v = attemptOf cur \<longrightarrow> lastOrderOf v = lastOrderOf cur \<and> stageOf v \<le> stageOf cur)"
  by (auto simp: upToDate_def)

text \<open>Storing a successor of the live object, and storing a new one.\<close>

lemma clusterInv_successor:
  assumes inv: "clusterInv release cl" and live: "cl_live cl (keyOf cur) = Some cur"
    and fresh: "freshVersion cl (sb_resourceVersion new)"
    and same: "keyOf new = keyOf cur" "sb_uid new = sb_uid cur" "ofRelease release new = ofRelease release cur"
    and good: "ofRelease release cur \<Longrightarrow> sandboxInv release cur \<Longrightarrow> sandboxInv release new \<and> upToDate cur new"
  shows "clusterInv release (storing new cl)"
proof -
  have cur: "cur \<in> cl_versions cl" using clusterInv_live [OF inv live] by simp
  have rv: "sb_resourceVersion v \<noteq> sb_resourceVersion new" if "v \<in> cl_versions cl" for v
    using fresh that by (auto simp: freshVersion_def image_iff)
  have good': "sandboxInv release new \<and> upToDate cur new" if "ofRelease release new"
    using good clusterInv_sandboxInv [OF inv cur] that same(3) by blast
  have up: "upToDate v new" if "v \<in> cl_versions cl" "sb_uid v = sb_uid new" "ofRelease release new" for v
    using upToDate_trans [OF clusterInv_upToDate [OF inv live that(1)]] good' that same by simp
  have ident: "keyOf v = keyOf new \<and> ofRelease release v = ofRelease release new"
    if "v \<in> cl_versions cl" "sb_uid v = sb_uid new" for v
    using clusterInv_identity [OF inv that(1) cur] same that(2) by simp
  have other: "sb_uid c \<noteq> sb_uid new" if "cl_live cl key = Some c" "key \<noteq> keyOf new" for c key
    using clusterInv_live [OF inv that(1)] ident that(2) by blast
  show ?thesis
    unfolding clusterInv_parts
  proof (intro conjI allI ballI impI)
    fix key c assume l: "cl_live (storing new cl) key = Some c"
    show "keyOf c = key" "c \<in> cl_versions (storing new cl)"
      using l clusterInv_live [OF inv] by (auto simp: storing_def split: if_splits)
    fix v assume v: "v \<in> cl_versions (storing new cl)" "sb_uid v = sb_uid c" "ofRelease release c"
    show "upToDate v c"
    proof (cases "key = keyOf new")
      case True
      then show ?thesis using l v up by (auto simp: storing_def)
    next
      case False
      then have "cl_live cl key = Some c" using l by (simp add: storing_def)
      moreover from other [OF this False] v have "v \<in> cl_versions cl" by (auto simp: storing_def)
      ultimately show ?thesis using v clusterInv_upToDate [OF inv] by blast
    qed
  next
    fix v assume "v \<in> cl_versions (storing new cl)" "ofRelease release v"
    then show "sandboxInv release v" using clusterInv_sandboxInv [OF inv] good' by (auto simp: storing_def)
  next
    fix v w assume vw: "v \<in> cl_versions (storing new cl)" "w \<in> cl_versions (storing new cl)"
    then have c: "v = new \<or> v \<in> cl_versions cl" "w = new \<or> w \<in> cl_versions cl" by (simp_all add: storing_def)
    show "v = w" if "sb_resourceVersion v = sb_resourceVersion w"
      using c rv clusterInv_unique [OF inv _ _ that] that by metis
    show "keyOf v = keyOf w" "ofRelease release v = ofRelease release w" if "sb_uid v = sb_uid w"
      using c ident clusterInv_identity [OF inv _ _ that] that by metis+
  qed
qed

lemma clusterInv_new:
  assumes inv: "clusterInv release cl" and fresh: "freshVersion cl (sb_resourceVersion new)" "sb_uid new \<notin> sb_uid ` cl_versions cl"
    and good: "ofRelease release new \<Longrightarrow> sandboxInv release new"
  shows "clusterInv release (storing new cl)"
proof -
  have rv: "sb_resourceVersion v \<noteq> sb_resourceVersion new" "sb_uid v \<noteq> sb_uid new" if "v \<in> cl_versions cl" for v
    using fresh that by (auto simp: freshVersion_def image_iff)
  show ?thesis
    unfolding clusterInv_parts
  proof (intro conjI allI ballI impI)
    fix key c assume l: "cl_live (storing new cl) key = Some c"
    show "keyOf c = key" "c \<in> cl_versions (storing new cl)"
      using l clusterInv_live [OF inv] by (auto simp: storing_def split: if_splits)
    fix v assume v: "v \<in> cl_versions (storing new cl)" "sb_uid v = sb_uid c" "ofRelease release c"
    show "upToDate v c"
    proof (cases "key = keyOf new")
      case True
      then show ?thesis using l v rv(2) by (auto simp: storing_def)
    next
      case False
      then have "cl_live cl key = Some c" using l by (simp add: storing_def)
      moreover from clusterInv_live [OF inv this] v rv(2) [of c] have "v \<in> cl_versions cl" by (auto simp: storing_def)
      ultimately show ?thesis using v clusterInv_upToDate [OF inv] by blast
    qed
  next
    fix v assume "v \<in> cl_versions (storing new cl)" "ofRelease release v"
    then show "sandboxInv release v" using clusterInv_sandboxInv [OF inv] good by (auto simp: storing_def)
  next
    fix v w assume vw: "v \<in> cl_versions (storing new cl)" "w \<in> cl_versions (storing new cl)"
    then have c: "v = new \<or> v \<in> cl_versions cl" "w = new \<or> w \<in> cl_versions cl" by (simp_all add: storing_def)
    show "v = w" if "sb_resourceVersion v = sb_resourceVersion w"
      using c rv(1) clusterInv_unique [OF inv _ _ that] that by metis
    show "keyOf v = keyOf w" "ofRelease release v = ofRelease release w" if "sb_uid v = sb_uid w"
      using c rv(2) clusterInv_identity [OF inv _ _ that] that by metis+
  qed
qed

section \<open>Clients that keep to the contract\<close>

text \<open>What the system needs of a client's call, given what the client has seen.\<close>

definition sysGuard :: "string \<Rightarrow> history \<Rightarrow> call \<Rightarrow> bool" where
  "sysGuard release h c \<longleftrightarrow> (case c of
     PatchSandbox orig mut doc \<Rightarrow> received h orig \<and>
       pinOf doc ''uid'' = Some (JStr (sb_uid orig)) \<and>
       pinOf doc ''resourceVersion'' = Some (JStr (sb_resourceVersion orig)) \<and>
       (namedAsAsked h \<longrightarrow> (\<exists>a. legalPatch release orig a mut))
   | CreateSandbox sb \<Rightarrow> created (sessionOf sb) \<and> ofRelease release sb
   | _ \<Rightarrow> True)"

definition grounded :: "cluster \<Rightarrow> history \<Rightarrow> bool" where
  "grounded cl h \<longleftrightarrow> namedAsAsked h \<and> (\<forall>sb. received h sb \<longrightarrow> sb \<in> cl_versions cl)"

definition soundClient :: "string \<Rightarrow> cluster \<Rightarrow> history \<times> unit prog \<Rightarrow> bool" where
  "soundClient release cl hp \<longleftrightarrow> grounded cl (fst hp) \<and> wp (sysGuard release) (\<lambda>_ _. True) (snd hp) (fst hp)"

definition sysInv :: "string \<Rightarrow> system \<Rightarrow> bool" where
  "sysInv release s \<longleftrightarrow> clusterInv release (sys_cluster s) \<and>
     (\<forall>hp \<in> set (sys_clients s). soundClient release (sys_cluster s) hp)"

lemma grounded_Nil [simp]: "grounded cl []"
  by (simp add: grounded_def namedAsAsked_def received_def)

lemma grounded_mono: "grounded cl h \<Longrightarrow> cl_versions cl \<subseteq> cl_versions cl' \<Longrightarrow> grounded cl' h"
  by (auto simp: grounded_def)

lemma grounded_Cons: "grounded cl h \<Longrightarrow> answerOk cl c r \<Longrightarrow> grounded cl ((c, r) # h)"
  by (auto simp: grounded_def answerOk_def namedAsAsked_def received_def)

lemma soundClient_mono:
  "soundClient release cl hp \<Longrightarrow> cl_versions cl \<subseteq> cl_versions cl' \<Longrightarrow> soundClient release cl' hp"
  by (auto simp: soundClient_def intro: grounded_mono)

lemma commits_versions: "commits cl c cl' \<Longrightarrow> cl_versions cl \<subseteq> cl_versions cl'"
  by (induction rule: commits.induct) (auto simp: storing_def removing_def)

lemma sessionOf_server [simp]:
  "sessionOf (sb\<lparr>sb_uid := u\<rparr>) = sessionOf sb" "sessionOf (sb\<lparr>sb_resourceVersion := rv\<rparr>) = sessionOf sb"
  "sessionOf (sb\<lparr>sb_generation := g\<rparr>) = sessionOf sb" "sessionOf (sb\<lparr>sb_deletionTimestamp := t\<rparr>) = sessionOf sb"
  by (simp_all add: sessionOf_def)

lemma sandboxInv_cong:
  "sessionOf sb' = sessionOf sb \<Longrightarrow> sb_uid sb' = sb_uid sb \<Longrightarrow> sb_labels sb' = sb_labels sb \<Longrightarrow>
     sandboxInv release sb \<Longrightarrow> sandboxInv release sb'"
proof -
  assume a: "sessionOf sb' = sessionOf sb" "sb_uid sb' = sb_uid sb" "sb_labels sb' = sb_labels sb" "sandboxInv release sb"
  then have "derivedName release sb' = derivedName release sb"
    unfolding derivedName_def by (intro ext) simp
  with a show ?thesis by (simp add: sandboxInv_def)
qed

lemma otherWriter_sound:
  assumes "otherWriter cur new"
  shows "upToDate cur new" and "sandboxInv release cur \<Longrightarrow> sandboxInv release new"
    and "ofRelease release new = ofRelease release cur"
  using assms sandboxInv_cong [of new cur release]
  by (simp_all add: otherWriter_def upToDate_def attemptOf_session lastOrder_session stageOf_def ofRelease_def)

text \<open>The object the server stores for a legal patch.\<close>

lemma legalPatch_sound:
  assumes "legalPatch release orig a mut" and "new = mut\<lparr>sb_resourceVersion := rv, sb_generation := g\<rparr>"
  shows "upToDate orig new" and "sandboxInv release orig \<Longrightarrow> sandboxInv release new"
    and "ofRelease release new" and "ofRelease release orig"
proof -
  have lc: "lifecycle (derivedName release orig) (sessionOf orig) a (sessionOf mut)" and p: "samePart orig mut"
    using assms(1) by (simp_all add: legalPatch_def)
  have n: "sessionOf new = sessionOf mut" "keyOf new = keyOf orig" "sb_labels new = sb_labels orig"
    using p by (simp_all add: assms(2) keyOf_def samePart_def)
  show "upToDate orig new"
    using lifecycle_progress [OF lc] n(2,3)
    by (simp add: upToDate_def attemptOf_session lastOrder_session stageOf_def n(1))
  show "sandboxInv release new" if "sandboxInv release orig"
    using legalPatch_inv [OF that assms(1)] by (rule sandboxInv_cong [rotated 3]) (simp_all add: assms(2))
  show "ofRelease release orig" using assms(1) by (simp add: legalPatch_def ofRelease_def)
  then show "ofRelease release new" by (simp add: ofRelease_def n(3))
qed

text \<open>The pins leave the server no choice: the live object is the one the patch was computed from.\<close>

lemma pinned_is_live:
  assumes "clusterInv release cl" and "grounded cl h" and "sysGuard release h (PatchSandbox orig mut doc)"
    and "cl_live cl key = Some cur" and "pinOf doc ''resourceVersion'' = Some (JStr (sb_resourceVersion cur))"
  shows "cur = orig" and "\<exists>a. legalPatch release cur a mut"
proof -
  have g: "received h orig" "pinOf doc ''resourceVersion'' = Some (JStr (sb_resourceVersion orig))"
      "\<exists>a. legalPatch release orig a mut"
    using assms(2,3) by (simp_all add: sysGuard_def grounded_def)
  have "orig \<in> cl_versions cl" using g(1) assms(2) by (simp add: grounded_def)
  moreover have "cur \<in> cl_versions cl" using clusterInv_live [OF assms(1,4)] by simp
  moreover have "sb_resourceVersion cur = sb_resourceVersion orig" using g(2) assms(5) by simp
  ultimately show "cur = orig" using clusterInv_unique [OF assms(1)] by metis
  with g(3) show "\<exists>a. legalPatch release cur a mut" by simp
qed

lemma commits_clusterInv:
  assumes inv: "clusterInv release cl" and gr: "grounded cl h" and guard: "sysGuard release h c" and "commits cl c cl'"
  shows "clusterInv release cl'"
  using assms(4)
proof cases
  case (create sb uid rv new g)
  then have s: "sessionOf new = sessionOf sb" "sb_uid new = uid" "sb_resourceVersion new = rv" by simp_all
  have "created (sessionOf sb)" using guard create(1) by (simp add: sysGuard_def)
  then have "sandboxInv release new" unfolding sandboxInv_def s by (rule created_inv)
  then show ?thesis unfolding create(2)
    by (intro clusterInv_new [OF inv]) (use create s in simp_all)
next
  case (patch orig cur doc rv new g mut)
  note eq = pinned_is_live [OF inv gr guard [unfolded patch(1)] patch(3,5)]
  obtain a where a: "legalPatch release orig a mut" using eq by blast
  have new: "new = mut\<lparr>sb_resourceVersion := rv, sb_generation := g\<rparr>" using patch(7) eq(1) by simp
  note sound = legalPatch_sound [OF a new]
  show ?thesis unfolding patch(2)
    by (rule clusterInv_successor [OF inv, of orig]) (use patch eq sound in auto)
next
  case (delete ns n cur uid rv)
  then show ?thesis using clusterInv_removing [OF inv] by simp
next
  case (mark ns n cur uid rv rv' t)
  let ?new = "cur\<lparr>sb_resourceVersion := rv', sb_deletionTimestamp := Some t\<rparr>"
  have k: "keyOf cur = (ns, n)" using clusterInv_live [OF inv mark(3)] by simp
  have "otherWriter cur ?new" by (simp add: otherWriter_def keyOf_def)
  note o = otherWriter_sound [OF this]
  show ?thesis unfolding mark(2)
    by (rule clusterInv_successor [OF inv, of cur]) (use mark k o in \<open>auto simp: keyOf_def\<close>)
next
  case (secret se)
  then show ?thesis using inv by simp
qed

locale guarded_clients =
  fixes release :: string and client :: "unit prog \<Rightarrow> bool"
  assumes client_guard: "client p \<Longrightarrow> wp (sysGuard release) (\<lambda>_ _. True) p []"
begin

lemma sysInv_blank: "blank s \<Longrightarrow> sysInv release s"
  by (auto simp: blank_def sysInv_def clusterInv_parts)

lemma sysInv_exchange:
  assumes inv: "sysInv release s" and i: "i < length (sys_clients s)" "sys_clients s ! i = (h, Call c k)"
    and serves: "serves (sys_cluster s) c r cl"
  shows "sysInv release (exchanged i ((c, r) # h, k r) cl s)"
proof -
  have cl: "clusterInv release (sys_cluster s)" using inv by (simp add: sysInv_def)
  have "soundClient release (sys_cluster s) (h, Call c k)"
    using inv i by (metis nth_mem sysInv_def)
  then have g: "grounded (sys_cluster s) h" "sysGuard release h c" "wp (sysGuard release) (\<lambda>_ _. True) (k r) ((c, r) # h)"
    by (simp_all add: soundClient_def)
  have v: "clusterInv release cl \<and> cl_versions (sys_cluster s) \<subseteq> cl_versions cl \<and> answerOk cl c r"
    using serves
  proof cases
    case written
    then show ?thesis using commits_clusterInv [OF cl g(1,2)] commits_versions by blast
  qed (use cl in \<open>auto simp: answerOk_def\<close>)
  then have "soundClient release cl ((c, r) # h, k r)"
    using g by (auto simp: soundClient_def intro: grounded_Cons grounded_mono)
  moreover have "soundClient release cl hp" if "hp \<in> set (sys_clients s)" for hp
    using that inv v soundClient_mono by (metis sysInv_def)
  ultimately show ?thesis
    using v set_update_subset_insert [of "sys_clients s" i "((c, r) # h, k r)"]
    unfolding sysInv_def exchanged_def by auto
qed

lemma sysInv_cluster:
  assumes "sysInv release s" and "clusterInv release cl" and "cl_versions (sys_cluster s) \<subseteq> cl_versions cl"
  shows "sysInv release (s\<lparr>sys_cluster := cl\<rparr>)"
  using assms soundClient_mono by (auto simp: sysInv_def)

lemma sysInv_step:
  assumes inv: "sysInv release s" and "sysStep release client s e t"
  shows "sysInv release t"
proof -
  have cl: "clusterInv release (sys_cluster s)" using inv by (simp add: sysInv_def)
  show ?thesis
    using assms(2)
  proof cases
    case (launch p)
    then show ?thesis using inv client_guard by (auto simp: sysInv_def soundClient_def)
  next
    case (exchange i h c k r cl)
    then show ?thesis using sysInv_exchange [OF inv] by simp
  next
    case (touch cur new)
    have "clusterInv release (storing new (sys_cluster s))"
      by (rule clusterInv_successor [OF cl touch(3)])
        (use touch otherWriter_sound [OF touch(4)] in \<open>auto simp: otherWriter_def\<close>)
    with inv show ?thesis unfolding touch(2) by (rule sysInv_cluster) (auto simp: storing_def)
  next
    case (vanish key)
    from inv clusterInv_removing [OF cl] show ?thesis unfolding vanish(2)
      by (rule sysInv_cluster) (simp add: removing_def)
  next
    case (foreign new)
    have "clusterInv release (storing new (sys_cluster s))"
      by (rule clusterInv_new [OF cl]) (use foreign in \<open>auto simp: ofRelease_def\<close>)
    with inv show ?thesis unfolding foreign(2) by (rule sysInv_cluster) (auto simp: storing_def)
  qed
qed

end

sublocale guarded_clients \<subseteq> inv: inductive_invariant blank "sysStep release client" "sysInv release"
  by unfold_locales (rule sysInv_blank, assumption, rule sysInv_step)

section \<open>The program's clients\<close>

text \<open>The clients of a release: hook processes for valid requests and reconcile passes.\<close>

definition shockClient :: "k8sLib \<Rightarrow> string \<Rightarrow> unit prog \<Rightarrow> bool" where
  "shockClient lib release p \<longleftrightarrow>
     (\<exists>hk req. cf_Release (hk_Config hk) = release \<and> validRequest req \<and> p = bindP (Run lib hk req) (\<lambda>_. Ret ())) \<or>
     (\<exists>rc st ns n. rc_Release rc = release \<and> p = bindP (Reconcile lib rc st ns n) (\<lambda>_. Ret ()))"

lemma runGuard_sysGuard:
  assumes req: "validRequest req" and guard: "runGuard lib hk req h c"
  shows "sysGuard (cf_Release (hk_Config hk)) h c"
proof (cases c)
  case (PatchSandbox orig mut doc)
  obtain tmpl where "hookGuard lib hk tmpl req h c" using guard PatchSandbox by (auto simp: runGuard_def)
  then show ?thesis unfolding PatchSandbox
    using Optimistic_pins by (auto simp: sysGuard_def hookGuard_def acceptGuard_def)
next
  case (CreateSandbox sb)
  obtain tmpl now where l: "loaded lib hk req h tmpl" and sb: "sb = newSandbox tmpl req now"
    using guard CreateSandbox by (auto simp: runGuard_def hookGuard_def)
  obtain t where "ApplyContract (requestIdentity hk req) (hookContract hk) t = Inr tmpl"
    using l by (auto simp: loaded_def)
  from ApplyContract_meets [OF this] have "label tmpl LabelInstance = cf_Release (hk_Config hk)"
    by (simp add: meetsContract_def requestIdentity_def)
  then have "ofRelease (cf_Release (hk_Config hk)) sb" by (simp add: sb ofRelease_def newSandbox_def)
  moreover have "created (sessionOf sb)" using created_newSandbox [OF req, of tmpl now] by (simp add: sb)
  ultimately show ?thesis unfolding CreateSandbox by (simp add: sysGuard_def)
qed (simp_all add: sysGuard_def)

lemma reconcileGuard_sysGuard:
  assumes "reconcileGuard lib rc ns n h c"
  shows "sysGuard (rc_Release rc) h c"
proof (cases c)
  case (PatchSandbox orig mut doc)
  have g: "readBy rc ns n h orig" "Optimistic lib orig mut = Inr doc" "namedAsAsked h \<longrightarrow> patchGuard lib rc h orig mut"
    using assms by (simp_all add: PatchSandbox reconcileGuard_def)
  have "received h orig" using g(1) by (force simp: readBy_def received_def)
  moreover have "patchGuard lib rc h orig mut \<Longrightarrow> \<exists>a. legalPatch (rc_Release rc) orig a mut"
    by (auto simp: patchGuard_def)
  ultimately show ?thesis unfolding PatchSandbox
    using Optimistic_pins [OF g(2)] g(3) by (auto simp: sysGuard_def)
qed (use assms in \<open>simp_all add: sysGuard_def reconcileGuard_def\<close>)

text \<open>The programs keep to the contract, so the system keeps its invariant.\<close>

interpretation shock: guarded_clients release "shockClient lib release" for release lib
proof
  fix p assume "shockClient lib release p"
  then consider (hook) hk req where "cf_Release (hk_Config hk) = release" "validRequest req"
      "p = bindP (Run lib hk req) (\<lambda>_. Ret ())"
    | (pass) rc st ns n where "rc_Release rc = release" "p = bindP (Reconcile lib rc st ns n) (\<lambda>_. Ret ())"
    unfolding shockClient_def by blast
  then show "wp (sysGuard release) (\<lambda>_ _. True) p []"
  proof cases
    case (hook hk req)
    have "wp (sysGuard release) (\<lambda>_ _. True) (Run lib hk req) []"
      by (rule wp_mono [OF Run_wp [OF hook(2)]]) (use runGuard_sysGuard [OF hook(2)] hook(1) in auto)
    then show ?thesis unfolding hook(3) by (rule wp_forget)
  next
    case (pass rc st ns n)
    have "wp (sysGuard release) (\<lambda>_ _. True) (Reconcile lib rc st ns n) []"
      by (rule wp_mono [OF Reconcile_wp]) (use reconcileGuard_sysGuard pass(1) in auto)
    then show ?thesis unfolding pass(2) by (rule wp_forget)
  qed
qed

section \<open>Replaying a run in the system\<close>

text \<open>The exchanges of a client, in order, and the clusters they lead through.\<close>

fun served :: "cluster \<Rightarrow> (call \<times> resp) list \<Rightarrow> cluster \<Rightarrow> bool" where
  "served cl [] cl' \<longleftrightarrow> cl' = cl"
| "served cl ((c, r) # tr) cl' \<longleftrightarrow> (\<exists>m. serves cl c r m \<and> served m tr cl')"

lemma replay:
  assumes "(rev tr @ h, c) \<in> set (issuedAt p h rs)" and "served (sys_cluster s) tr cl"
    and "i < length (sys_clients s)" and "sys_clients s ! i = (h, p)"
    and "reachable init (sysStep release client) s"
  shows "\<exists>s' k. reachable init (sysStep release client) s' \<and> sys_cluster s' = cl \<and>
     sys_clients s' = (sys_clients s)[i := (rev tr @ h, Call c k)]"
  using assms
proof (induction tr arbitrary: p h rs s)
  case Nil
  from Nil(1) obtain k where "p = Call c k"
  proof (cases p)
    case (Call c0 k0)
    have "(h, c) \<notin> set (issuedAt (k0 r) ((c0, r) # h) rs')" for r rs'
      using issuedAt_extends [of h c "k0 r" "(c0, r) # h" rs'] by auto
    with Nil(1) Call have "c0 = c" by (cases rs) auto
    with Call that show ?thesis by simp
  qed (use Nil(1) in simp)
  with Nil show ?case by (metis list_update_id rev.simps(1) append_Nil served.simps(1))
next
  case (Cons e tr)
  obtain c1 r1 where e: "e = (c1, r1)" by fastforce
  from Cons.prems(1) obtain c0 k0 r0 rs' where p: "p = Call c0 k0" "rs = r0 # rs'"
      and rest: "(rev (e # tr) @ h, c) \<in> set (issuedAt (k0 r0) ((c0, r0) # h) rs')"
    by (cases p; cases rs) auto
  from issuedAt_extends [OF rest] obtain d where "rev tr @ e # h = d @ (c0, r0) # h" by auto
  then have same: "e = (c0, r0)" by simp
  then have 1: "(rev tr @ ((c0, r0) # h), c) \<in> set (issuedAt (k0 r0) ((c0, r0) # h) rs')" using rest by simp
  from Cons.prems(2) obtain m where m: "serves (sys_cluster s) c0 r0 m" "served m tr cl" using same by auto
  let ?s = "exchanged i ((c0, r0) # h, k0 r0) m s"
  have "sysStep release client s (Exchange i c0 r0) ?s"
    by (rule sysStep.exchange [OF Cons.prems(3) _ m(1)]) (use Cons.prems(4) p in simp)
  then have "reachable init (sysStep release client) ?s" by (rule reachable.step [OF Cons.prems(5)])
  with Cons.IH [OF 1, of ?s] m(2) Cons.prems(3) show ?case by (simp add: exchanged_def same)
qed

section \<open>A sample execution\<close>

text \<open>The Sandbox the hook creates for the sample request, as the server stores it.\<close>

definition storedNew :: "sandbox \<Rightarrow> sandbox" where
  "storedNew t = (newSandbox t sampleRequest 0)\<lparr>sb_uid := ''u9'', sb_resourceVersion := ''1'', sb_generation := 1\<rparr>"

text \<open>The same after the repair of its Secret pointers, as the hook patches it.\<close>

definition repairedNew :: "sandbox \<Rightarrow> sandbox" where
  "repairedNew t = (let sb = storedNew t; n = orderSecretName sampleHook sb sampleRequest in
     sb\<lparr>sb_annotations := (sb_annotations sb)(AnnotationPendingSecret \<mapsto> n, AnnotationLastOrderSecret \<mapsto> n)\<rparr>)"

lemma sample_repair:
  "\<exists>t p. let new = storedNew t; mut = repairedNew t; se = workOrderSecret new (sb_labels t) sampleRequest (orderSecretName sampleHook new sampleRequest)
     in ApplyContract sampleIdentity sampleContract sampleTemplate = Inr t \<and> Optimistic sampleLib new mut = Inr p \<and>
      (rev [(ReadFile ''/t'', RBytes ''yaml''), (GetSandbox (sb_namespace t) (sb_name t), RErr NotFound),
         (ListSandboxes ''ns'' (SelectorLabels ComponentRunner ''rel''), RSandboxes []), (Now, RTime 0),
         (CreateSandbox (newSandbox t sampleRequest 0), RSandbox new), (CreateSecret se, ROk)] @ [], PatchSandbox new mut p)
       \<in> set (issuedAt (Run sampleLib sampleHook sampleRequest) []
            [RBytes ''yaml'', RErr NotFound, RSandboxes [], RTime 0, RSandbox new, ROk])"
proof -
  obtain t where t: "ApplyContract sampleIdentity sampleContract sampleTemplate = Inr t"
    using sample_accepted by blast
  note m = ApplyContract_meets [OF t, unfolded meetsContract_def]
  have l: "label t LabelInstance = ''rel''" "label t LabelPartOf = PartOf" "label t LabelSessionID = LabelValue ''S-1''"
      "sb_deletionTimestamp t = None"
    using m ApplyContract_result [OF t] by (simp_all add: sampleIdentity_def sampleTemplate_def)
  let ?new = "storedNew t" and ?hk = "sampleHook\<lparr>hk_MaxAttempts := 12\<rparr>"
  let ?n = "orderSecretName sampleHook ?new sampleRequest"
  have f: "annot ?new AnnotationPendingSpawn = ''o2''" "annot ?new AnnotationPendingSecret = []"
      "annot ?new AnnotationLastOrderID = ''o2''" "annot ?new AnnotationLastOrderSecret = []"
      "annot ?new AnnotationLastOrderAttempt = FormatInt 2" "sb_deletionTimestamp ?new = None" "sb_labels ?new = sb_labels t"
      "sb_uid ?new = ''u9''" "sb_resourceVersion ?new = ''1''"
    using l(4) by (simp_all add: storedNew_def newSandbox_def sample_fields)
  have ev: "evaluate ?new sampleRequest ''rel'' = Inr DecisionRedelivery"
    using f l by (intro evaluate_redelivery)
      (simp_all add: deleting_def sample_fields inInt64_def minInt64_def maxInt64_def)
  define mut where "mut = repairedNew t"
  have mut: "repairPointers sampleRequest ?n ?new = Inr (mut, True)"
    using f by (simp add: repairPointers_def repairedNew_def mut_def Let_def sample_fields)
  obtain p where p: "Optimistic sampleLib ?new mut = Inr p"
    using sampleLib_Optimistic [of ?new mut] f by auto
  have n: "orderSecretName ?hk ?new sampleRequest = ?n" by (simp add: orderSecretName_def)
  have rec: "reconcileExisting sampleLib ?hk ?new t sampleRequest = repairRedelivery sampleLib ?hk ?new t sampleRequest"
    using ev by (simp add: reconcileExisting_def sample_fields)
  have cap: "checkCapacity ?hk None n = bindP (request asSandboxes (ListSandboxes ''ns'' (SelectorLabels ComponentRunner ''rel'')))
      (\<lambda>x. case x of Inl e \<Rightarrow> Ret (Inl (classifyAPIError ''listing Sandboxes for the active-session cap'' e))
        | Inr items \<Rightarrow> (let active = activeOthers n items in
           if int active < 1 then Ret (Inr ()) else Ret (Inl (retryable (AtCapacity active 1)))))" for n
    by (simp add: checkCapacity_def sampleHook_def Let_def cong: sum.case_cong)
  have "(rev [(ReadFile ''/t'', RBytes ''yaml''), (GetSandbox (sb_namespace t) (sb_name t), RErr NotFound),
         (ListSandboxes ''ns'' (SelectorLabels ComponentRunner ''rel''), RSandboxes []), (Now, RTime 0),
         (CreateSandbox (newSandbox t sampleRequest 0), RSandbox ?new),
         (CreateSecret (workOrderSecret ?new (sb_labels t) sampleRequest ?n), ROk)] @ [], PatchSandbox ?new mut p)
       \<in> set (issuedAt (Run sampleLib sampleHook sampleRequest) []
            [RBytes ''yaml'', RErr NotFound, RSandboxes [], RTime 0, RSandbox ?new, ROk])"
    unfolding sample_start runSession_def sample_ident sample_template
    by (simp add: thenP_def asBytes_def sample_parse t sample_loop sessionAttempt_def backoff_def request_def
        asSandbox_def createPath_def cap asSandboxes_def activeOthers_def createSandbox_def asTime_def afterRead_def
        rec repairRedelivery_def n Let_def ensureSecret_def asOk_def mut hookPatch_def p)
  with p t show ?thesis unfolding mut_def Let_def by blast
qed

lemma sample_execution:
  "\<exists>s h t p k. reachable blank (sysStep ''rel'' (shockClient sampleLib ''rel'')) s \<and>
     ApplyContract sampleIdentity sampleContract sampleTemplate = Inr t \<and>
     sys_clients s = [(h, Call (PatchSandbox (storedNew t) (repairedNew t) p) k)] \<and>
     cl_live (sys_cluster s) (keyOf (storedNew t)) = Some (storedNew t) \<and>
     cl_versions (sys_cluster s) = {storedNew t} \<and>
     label (storedNew t) LabelInstance = ''rel'' \<and> Optimistic sampleLib (storedNew t) (repairedNew t) = Inr p"
proof -
  let ?client = "shockClient sampleLib ''rel''" and ?p = "bindP (Run sampleLib sampleHook sampleRequest) (\<lambda>_. Ret ())"
  define s0 where "s0 = \<lparr>sys_cluster = \<lparr>cl_live = Map.empty, cl_versions = {}\<rparr>, sys_clients = []\<rparr>"
  define s1 where "s1 = s0\<lparr>sys_clients := [([], ?p)]\<rparr>"
  have "reachable blank (sysStep ''rel'' ?client) s0" by (rule reachable.start) (simp add: s0_def blank_def)
  moreover have "?client ?p"
    unfolding shockClient_def using sampleRequest_valid sample_fields(1) by blast
  then have "sysStep ''rel'' ?client s0 Launch s1"
    using sysStep.launch [of ?client ?p "''rel''" s0] by (simp add: s1_def s0_def)
  ultimately have r1: "reachable blank (sysStep ''rel'' ?client) s1" by (rule reachable.step)
  obtain t p where t: "ApplyContract sampleIdentity sampleContract sampleTemplate = Inr t"
      and opt: "Optimistic sampleLib (storedNew t) (repairedNew t) = Inr p"
      and run: "(rev [(ReadFile ''/t'', RBytes ''yaml''), (GetSandbox (sb_namespace t) (sb_name t), RErr NotFound),
         (ListSandboxes ''ns'' (SelectorLabels ComponentRunner ''rel''), RSandboxes []), (Now, RTime 0),
         (CreateSandbox (newSandbox t sampleRequest 0), RSandbox (storedNew t)),
         (CreateSecret (workOrderSecret (storedNew t) (sb_labels t) sampleRequest
            (orderSecretName sampleHook (storedNew t) sampleRequest)), ROk)] @ [], PatchSandbox (storedNew t) (repairedNew t) p)
       \<in> set (issuedAt (Run sampleLib sampleHook sampleRequest) []
            [RBytes ''yaml'', RErr NotFound, RSandboxes [], RTime 0, RSandbox (storedNew t), ROk])"
    using sample_repair by (auto simp: Let_def)
  let ?tr = "[(ReadFile ''/t'', RBytes ''yaml''), (GetSandbox (sb_namespace t) (sb_name t), RErr NotFound),
         (ListSandboxes ''ns'' (SelectorLabels ComponentRunner ''rel''), RSandboxes []), (Now, RTime 0),
         (CreateSandbox (newSandbox t sampleRequest 0), RSandbox (storedNew t)),
         (CreateSecret (workOrderSecret (storedNew t) (sb_labels t) sampleRequest
            (orderSecretName sampleHook (storedNew t) sampleRequest)), ROk)]"
  let ?cl = "storing (storedNew t) (sys_cluster s1)"
  have create: "commits (sys_cluster s1) (CreateSandbox (newSandbox t sampleRequest 0)) ?cl"
    by (rule commits.create) (simp_all add: s1_def s0_def freshVersion_def storedNew_def)
  have a: "answerOk (sys_cluster s1) c r" if "\<forall>sb. r \<noteq> RSandbox sb" "\<forall>se. r \<noteq> RSecret se" for c r
    using that by (simp add: answerOk_def)
  have ok: "answerOk ?cl (CreateSandbox (newSandbox t sampleRequest 0)) (RSandbox (storedNew t))" "answerOk ?cl (CreateSecret se) ROk" for se
    by (simp_all add: answerOk_def storing_def)
  have srv: "served (sys_cluster s1) ?tr ?cl"
    unfolding served.simps
    by (intro exI conjI, rule serves.answer, simp, rule a, simp, simp, rule serves.refuse, rule serves.answer, simp, rule a, simp, simp,
        rule serves.answer, simp, rule a, simp, simp, rule serves.written [OF create ok(1)], rule serves.written [OF commits.secret ok(2)], simp)
  have "\<exists>s' k. reachable blank (sysStep ''rel'' ?client) s' \<and> sys_cluster s' = ?cl \<and>
      sys_clients s' = (sys_clients s1)[0 := (rev ?tr @ [], Call (PatchSandbox (storedNew t) (repairedNew t) p) k)]"
    by (rule replay [where p = ?p and s = s1, OF _ srv])
      (use run r1 in \<open>simp_all only: issuedAt_bindP_Ret\<close>, simp_all add: s1_def)
  then obtain s h k where s: "reachable blank (sysStep ''rel'' ?client) s" "sys_cluster s = ?cl"
      "sys_clients s = [(h, Call (PatchSandbox (storedNew t) (repairedNew t) p) k)]"
    by (force simp: s1_def)
  moreover have "label (storedNew t) LabelInstance = ''rel''"
    using ApplyContract_meets [OF t] by (simp add: meetsContract_def sampleIdentity_def storedNew_def newSandbox_def)
  moreover have "cl_live (sys_cluster s) (keyOf (storedNew t)) = Some (storedNew t)"
      "cl_versions (sys_cluster s) = {storedNew t}"
    unfolding s(2) by (simp_all add: storing_def s1_def s0_def)
  ultimately show ?thesis using opt t by blast
qed

text \<open>
  The repair commits, the suspension is confirmed by another writer, and a pass that has read
  the result is about to wake the session.
\<close>

definition confirmedNew :: "sandbox \<Rightarrow> sandbox" where
  "confirmedNew t = (repairedNew t)\<lparr>sb_resourceVersion := ''3'', sb_generation := 0,
     sb_conditions := [sampleCondition SandboxConditionSuspended]\<rparr>"

definition wokenNew :: "sandbox \<Rightarrow> sandbox" where
  "wokenNew t = awake (confirmedNew t) (pendingOf (confirmedNew t)) (annot (confirmedNew t) AnnotationPendingSecret)"

lemma confirmedNew_fields:
  "sb_uid (confirmedNew t) = ''u9''" "sb_labels (confirmedNew t) = sb_labels t"
  "sb_name (confirmedNew t) = sb_name t" "sb_namespace (confirmedNew t) = sb_namespace t"
  "sb_deletionTimestamp (confirmedNew t) = sb_deletionTimestamp t" "sb_operatingMode (confirmedNew t) = Suspended"
  "sb_resourceVersion (confirmedNew t) = ''3''" "sb_generation (confirmedNew t) = 0"
  "sb_podTemplate (confirmedNew t) = sb_podTemplate t"
  "sb_conditions (confirmedNew t) = [sampleCondition SandboxConditionSuspended]"
  "pendingOf (confirmedNew t) = ''o2''" "lastOrderOf (confirmedNew t) = ''o2''"
  "annot (confirmedNew t) AnnotationLastOrderAttempt = FormatInt 2"
  "annot (confirmedNew t) AnnotationPendingSecret = orderSecretName sampleHook (storedNew t) sampleRequest"
  "sb_uid (storedNew t) = ''u9''"
  by (simp_all add: confirmedNew_def repairedNew_def storedNew_def newSandbox_def Let_def sample_fields)

lemma confirmedNew_ready:
  assumes "ApplyContract sampleIdentity sampleContract sampleTemplate = Inr t"
  shows "readyToWake sampleLib sampleReconciler (confirmedNew t)
     (workOrderSecret (storedNew t) Map.empty sampleRequest (orderSecretName sampleHook (storedNew t) sampleRequest))"
proof -
  note m = ApplyContract_meets [OF assms, unfolded meetsContract_def]
  have l: "label t LabelInstance = ''rel''" "label t LabelName = ComponentRunner" "label t LabelSessionID = LabelValue ''S-1''"
      "sb_deletionTimestamp t = None" "workOrderVolume (specOf t) \<noteq> None"
    using m ApplyContract_result [OF assms] by (auto simp: sampleIdentity_def sampleTemplate_def)
  have r: "rc_Release sampleReconciler = ''rel''" by (simp add: sampleReconciler_def)
  have "actsOn sampleReconciler (confirmedNew t)"
    using l by (simp add: actsOn_def deleting_def confirmedNew_fields r)
  moreover have "currentGenerationTrue sampleLib (confirmedNew t) SandboxConditionSuspended"
    by (simp add: sampleLib_condition confirmedNew_fields sampleCondition_def)
  moreover have "validateWorkOrderSecret (workOrderSecret (storedNew t) Map.empty sampleRequest
      (orderSecretName sampleHook (storedNew t) sampleRequest)) (confirmedNew t) ''o2'' ''rel'' = Inr ()"
    using workOrderSecret_valid [of "confirmedNew t" "storedNew t" sampleRequest Map.empty "''rel''"] l(3)
    by (simp add: confirmedNew_fields orderSecretName_def sample_fields sampleRequest_def)
  moreover have "hasWorkOrderVolume (confirmedNew t)"
    using l(5) by (auto simp: hasWorkOrderVolume_def confirmedNew_fields workOrderVolume_def list_ex_find)
  ultimately show ?thesis by (simp add: readyToWake_def confirmedNew_fields r orderSecretName_def)
qed

text \<open>The order is published and the suspension confirmed; the hook has seen its patch succeed.\<close>

lemma sample_confirmed:
  "\<exists>s t c. reachable blank (sysStep ''rel'' (shockClient sampleLib ''rel'')) s \<and>
     ApplyContract sampleIdentity sampleContract sampleTemplate = Inr t \<and> sys_clients s = [c] \<and>
     cl_live (sys_cluster s) (keyOf (confirmedNew t)) = Some (confirmedNew t) \<and>
     confirmedNew t \<in> cl_versions (sys_cluster s) \<and> storedNew t \<in> cl_versions (sys_cluster s)"
proof -
  let ?client = "shockClient sampleLib ''rel''"
  obtain s0 h0 t p0 k0 where r0: "reachable blank (sysStep ''rel'' ?client) s0"
      and t: "ApplyContract sampleIdentity sampleContract sampleTemplate = Inr t"
      and c0: "sys_clients s0 = [(h0, Call (PatchSandbox (storedNew t) (repairedNew t) p0) k0)]"
      and live0: "cl_live (sys_cluster s0) (keyOf (storedNew t)) = Some (storedNew t)"
      and vs0: "cl_versions (sys_cluster s0) = {storedNew t}"
      and opt0: "Optimistic sampleLib (storedNew t) (repairedNew t) = Inr p0"
    using sample_execution by blast
  let ?sb = "confirmedNew t" and ?rep = "(repairedNew t)\<lparr>sb_resourceVersion := ''2'', sb_generation := 0\<rparr>"
  have rv: "sb_resourceVersion (storedNew t) = ''1''" "keyOf ?rep = keyOf (storedNew t)" "keyOf ?sb = keyOf (storedNew t)"
      "sb_uid ?rep = sb_uid (storedNew t)" "sb_uid ?sb = sb_uid ?rep" "sb_labels ?sb = sb_labels ?rep" "sessionOf ?sb = sessionOf ?rep"
    by (simp_all add: confirmedNew_def repairedNew_def storedNew_def Let_def keyOf_def sessionOf_def)
  let ?cl1 = "storing ?rep (sys_cluster s0)"
  have "commits (sys_cluster s0) (PatchSandbox (storedNew t) (repairedNew t) p0) ?cl1"
    by (rule commits.patch [OF live0 Optimistic_pins(2) [OF opt0] Optimistic_pins(1) [OF opt0]])
      (simp_all add: freshVersion_def vs0 rv)
  then have "serves (sys_cluster s0) (PatchSandbox (storedNew t) (repairedNew t) p0) ROk ?cl1"
    by (rule serves.written) (simp add: answerOk_def)
  then have "sysStep ''rel'' ?client s0 (Exchange 0 (PatchSandbox (storedNew t) (repairedNew t) p0) ROk)
      (exchanged 0 ((PatchSandbox (storedNew t) (repairedNew t) p0, ROk) # h0, k0 ROk) ?cl1 s0)" (is "sysStep _ _ _ _ ?s1")
    by (intro sysStep.exchange) (simp_all add: c0)
  then have r1: "reachable blank (sysStep ''rel'' ?client) ?s1" by (rule reachable.step [OF r0])
  let ?s2 = "?s1\<lparr>sys_cluster := storing ?sb ?cl1\<rparr>"
  have "sysStep ''rel'' ?client ?s1 Interfere (?s1\<lparr>sys_cluster := storing ?sb (sys_cluster ?s1)\<rparr>)"
    by (rule sysStep.touch [of _ ?rep])
      (simp_all add: exchanged_def storing_def otherWriter_def freshVersion_def vs0 rv(1) confirmedNew_def keyOf_def sessionOf_def)
  then have "sysStep ''rel'' ?client ?s1 Interfere ?s2" by (simp add: exchanged_def)
  then have r2: "reachable blank (sysStep ''rel'' ?client) ?s2" by (rule reachable.step [OF r1])
  have "sys_clients ?s2 = [((PatchSandbox (storedNew t) (repairedNew t) p0, ROk) # h0, k0 ROk)]"
    by (simp add: exchanged_def c0)
  moreover have "cl_live (sys_cluster ?s2) (keyOf ?sb) = Some ?sb" "?sb \<in> cl_versions (sys_cluster ?s2)"
      "storedNew t \<in> cl_versions (sys_cluster ?s2)"
    by (simp_all add: storing_def vs0)
  ultimately show ?thesis using r2 t by blast
qed

lemma sample_waking:
  "\<exists>s h t p k. reachable blank (sysStep ''rel'' (shockClient sampleLib ''rel'')) s \<and>
     (h, Call (PatchSandbox (confirmedNew t) (wokenNew t) p) k) \<in> set (sys_clients s) \<and>
     cl_live (sys_cluster s) (keyOf (confirmedNew t)) = Some (confirmedNew t) \<and>
     storedNew t \<in> cl_versions (sys_cluster s) \<and> Optimistic sampleLib (confirmedNew t) (wokenNew t) = Inr p"
proof -
  let ?client = "shockClient sampleLib ''rel''"
  let ?p = "bindP (Reconcile sampleLib sampleReconciler freshState ''ns'' ''n'') (\<lambda>_. Ret ())"
  obtain s2 t c0 where r2: "reachable blank (sysStep ''rel'' ?client) s2"
      and t: "ApplyContract sampleIdentity sampleContract sampleTemplate = Inr t" and c0: "sys_clients s2 = [c0]"
      and live: "cl_live (sys_cluster s2) (keyOf (confirmedNew t)) = Some (confirmedNew t)"
      and vs: "confirmedNew t \<in> cl_versions (sys_cluster s2)" "storedNew t \<in> cl_versions (sys_cluster s2)"
    using sample_confirmed by blast
  let ?sb = "confirmedNew t"
  let ?s3 = "s2\<lparr>sys_clients := sys_clients s2 @ [([], ?p)]\<rparr>"
  have "?client ?p" unfolding shockClient_def by (metis sampleReconciler_def reconciler.select_convs(1))
  then have "sysStep ''rel'' ?client s2 Launch ?s3" by (rule sysStep.launch)
  then have r3: "reachable blank (sysStep ''rel'' ?client) ?s3" by (rule reachable.step [OF r2])
  let ?se = "workOrderSecret (storedNew t) Map.empty sampleRequest (orderSecretName sampleHook (storedNew t) sampleRequest)"
  obtain p where opt: "Optimistic sampleLib ?sb (wokenNew t) = Inr p"
    using sampleLib_Optimistic [of ?sb "wokenNew t"] by (auto simp: wokenNew_def awake_def confirmedNew_fields)
  let ?tr = "[(GetSandbox ''ns'' ''n'', RSandbox ?sb), (listPods sampleReconciler ?sb, RPods []),
       (GetSecret (sb_namespace ?sb) (annot ?sb AnnotationPendingSecret), RSecret ?se)]"
  have run: "(rev ?tr @ [], PatchSandbox ?sb (wokenNew t) p) \<in> set (issuedAt ?p [] [RSandbox ?sb, RPods [], RSecret ?se, ROk, ROk])"
    using run_issues [OF wake_run [OF confirmedNew_ready [OF t] opt [unfolded wokenNew_def], of freshState "''ns''" "''n''"], of 3]
    by (simp add: wokenNew_def numeral_3_eq_3)
  have srv: "served (sys_cluster ?s3) ?tr (sys_cluster ?s3)"
    unfolding served.simps
    by (intro exI conjI, (rule serves.answer, simp add: listPods_def,
        simp add: answerOk_def vs confirmedNew_fields workOrderSecret_def)+, simp)
  have "\<exists>s' k. reachable blank (sysStep ''rel'' ?client) s' \<and> sys_cluster s' = sys_cluster ?s3 \<and>
      sys_clients s' = (sys_clients ?s3)[1 := (rev ?tr @ [], Call (PatchSandbox ?sb (wokenNew t) p) k)]"
    by (rule replay [OF run srv _ _ r3]) (simp_all add: c0)
  then obtain s k where s: "reachable blank (sysStep ''rel'' ?client) s" "sys_cluster s = sys_cluster ?s3"
      "sys_clients s = (sys_clients ?s3)[1 := (rev ?tr @ [], Call (PatchSandbox ?sb (wokenNew t) p) k)]"
    by blast
  have "(rev ?tr @ [], Call (PatchSandbox ?sb (wokenNew t) p) k) \<in> set (sys_clients s)"
    by (simp add: s(3) c0)
  moreover have "cl_live (sys_cluster s) (keyOf ?sb) = Some ?sb" "storedNew t \<in> cl_versions (sys_cluster s)"
    using live vs(2) by (simp_all add: s(2))
  ultimately show ?thesis using s(1) opt by blast
qed

section \<open>Properties\<close>

text \<open>
  C1: Whatever hook processes and reconcile passes run, in whatever interleaving with each
  other, with stale reads, lost answers and other writers: the live Sandbox of the release keeps
  the session invariant (it runs only an order that was applied with its derived Secret; its
  pointers name derived Secrets; a pending order is the accepted one), and it is the newest
  version of its UID: no version ever had a higher accepted attempt, or the same attempt for
  another order, or the same order further along (waiting, installed, observed, asleep).
\<close>

theorem protocol_invariant:
  assumes "reachable blank (sysStep release (shockClient lib release)) s"
    and "cl_live (sys_cluster s) key = Some cur" and "label cur LabelInstance = release"
  shows "sessionInv (derivedName release cur) (sessionOf cur) \<and>
     (\<forall>v \<in> cl_versions (sys_cluster s). sb_uid v = sb_uid cur \<longrightarrow>
        attemptOf v \<le> attemptOf cur \<and> (attemptOf v = attemptOf cur \<longrightarrow> lastOrderOf v = lastOrderOf cur \<and> stageOf v \<le> stageOf cur))"
proof -
  have inv: "clusterInv release (sys_cluster s)"
    using shock.inv.reachable_inv [OF assms(1)] by (simp add: sysInv_def)
  have r: "ofRelease release cur" using assms(3) by (simp add: ofRelease_def)
  have "upToDate v cur" if "v \<in> cl_versions (sys_cluster s)" "sb_uid v = sb_uid cur" for v
    by (rule clusterInv_upToDate [OF inv assms(2) that r])
  moreover have "sandboxInv release cur"
    using clusterInv_sandboxInv [OF inv _ r] clusterInv_live [OF inv assms(2)] by simp
  ultimately show ?thesis using upToDateD by (simp add: sandboxInv_def)
qed

theorem protocol_invariant_witness:
  "\<exists>s t. reachable blank (sysStep ''rel'' (shockClient sampleLib ''rel'')) s \<and>
     cl_live (sys_cluster s) (keyOf (storedNew t)) = Some (storedNew t) \<and>
     sessionInv (derivedName ''rel'' (storedNew t)) (sessionOf (storedNew t))"
proof -
  obtain s t where e: "reachable blank (sysStep ''rel'' (shockClient sampleLib ''rel'')) s"
      "cl_live (sys_cluster s) (keyOf (storedNew t)) = Some (storedNew t)"
      "label (storedNew t) LabelInstance = ''rel''"
    using sample_execution by blast
  from protocol_invariant [OF e] e show ?thesis by blast
qed

text \<open>
  C3: No update is lost: when a pending patch of any client names the live object by its
  resourceVersion, the live object is exactly the one the patch was computed from, and the patch
  is a step of the session contract on it.
\<close>

theorem no_lost_update:
  assumes "reachable blank (sysStep release (shockClient lib release)) s"
    and "(h, Call (PatchSandbox orig mut doc) k) \<in> set (sys_clients s)"
    and "cl_live (sys_cluster s) key = Some cur"
    and "pinOf doc ''resourceVersion'' = Some (JStr (sb_resourceVersion cur))"
  shows "cur = orig \<and> (\<exists>a. legalPatch release cur a mut)"
proof -
  have inv: "sysInv release s" by (rule shock.inv.reachable_inv [OF assms(1)])
  then have "clusterInv release (sys_cluster s)" by (simp add: sysInv_def)
  moreover have "soundClient release (sys_cluster s) (h, Call (PatchSandbox orig mut doc) k)"
    using inv assms(2) unfolding sysInv_def by blast
  then have "grounded (sys_cluster s) h" "sysGuard release h (PatchSandbox orig mut doc)"
    by (simp_all add: soundClient_def)
  ultimately show ?thesis using pinned_is_live assms(3,4) by metis
qed

theorem no_lost_update_witness:
  "\<exists>(s :: system) (cur :: sandbox) h mut doc k. cl_live (sys_cluster s) (keyOf cur) = Some cur \<and>
     (h, Call (PatchSandbox cur mut doc) k) \<in> set (sys_clients s) \<and> (\<exists>a. legalPatch ''rel'' cur a mut)"
proof -
  obtain s h t p k where e: "reachable blank (sysStep ''rel'' (shockClient sampleLib ''rel'')) s"
      "(h, Call (PatchSandbox (storedNew t) (repairedNew t) p) k) \<in> set (sys_clients s)"
      "cl_live (sys_cluster s) (keyOf (storedNew t)) = Some (storedNew t)"
      "Optimistic sampleLib (storedNew t) (repairedNew t) = Inr p"
    using sample_execution by (metis list.set_intros(1))
  from no_lost_update [OF e(1-3) Optimistic_pins(1) [OF e(4)]] e(2,3) show ?thesis by blast
qed

text \<open>
  C2: An accepted order is installed at most once: when a pending patch that would wake a
  session names the live object by its resourceVersion, no version of that UID was ever running,
  or without the pending order, at the attempt that is accepted now.
\<close>

theorem installed_at_most_once:
  assumes "reachable blank (sysStep release (shockClient lib release)) s"
    and "(h, Call (PatchSandbox orig mut doc) k) \<in> set (sys_clients s)"
    and "cl_live (sys_cluster s) key = Some cur"
    and "pinOf doc ''resourceVersion'' = Some (JStr (sb_resourceVersion cur))"
    and "sb_operatingMode orig \<noteq> Running" and "sb_operatingMode mut = Running"
    and "v \<in> cl_versions (sys_cluster s)" and "sb_uid v = sb_uid cur" and "attemptOf v = attemptOf cur"
  shows "sb_operatingMode v = Suspended \<and> pendingOf v \<noteq> [] \<and> lastOrderOf v = annot mut AnnotationAppliedSpawn"
proof -
  have inv: "sysInv release s" by (rule shock.inv.reachable_inv [OF assms(1)])
  then have cl: "clusterInv release (sys_cluster s)" by (simp add: sysInv_def)
  have "soundClient release (sys_cluster s) (h, Call (PatchSandbox orig mut doc) k)"
    using inv assms(2) unfolding sysInv_def by blast
  then have "grounded (sys_cluster s) h" "sysGuard release h (PatchSandbox orig mut doc)"
    by (simp_all add: soundClient_def)
  note p = pinned_is_live [OF cl this assms(3,4)]
  obtain a where a: "legalPatch release cur a mut" using p(2) by blast
  then have lc: "lifecycle (derivedName release cur) (sessionOf cur) a (sessionOf mut)" by (simp add: legalPatch_def)
  have m: "s_mode (sessionOf cur) \<noteq> Running" "s_mode (sessionOf mut) = Running"
    using assms(5,6) p(1) by (simp_all add: sessionOf_def)
  have w: "stageOf cur = 0 \<and> s_applied (sessionOf mut) = s_lastID (sessionOf cur)"
    using lc m by (cases rule: lifecycle.cases) (simp_all add: stageOf_def stage_def)
  have "ofRelease release cur" by (rule legalPatch_sound(4) [OF a refl])
  from upToDateD [OF clusterInv_upToDate [OF cl assms(3,7,8) this]]
  have "stageOf v = 0" "lastOrderOf v = lastOrderOf cur" using assms(9) w by simp_all
  then show ?thesis
    using w by (auto simp: stageOf_def stage_def sessionOf_def split: if_splits)
qed

theorem installed_at_most_once_witness:
  "\<exists>(s :: system) t. cl_live (sys_cluster s) (keyOf (confirmedNew t)) = Some (confirmedNew t) \<and>
     storedNew t \<in> cl_versions (sys_cluster s) \<and> sb_operatingMode (storedNew t) = Suspended \<and>
     pendingOf (storedNew t) \<noteq> [] \<and> lastOrderOf (storedNew t) = annot (wokenNew t) AnnotationAppliedSpawn"
proof -
  obtain s h t p k where e: "reachable blank (sysStep ''rel'' (shockClient sampleLib ''rel'')) s"
      "(h, Call (PatchSandbox (confirmedNew t) (wokenNew t) p) k) \<in> set (sys_clients s)"
      "cl_live (sys_cluster s) (keyOf (confirmedNew t)) = Some (confirmedNew t)"
      "storedNew t \<in> cl_versions (sys_cluster s)" "Optimistic sampleLib (confirmedNew t) (wokenNew t) = Inr p"
    using sample_waking by blast
  have "attemptOf (storedNew t) = attemptOf (confirmedNew t)"
    by (simp add: attemptOf_def confirmedNew_fields storedNew_def newSandbox_def sample_fields)
  moreover have "sb_operatingMode (confirmedNew t) \<noteq> Running" "sb_operatingMode (wokenNew t) = Running"
    by (simp_all add: confirmedNew_fields wokenNew_def awake_def)
  ultimately show ?thesis
    using installed_at_most_once [OF e(1-3) Optimistic_pins(1) [OF e(5)] _ _ e(4)] e(3,4)
    by (intro exI [of _ s] exI [of _ t]) (simp add: confirmedNew_fields)
qed

end
