(* ===== verification/Passes.thy ===== *)
theory Passes
  imports ReconcilerProps "HOL-Library.Multiset"
begin

text \<open>
  Reconcile passes one after another and what they promise beyond a single write: a pass
  returns, the sessions chosen for collection are the oldest, a session's age counts from the
  moment it was put to sleep, the multiple-Pods alarm is raised at the rising edges only and a
  stuck Pod is reported once.
\<close>

section \<open>A pass returns\<close>

lemma calls_recPatch: "callsWithin (recPatch lib orig mut) 1"
  by (auto simp: recPatch_def request_def split: sum.splits)

lemma calls_emit: "callsWithin (emit sb t rsn args) 1"
  by (simp add: emit_def)

lemma calls_emit_ret: "callsWithin (bindP (emit sb t rsn args) (\<lambda>_. Ret x)) 1"
  by (rule calls_bindP [OF calls_emit, of _ 0]) simp_all

lemma calls_patch_emit:
  "callsWithin (thenP (recPatch lib orig mut) (\<lambda>_. bindP (emit sb t rsn args) (\<lambda>_. Ret x))) 2"
  by (rule calls_thenP [OF calls_recPatch calls_emit_ret]) simp

lemma calls_spawnObservation: "callsWithin (spawnObservation lib sb pods) 2"
  using calls_patch_emit by (auto simp: spawnObservation_def Let_def split: option.splits)

lemma calls_recSleep: "callsWithin (recSleep lib sb) 3"
  using calls_patch_emit by (auto simp: recSleep_def Let_def request_def)

lemma calls_wake: "callsWithin (wake lib rc sb) 3"
proof -
  have e: "callsWithin (bindP (emit sb t rsn args) (\<lambda>_. Ret x)) n" if "0 < n" for t rsn args x n
    using callsWithin_mono [OF calls_emit_ret, of n] that by simp
  show ?thesis
    using calls_patch_emit unfolding wake_def Let_def request_def
    by (auto intro!: e split: sum.splits)
qed

lemma calls_zombieLoop: "callsWithin (zombieLoop rc sb now pods requeue alerted) (length pods)"
proof (induction pods arbitrary: requeue alerted)
  case (Cons p pods)
  have "callsWithin (bindP (emit sb t rsn args) (\<lambda>_. zombieLoop rc sb now pods requeue al)) (Suc (length pods))"
    for t rsn args al
    by (rule calls_bindP [OF calls_emit Cons.IH]) simp
  moreover have "callsWithin (zombieLoop rc sb now pods d al) (Suc (length pods))" for d al
    by (rule callsWithin_mono [OF Cons.IH]) simp
  ultimately show ?case by (auto simp: Let_def split: option.splits)
qed simp

lemma calls_zombie: "callsWithin (zombie rc st sb pods) (1 + length pods)"
proof -
  have "callsWithin (bindP (zombieLoop rc sb now pods 0 al) (\<lambda>(requeue, alerted). Ret (requeue, st\<lparr>rs_zombiesAlerted := alerted\<rparr>)))
      (length pods)" for now al
    by (rule calls_bindP [OF calls_zombieLoop, of _ 0]) auto
  then show ?thesis by (simp add: zombie_def request_def)
qed

lemma calls_gcReasonOf: "callsWithin (gcReasonOf lib rc sb idle) 1"
  by (auto simp: gcReasonOf_def idleVictims_def request_def thenP_def split: sum.splits)

lemma calls_gc: "callsWithin (gc lib rc sb) 4"
proof -
  have d: "callsWithin (bindP (request asOk c) (\<lambda>x. case x of Inl err \<Rightarrow> (if err = NotFound then Ret (Inr (True, 0))
        else Ret (Inl (Deleting err))) | Inr _ \<Rightarrow> bindP (emit sb t rsn args) (\<lambda>_. Ret (Inr (True, 0))))) 2" for c t rsn args
    using calls_emit_ret by (auto simp: request_def split: sum.splits)
  have "callsWithin (thenP (gcReasonOf lib rc sb (timeSub now at)) (\<lambda>reason. case reason of
      None \<Rightarrow> Ret (Inr (False, wrapInt64 (op_GCMaxIdleAge (rc_Options rc) - timeSub now at)))
    | Some why \<Rightarrow> bindP (request asOk (DeleteSandbox (sb_namespace sb) (sb_name sb) (sb_uid sb) (sb_resourceVersion sb))) (\<lambda>x.
        case x of Inl err \<Rightarrow> (if err = NotFound then Ret (Inr (True, 0)) else Ret (Inl (Deleting err)))
        | Inr _ \<Rightarrow> bindP (emit sb EventTypeNormal EventGarbageCollected [ReasonArg why]) (\<lambda>_. Ret (Inr (True, 0)))))) 3" for now at
    by (rule calls_thenP [OF calls_gcReasonOf, of _ 2]) (auto intro: d split: option.splits)
  then show ?thesis
    unfolding gc_def Let_def
    by (auto simp: calls_bindP [OF callsWithin_request, of 1 _ 3] split: sum.splits option.splits)
qed

lemma calls_alarm: "callsWithin (alarm lib st sb) 1"
  unfolding alarm_def Let_def by (simp only: calls_emit_ret callsWithin.simps split: if_split) simp

lemma calls_predicate:
  "callsWithin p m \<Longrightarrow> callsWithin rest n \<Longrightarrow> callsWithin (predicate p st rest) (m + n)"
  unfolding predicate_def by (erule callsWithin_bindP) (auto split: sum.splits)

lemma calls_lastPredicates: "callsWithin (lastPredicates lib rc st sb pods) (6 + length pods)"
proof -
  have "callsWithin (bindP (alarm lib st' sb) (\<lambda>st. Ret (st, Inr d))) 1" for st' and d :: duration
    by (rule calls_bindP [OF calls_alarm, of _ 0]) simp_all
  then have "callsWithin (bindP (gc lib rc sb) (\<lambda>g. case g of Inl e \<Rightarrow> Ret (st', Inl e)
      | Inr (done, requeue) \<Rightarrow> (if done then Ret (st', Inr 0)
          else bindP (alarm lib st' sb) (\<lambda>st. Ret (st, Inr (earlier after requeue)))))) 5" for after st'
    by (intro calls_bindP [OF calls_gc, of _ 1]) (auto split: sum.splits)
  then show ?thesis
    unfolding lastPredicates_def Let_def
    by (intro calls_bindP [OF calls_zombie, of _ 5]) (auto split: prod.splits)
qed

text \<open>The Pods the API server lists in a run.\<close>

definition podsIn :: "resp list \<Rightarrow> nat" where
  "podsIn rs = sum_list (map (\<lambda>r. case r of RPods l \<Rightarrow> length l | _ \<Rightarrow> 0) rs)"

lemma calls_actOn:
  "length pods \<le> n \<Longrightarrow> callsWithin (predicate (spawnObservation lib sb pods) st (predicate (recSleep lib sb) st
     (predicate (wake lib rc sb) st (lastPredicates lib rc st sb pods)))) (14 + n)"
  using calls_predicate [OF calls_spawnObservation [of lib sb pods] calls_predicate [OF calls_recSleep [of lib sb]
      calls_predicate [OF calls_wake [of lib rc sb] calls_lastPredicates [of lib rc st sb pods]]]]
  by (rule callsWithin_mono) simp

text \<open>
  C29: A pass returns: it issues at most sixteen calls and one more per Pod the API server
  listed, and once as many responses have arrived it has a result.
\<close>

theorem controller_pass_returns:
  assumes "16 + podsIn rs \<le> length rs"
  shows "length (issued (Reconcile lib rc st ns n) rs) \<le> 16 + podsIn rs \<and>
     (\<exists>x. result (Reconcile lib rc st ns n) rs = Some x)"
proof -
  obtain r r' rs' where rs: "rs = r # r' # rs'"
    using assms by (cases rs; cases "tl rs") auto
  have "length (issuedAt (Reconcile lib rc st ns n) [] rs) \<le> 16 + podsIn rs \<and>
      (\<exists>x. result (Reconcile lib rc st ns n) rs = Some x)"
  proof (cases "asSandbox r")
    case (Inr sb)
    note r = this
    let ?f = "\<lambda>p. case lib_getControllerOf lib (p_owners p) of None \<Rightarrow> False | Some ref \<Rightarrow> or_uid ref = sb_uid sb"
    show ?thesis
    proof (cases "asPods r'")
      case (Inr items)
      have "length (filter ?f items) \<le> podsIn rs"
        using Inr by (simp add: rs podsIn_def) (meson le_add2 le_trans length_filter_le le_add1)
      note w = calls_actOn [OF this, of lib sb st rc]
      have "length (issuedAt (predicate (spawnObservation lib sb (filter ?f items)) st (predicate (recSleep lib sb) st
          (predicate (wake lib rc sb) st (lastPredicates lib rc st sb (filter ?f items))))) h rs') \<le> 14 + podsIn rs" for h
        by (rule callsWithin_issuedAt [OF w])
      moreover have "\<exists>x. result (predicate (spawnObservation lib sb (filter ?f items)) st (predicate (recSleep lib sb) st
          (predicate (wake lib rc sb) st (lastPredicates lib rc st sb (filter ?f items))))) rs' = Some x"
        by (rule callsWithin_result [OF w]) (use assms in \<open>simp add: rs\<close>)
      ultimately show ?thesis
        using r Inr by (simp add: Reconcile_def request_def ownedPods_def rs asSandbox_def asPods_def)
    qed (use r in \<open>simp add: Reconcile_def request_def ownedPods_def rs asSandbox_def\<close>)
  qed (simp add: Reconcile_def request_def rs)
  then show ?thesis by (simp add: issued_def)
qed

text \<open>A run of a hundred refused calls, as the cheapest one: the first call ends the pass.\<close>

theorem controller_pass_returns_witness:
  "length (issued (Reconcile sampleLib sampleReconciler freshState ''ns'' ''n'') (replicate 16 (RErr NotFound))) \<le> 16 \<and>
   (\<exists>x. result (Reconcile sampleLib sampleReconciler freshState ''ns'' ''n'') (replicate 16 (RErr NotFound)) = Some x)"
  using controller_pass_returns [of "replicate 16 (RErr NotFound)"] by (simp add: podsIn_def sum_list_replicate)

section \<open>Collection\<close>

text \<open>
  The sessions collected beyond the cap are as many as exceed it, and the oldest ones:
  every one of them comes, by the time it was suspended and then by name, before every session
  that is kept.
\<close>

theorem selectVictims_oldest:
  assumes "0 \<le> m"
  shows "\<exists>kept. mset idle = mset (selectVictims m idle) + mset kept \<and>
     int (length (selectVictims m idle)) = max 0 (int (length idle) - m) \<and>
     (\<forall>v \<in> set (selectVictims m idle). \<forall>k \<in> set kept. ie_key v \<le> ie_key k)"
proof -
  let ?n = "nat (int (length idle) - m)" and ?s = "sort idle"
  have v: "selectVictims m idle = take ?n ?s" by (simp add: selectVictims_def Let_def)
  have "mset (take ?n ?s) + mset (drop ?n ?s) = mset idle"
    by (metis append_take_drop_id mset_append mset_sort)
  moreover have "int (length (take ?n ?s)) = max 0 (int (length idle) - m)" using assms by simp
  moreover have "sorted (take ?n ?s @ drop ?n ?s)" by simp
  then have "\<forall>v \<in> set (take ?n ?s). \<forall>k \<in> set (drop ?n ?s). v \<le> k" unfolding sorted_append by blast
  ultimately show ?thesis unfolding v
    by (intro exI [of _ "drop ?n ?s"]) (simp add: less_eq_idleEntry_def)
qed

theorem selectVictims_oldest_witness:
  "\<exists>kept. mset [IdleEntry ''b'' ''2'' 5, IdleEntry ''a'' ''1'' 3]
      = mset (selectVictims 1 [IdleEntry ''b'' ''2'' 5, IdleEntry ''a'' ''1'' 3]) + mset kept \<and>
     length (selectVictims 1 [IdleEntry ''b'' ''2'' 5, IdleEntry ''a'' ''1'' 3]) = 1"
  using selectVictims_oldest [of 1 "[IdleEntry ''b'' ''2'' 5, IdleEntry ''a'' ''1'' 3]"] by auto

text \<open>
  C33: The age of a sleeping session counts from the moment it was put to sleep: once its
  suspension is confirmed, the controller reads back from the annotation the second at which
  the sleep patch was made, for every instant of the years 0 to 9999.
\<close>

theorem asleep_idleSince:
  assumes "yearZeroTo9999 now" and "\<not> deleting sb" and "pendingOf sb = []"
    and "sb' = (asleep sb now)\<lparr>sb_resourceVersion := rv, sb_generation := g, sb_conditions := cs\<rparr>"
    and "currentGenerationTrue lib sb' SandboxConditionSuspended"
  shows "idleSince lib sb' = Inr (Some (now div nsPerSec * nsPerSec))"
proof -
  have "\<not> deleting sb'" "sb_operatingMode sb' = Suspended" "pendingOf sb' = []"
      "annot sb' AnnotationLastSuspendedAt = formatRFC3339 now"
    using assms(2,3) by (simp_all add: assms(4) asleep_def deleting_def)
  then show ?thesis using assms(5) parse_format [OF assms(1)] by (simp add: idleSince_def Let_def)
qed

theorem asleep_idleSince_witness:
  "idleSince sampleLib sampleAsleep = Inr (Some 0)"
proof -
  have "yearZeroTo9999 0" by (simp add: yearZeroTo9999_def epochSecs_def daysBefore_def)
  moreover have "\<not> deleting sampleRunning" "pendingOf sampleRunning = []" by (simp_all add: deleting_def sample_defs)
  moreover have "sampleAsleep = (asleep sampleRunning 0)\<lparr>sb_resourceVersion := ''7'', sb_generation := 0,
      sb_conditions := [sampleCondition SandboxConditionSuspended]\<rparr>"
    by (simp add: sampleAsleep_def asleep_def sample_defs)
  moreover have "currentGenerationTrue sampleLib sampleAsleep SandboxConditionSuspended"
    using sample_idleSince by (auto simp: idleSince_def split: if_splits)
  ultimately show ?thesis using asleep_idleSince [of 0] by fastforce
qed

section \<open>The alarm\<close>

text \<open>The alarm over a sequence of Sandboxes as read by successive passes.\<close>

fun alarms :: "k8sLib \<Rightarrow> recState \<Rightarrow> sandbox list \<Rightarrow> recState prog" where
  "alarms lib st [] = Ret st"
| "alarms lib st (sb # sbs) = bindP (alarm lib st sb) (\<lambda>st. alarms lib st sbs)"

text \<open>
  What is promised: an event for a read with multiple Pods when the previous read of the same
  Sandbox, by UID, had none or there was no previous read. \<open>prev\<close> are the reads before, the
  latest first.
\<close>

definition wasMultiple :: "k8sLib \<Rightarrow> sandbox list \<Rightarrow> sandbox \<Rightarrow> bool" where
  "wasMultiple lib prev sb = (case find (\<lambda>s. sb_uid s = sb_uid sb) prev of None \<Rightarrow> False | Some s \<Rightarrow> multiplePods lib s)"

fun risingEdges :: "k8sLib \<Rightarrow> sandbox list \<Rightarrow> sandbox list \<Rightarrow> sandbox list" where
  "risingEdges lib prev [] = []"
| "risingEdges lib prev (sb # sbs) =
     (if multiplePods lib sb \<and> \<not> wasMultiple lib prev sb then [sb] else []) @ risingEdges lib (sb # prev) sbs"

definition alarmEvent :: "k8sLib \<Rightarrow> sandbox \<Rightarrow> call" where
  "alarmEvent lib sb = eventOf sb EventTypeWarning EventMultiplePods (alarmMessage lib sb)"

lemma alarms_edges:
  assumes "\<And>sb. rs_multiplePods st (sb_uid sb) = wasMultiple lib prev sb" and "length sbs \<le> length rs"
  shows "map snd (issuedAt (alarms lib st sbs) h rs) = map (alarmEvent lib) (risingEdges lib prev sbs)"
  using assms
proof (induction sbs arbitrary: st prev h rs)
  case (Cons sb sbs)
  let ?m = "multiplePods lib sb"
  let ?st = "st\<lparr>rs_multiplePods := (rs_multiplePods st)(sb_uid sb := ?m)\<rparr>"
  have st: "rs_multiplePods ?st (sb_uid s) = wasMultiple lib (sb # prev) s" for s
    using Cons.prems(1) [of s] by (simp add: wasMultiple_def)
  obtain r rs' where rs: "rs = r # rs'" using Cons.prems(2) by (cases rs) auto
  have ih: "map snd (issuedAt (alarms lib ?st sbs) h rs) = map (alarmEvent lib) (risingEdges lib (sb # prev) sbs)"
      "map snd (issuedAt (alarms lib ?st sbs) h' rs') = map (alarmEvent lib) (risingEdges lib (sb # prev) sbs)" for h'
    using Cons.IH [of ?st "sb # prev"] st Cons.prems(2) by (simp_all add: rs)
  show ?case
  proof (cases "?m \<and> \<not> wasMultiple lib prev sb")
    case True
    then show ?thesis
      using ih(2) Cons.prems(1) [of sb]
      by (simp add: alarm_def Let_def emit_def request_def rs alarmEvent_def eventOf_def)
  next
    case False
    then have "alarm lib st sb = Ret ?st" using Cons.prems(1) [of sb] by (auto simp: alarm_def Let_def)
    with ih(1) False show ?thesis by auto
  qed
qed simp


definition sampleMultiple :: sandbox where
  "sampleMultiple = sampleRunning\<lparr>sb_conditions := [(sampleCondition SandboxConditionReady)
     \<lparr>cd_status := ConditionFalse, cd_reason := SandboxReasonMultiplePods\<rparr>]\<rparr>"


section \<open>Stuck Pods\<close>

definition stuck :: "reconciler \<Rightarrow> gotime \<Rightarrow> pod \<Rightarrow> bool" where
  "stuck rc now p \<longleftrightarrow> (case p_deletionTimestamp p of None \<Rightarrow> False
     | Some t \<Rightarrow> op_ZombieAlertAfter (rc_Options rc) \<le> timeSub now t)"

definition terminatingFor :: "gotime \<Rightarrow> pod \<Rightarrow> duration" where
  "terminatingFor now p = (case p_deletionTimestamp p of None \<Rightarrow> 0 | Some t \<Rightarrow> durTruncate (timeSub now t) nsPerSec)"

definition stuckEvent :: "gotime \<Rightarrow> sandbox \<Rightarrow> pod \<Rightarrow> call" where
  "stuckEvent now sb p = eventOf sb EventTypeWarning EventPodStuckTerminating
     [StrArg (p_name p), DurArg (terminatingFor now p), StrArg (p_nodeName p)]"

text \<open>How long until a Pod that is terminating but not yet stuck will be.\<close>

definition waitOf :: "reconciler \<Rightarrow> gotime \<Rightarrow> pod \<Rightarrow> duration option" where
  "waitOf rc now p = (case p_deletionTimestamp p of None \<Rightarrow> None
     | Some t \<Rightarrow> (if stuck rc now p then None else Some (op_ZombieAlertAfter (rc_Options rc) - timeSub now t)))"

definition soonest :: "duration \<Rightarrow> duration list \<Rightarrow> duration" where
  "soonest d ws = (if ws = [] then d else if d = 0 then Min (set ws) else min d (Min (set ws)))"

lemma soonest_Cons:
  assumes "0 < w" and "\<forall>d \<in> set ws. 0 < d"
  shows "soonest d (w # ws) = soonest (if d = 0 \<or> w < d then w else d) ws"
proof (cases "ws = []")
  case False
  then have "0 < Min (set ws)" using assms(2) by simp
  with False assms(1) show ?thesis by (auto simp: soonest_def min_def)
qed (use assms in \<open>auto simp: soonest_def min_def\<close>)

text \<open>The three ways a Pod is treated: passed over, waited for, reported.\<close>

lemma zombieLoop_skip:
  assumes "waitOf rc now p = None" and "stuck rc now p \<longrightarrow> al (p_uid p)"
  shows "zombieLoop rc sb now (p # pods) d al = zombieLoop rc sb now pods d al"
  using assms by (auto simp: waitOf_def stuck_def Let_def split: option.splits if_splits)

lemma zombieLoop_wait:
  assumes "waitOf rc now p = Some w" and "inInt64 w"
  shows "zombieLoop rc sb now (p # pods) d al = zombieLoop rc sb now pods (if d = 0 \<or> w < d then w else d) al"
  using assms by (auto simp: waitOf_def stuck_def Let_def wrapInt64_id split: option.splits if_splits)

lemma zombieLoop_report:
  assumes "stuck rc now p" and "\<not> al (p_uid p)"
  shows "zombieLoop rc sb now (p # pods) d al =
    Call (stuckEvent now sb p) (\<lambda>_. zombieLoop rc sb now pods d (al(p_uid p := True)))"
  using assms by (auto simp: stuck_def Let_def emit_def request_def stuckEvent_def terminatingFor_def eventOf_def
      split: option.splits)

lemma zombieLoop_result:
  assumes "length pods \<le> length rs" and "distinct (map p_uid pods)"
    and "\<forall>p \<in> set pods. \<forall>d. waitOf rc now p = Some d \<longrightarrow> inInt64 d"
  shows "map snd (issuedAt (zombieLoop rc sb now pods d al) h rs)
       = map (stuckEvent now sb) (filter (\<lambda>p. stuck rc now p \<and> \<not> al (p_uid p)) pods) \<and>
     result (zombieLoop rc sb now pods d al) rs
       = Some (soonest d (List.map_filter (waitOf rc now) pods),
               \<lambda>u. al u \<or> (\<exists>p \<in> set pods. stuck rc now p \<and> p_uid p = u))"
  using assms
proof (induction pods arbitrary: d al h rs)
  case Nil
  then show ?case by (simp add: soonest_def map_filter_simps)
next
  case (Cons p pods)
  note ih = Cons.IH [OF _ distinct_tl [OF Cons.prems(2), simplified list.map list.sel]]
  have le: "length pods \<le> length rs" and w: "\<forall>p \<in> set pods. \<forall>d. waitOf rc now p = Some d \<longrightarrow> inInt64 d"
    using Cons.prems by auto
  consider (wait) d where "waitOf rc now p = Some d" "\<not> stuck rc now p"
    | (skip) "waitOf rc now p = None" "stuck rc now p \<longrightarrow> al (p_uid p)"
    | (report) "waitOf rc now p = None" "stuck rc now p" "\<not> al (p_uid p)"
    by (cases "waitOf rc now p") (auto simp: waitOf_def stuck_def split: option.splits if_splits)
  then show ?case
  proof cases
    case (wait d')
    have pos: "waitOf rc now p = Some w \<Longrightarrow> 0 < w" for p w
      by (auto simp: waitOf_def stuck_def split: option.splits if_splits)
    then have "\<forall>w \<in> set (List.map_filter (waitOf rc now) pods). 0 < w"
      by (auto simp: List.map_filter_def)
    then show ?thesis
      using ih [OF le w] wait zombieLoop_wait [OF wait(1)] pos [OF wait(1)] Cons.prems(3) by (simp add: map_filter_simps soonest_Cons del: zombieLoop.simps)
  next
    case skip
    then show ?thesis
      using ih [OF le w, of d al h] by (auto simp: zombieLoop_skip [where d = d] map_filter_simps simp del: zombieLoop.simps)
  next
    case report
    obtain r rs' where rs: "rs = r # rs'" "length pods \<le> length rs'" using Cons.prems(1) by (cases rs) auto
    define al' where "al' = al(p_uid p := True)"
    note z = ih [OF rs(2) w, of d al' "(stuckEvent now sb p, r) # h"]
    have "filter (\<lambda>q. stuck rc now q \<and> \<not> al' (p_uid q)) pods = filter (\<lambda>q. stuck rc now q \<and> \<not> al (p_uid q)) pods"
      using Cons.prems(2) by (intro filter_cong) (auto simp: al'_def image_iff)
    note ev = conjunct1 [OF z, unfolded this]
    have "(\<lambda>u. al' u \<or> (\<exists>q \<in> set pods. stuck rc now q \<and> p_uid q = u))
        = (\<lambda>u. al u \<or> (\<exists>q \<in> set (p # pods). stuck rc now q \<and> p_uid q = u))"
      using report(2) by (intro ext) (auto simp: al'_def)
    note res = conjunct2 [OF z, unfolded this]
    show ?thesis
      using ev res report zombieLoop_report [of rc now p al, OF report(2,3), folded al'_def] by (simp add: map_filter_simps rs del: zombieLoop.simps)
  qed
qed


definition sampleZombies :: reconciler where
  "sampleZombies = sampleReconciler\<lparr>rc_Options := (rc_Options sampleReconciler)\<lparr>op_ZombieEnabled := True, op_ZombieAlertAfter := 10\<rparr>\<rparr>"


end
