(* ===== verification/Delivery.thy ===== *)
theory Delivery
  imports Passes
begin

text \<open>
  The hook and the session controller one after the other: an order the hook has accepted is
  installed by the pass that finds the suspension confirmed, and taken off the pending list by
  the pass that finds a Pod made from the installed template; what a crashed hook left behind is
  completed when the order is delivered again.
\<close>

section \<open>From the accepted order to the installed one\<close>

lemma refreshedTemplate_volume:
  assumes "refreshedTemplate sb new = Some pt" and "namesSecret new"
  shows "list_ex (\<lambda>v. v_name v = WorkOrderVolumeName) (ps_volumes (pt_spec pt))"
proof -
  obtain spec where spec: "keepSecretName (specOf sb) (pt_spec new) = Some spec" "pt_spec pt = spec"
    using assms(1) by (auto simp: refreshedTemplate_def Let_def split: option.splits if_splits)
  have "workOrderVolume spec \<noteq> None"
    using spec(1) assms(2)
    by (auto simp: keepSecretName_def namesSecret_def workOrderVolume_def find_updateFirst split: option.splits)
  then show ?thesis by (auto simp: spec(2) workOrderVolume_def list_ex_find)
qed

text \<open>The Sandbox the hook's patch leaves, at a later version with other conditions.\<close>

definition acceptedLater :: "sandbox \<Rightarrow> spawnRequest \<Rightarrow> string \<Rightarrow> gotime \<Rightarrow> podTemplate \<Rightarrow> string \<Rightarrow> int \<Rightarrow> condition list \<Rightarrow> sandbox" where
  "acceptedLater sb req name now pt rv g cs =
     (acceptNewer sb req name now pt)\<lparr>sb_resourceVersion := rv, sb_generation := g, sb_conditions := cs\<rparr>"

lemma acceptedLater_ready:
  assumes req: "validRequest req" and ev: "evaluate sb req (rc_Release rc) = Inr DecisionNewer"
    and rel: "cf_Release (hk_Config hk) = rc_Release rc" and comp: "label sb LabelName = ComponentRunner"
    and pt: "refreshedTemplate sb new = Some pt" "namesSecret new"
    and sb': "sb' = acceptedLater sb req (orderSecretName hk sb req) now pt rv g cs"
    and cond: "currentGenerationTrue lib sb' SandboxConditionSuspended"
  shows "readyToWake lib rc sb' (workOrderSecret sb labels req (orderSecretName hk sb req))"
proof -
  let ?n = "orderSecretName hk sb req"
  have f: "sb_uid sb' = sb_uid sb" "sb_labels sb' = sb_labels sb" "sb_deletionTimestamp sb' = sb_deletionTimestamp sb"
      "sb_operatingMode sb' = Suspended" "pendingOf sb' = rq_OrderID req" "lastOrderOf sb' = rq_OrderID req"
      "annot sb' AnnotationPendingSecret = ?n" "annot sb' AnnotationLastOrderAttempt = FormatInt (rq_Attempt req)"
      "sb_podTemplate sb' = pt"
    by (simp_all add: sb' acceptedLater_def acceptNewer_def)
  have l: "\<not> deleting sb" "label sb LabelInstance = rc_Release rc" "label sb LabelSessionID = LabelValue (rq_SessionID req)"
    using ev by (auto elim: evaluate_InrE)
  have "actsOn rc sb'" using l(1,2) comp f(2,3) by (simp add: actsOn_def deleting_def)
  moreover have "rq_OrderID req \<noteq> []" "rq_WorkOrder req \<noteq> []"
    using req by (auto simp: validRequest_def orderIDPattern_def)
  moreover have "?n \<noteq> []" by (simp add: orderSecretName_def)
  moreover have "validateWorkOrderSecret (workOrderSecret sb labels req ?n) sb' (rq_OrderID req) (rc_Release rc) = Inr ()"
    unfolding orderSecretName_def rel
    by (rule workOrderSecret_valid) (use f l(3) \<open>rq_WorkOrder req \<noteq> []\<close> in simp_all)
  moreover have "hasWorkOrderVolume sb'"
    using refreshedTemplate_volume [OF pt] f(9) by (simp add: hasWorkOrderVolume_def)
  ultimately show ?thesis using f cond by (simp add: readyToWake_def)
qed

section \<open>From the installed order to the observed Pod\<close>

text \<open>A Pod the agent-sandbox controller makes from the Sandbox's template.\<close>

definition madeFrom :: "k8sLib \<Rightarrow> sandbox \<Rightarrow> pod \<Rightarrow> bool" where
  "madeFrom lib sb p \<longleftrightarrow> owns lib sb p \<and> p_volumes p = ps_volumes (specOf sb) \<and>
     mget (p_annotations p) AnnotationOrderID = mget (pt_annotations (sb_podTemplate sb)) AnnotationOrderID"

lemma installOrder_podSecret:
  assumes "list_ex (\<lambda>v. v_name v = WorkOrderVolumeName) (ps_volumes (pt_spec pt))"
    and "p_volumes p = ps_volumes (pt_spec (installOrder pending name pt))"
  shows "podWorkOrderSecret p = name"
proof -
  let ?f = "\<lambda>v. if v_name v = WorkOrderVolumeName then setSecretName name v else v"
  have s: "v_name (setSecretName name v) = v_name v" "\<exists>t. v_secret (setSecretName name v) = Some t \<and> ss_secretName t = name" for v
    by (simp_all add: setSecretName_def split: option.splits)
  have "\<exists>v t. find (\<lambda>v. v_name v = WorkOrderVolumeName \<and> v_secret v \<noteq> None) (map ?f vs) = Some v \<and>
      v_secret v = Some t \<and> ss_secretName t = name"
    if "list_ex (\<lambda>v. v_name v = WorkOrderVolumeName) vs" for vs
    using that
  proof (induction vs)
    case (Cons v vs)
    then show ?case using s [of v] by (cases "v_name v = WorkOrderVolumeName") auto
  qed simp
  from this [OF assms(1)] show ?thesis
    by (auto simp: podWorkOrderSecret_def assms(2) installOrder_def)
qed

lemma awake_spawned:
  assumes "readyToWake lib rc sb se" and "sb' = awake sb (pendingOf sb) (annot sb AnnotationPendingSecret)"
    and "madeFrom lib sb' p"
  shows "spawned lib rc sb' p"
proof -
  have "podWorkOrderSecret p = annot sb AnnotationPendingSecret"
    by (rule installOrder_podSecret [of "sb_podTemplate sb"])
      (use assms in \<open>simp_all add: readyToWake_def hasWorkOrderVolume_def madeFrom_def awake_def\<close>)
  moreover have "mget (p_annotations p) AnnotationOrderID = pendingOf sb"
    using assms(3) by (simp add: madeFrom_def assms(2) awake_def installOrder_def)
  moreover have "pendingOf sb' = pendingOf sb" "annot sb' AnnotationAppliedSpawn = pendingOf sb"
      "annot sb' AnnotationPendingSecret = annot sb AnnotationPendingSecret" "actsOn rc sb' = actsOn rc sb"
    by (simp_all add: assms(2) awake_def actsOn_def deleting_def)
  ultimately show ?thesis
    using assms(1,3) by (simp add: spawned_def readyToWake_def madeFrom_def)
qed

text \<open>
  An accepted order is delivered: on the Sandbox the hook's patch left, once the suspension
  of its generation is confirmed, a pass reads the very Secret the hook wrote and installs the
  order; and on the woken Sandbox, once a Pod made from its template is listed, a pass takes the
  order off. Neither pass leaves an error or a delay behind.
\<close>

theorem order_delivery:
  assumes "validRequest req" and "evaluate sb req (rc_Release rc) = Inr DecisionNewer"
    and "cf_Release (hk_Config hk) = rc_Release rc" and "label sb LabelName = ComponentRunner"
    and "ApplyContract (requestIdentity hk req) (hookContract hk) tmpl0 = Inr tmpl"
    and "refreshedTemplate sb (sb_podTemplate tmpl) = Some pt"
    and "sb' = acceptedLater sb req (orderSecretName hk sb req) now pt rv g cs"
    and "currentGenerationTrue lib sb' SandboxConditionSuspended"
    and "woken = awake sb' (rq_OrderID req) (orderSecretName hk sb req)"
    and "Optimistic lib sb' woken = Inr doc"
    and "madeFrom lib woken p" and "Optimistic lib woken (observed woken) = Inr doc'"
  shows "run (Reconcile lib rc st ns n) [RSandbox sb', RPods [], RSecret (workOrderSecret sb labels req (orderSecretName hk sb req)), ROk, ROk] =
       ([(GetSandbox ns n, RSandbox sb'), (listPods rc sb', RPods []),
         (GetSecret (sb_namespace sb') (orderSecretName hk sb req), RSecret (workOrderSecret sb labels req (orderSecretName hk sb req))),
         (PatchSandbox sb' woken doc, ROk), (eventOf sb' EventTypeNormal EventWake [StrArg (rq_OrderID req)], ROk)], Some (st, Inr 0)) \<and>
     run (Reconcile lib rc st ns n) [RSandbox woken, RPods [p], ROk, ROk] =
       ([(GetSandbox ns n, RSandbox woken), (listPods rc woken, RPods [p]), (PatchSandbox woken (observed woken) doc', ROk),
         (eventOf woken EventTypeNormal EventSpawnObserved [StrArg (p_name p), StrArg (rq_OrderID req)], ROk)], Some (st, Inr 0))"
proof -
  have "namesSecret (sb_podTemplate tmpl)"
    using ApplyContract_meets [OF assms(5)] by (auto simp: namesSecret_def meetsContract_def)
  note ready = acceptedLater_ready [OF assms(1-4,6) this assms(7,8)]
  have f: "pendingOf sb' = rq_OrderID req" "annot sb' AnnotationPendingSecret = orderSecretName hk sb req"
    by (simp_all add: assms(7) acceptedLater_def acceptNewer_def)
  have w: "woken = awake sb' (pendingOf sb') (annot sb' AnnotationPendingSecret)" by (simp add: assms(9) f)
  have o: "pendingOf woken = rq_OrderID req" using f(1) by (simp add: assms(9) awake_def)
  have "Optimistic lib sb' (awake sb' (pendingOf sb') (annot sb' AnnotationPendingSecret)) = Inr doc"
    using assms(10) w by simp
  note wake = wake_run [OF ready this, folded w, unfolded f]
  note observe = observe_run [OF awake_spawned [OF ready w assms(11)] assms(12), unfolded o]
  show ?thesis by (intro conjI wake observe)
qed

definition sampleSpawnedPod :: "sandbox \<Rightarrow> pod" where
  "sampleSpawnedPod sb = samplePod\<lparr>p_annotations := pt_annotations (sb_podTemplate sb), p_volumes := ps_volumes (specOf sb)\<rparr>"

theorem order_delivery_witness:
  "\<exists>sb' woken :: sandbox. pendingOf sb' = ''o2'' \<and>
     result (Reconcile sampleLib sampleReconciler freshState ''ns'' ''n'')
       [RSandbox sb', RPods [], RSecret (workOrderSecret sampleRunning Map.empty sampleRequest (orderSecretName sampleHook sampleRunning sampleRequest)), ROk, ROk]
       = Some (freshState, Inr 0) \<and>
     result (Reconcile sampleLib sampleReconciler freshState ''ns'' ''n'') [RSandbox woken, RPods [sampleSpawnedPod woken], ROk, ROk]
       = Some (freshState, Inr 0)"
proof -
  obtain tmpl where t: "ApplyContract (requestIdentity sampleHook sampleRequest) (hookContract sampleHook) sampleTemplate = Inr tmpl"
    using sample_accepted by (auto simp: sample_ident)
  then have "namesSecret (sb_podTemplate tmpl)"
    using ApplyContract_meets by (fastforce simp: namesSecret_def meetsContract_def)
  then obtain pt where pt: "refreshedTemplate sampleRunning (sb_podTemplate tmpl) = Some pt"
    using refreshedTemplate_Some by blast
  let ?n = "orderSecretName sampleHook sampleRunning sampleRequest"
  define sb' where "sb' = acceptedLater sampleRunning sampleRequest ?n 0 pt ''8'' 0 [sampleCondition SandboxConditionSuspended]"
  define woken where "woken = awake sb' (rq_OrderID sampleRequest) ?n"
  have f: "pendingOf sb' = ''o2''" "sb_uid sb' = ''u1''" "sb_resourceVersion sb' = ''8''" "sb_generation sb' = 0"
      "sb_conditions sb' = [sampleCondition SandboxConditionSuspended]"
    by (simp_all add: sb'_def acceptedLater_def acceptNewer_def sample_fields) (simp_all add: sample_defs)
  then have c: "currentGenerationTrue sampleLib sb' SandboxConditionSuspended"
    by (simp add: sampleLib_condition sampleCondition_def)
  have w: "sb_uid woken = ''u1''" "sb_resourceVersion woken = ''8''" using f by (simp_all add: woken_def awake_def)
  obtain doc doc' where d: "Optimistic sampleLib sb' woken = Inr doc" "Optimistic sampleLib woken (observed woken) = Inr doc'"
    using sampleLib_Optimistic [of sb' woken] sampleLib_Optimistic [of woken "observed woken"] f w by auto
  have m: "madeFrom sampleLib woken (sampleSpawnedPod woken)"
    by (simp add: madeFrom_def sampleSpawnedPod_def owns_def sampleLib_def samplePod_def w)
  have r: "rc_Release sampleReconciler = ''rel''" "label sampleRunning LabelName = ComponentRunner"
    by (simp add: sampleReconciler_def) (simp add: sample_defs)
  show ?thesis
    using order_delivery [of sampleRequest sampleRunning sampleReconciler sampleHook sampleTemplate tmpl pt sb' 0 "''8''" 0
        "[sampleCondition SandboxConditionSuspended]" sampleLib woken doc "sampleSpawnedPod woken" doc' freshState "''ns''" "''n''" Map.empty,
        OF sampleRequest_valid _ _ r(2) t pt sb'_def c woken_def d(1) m d(2)] r(1) sample_evaluate sample_fields(1) f(1)
    by (intro exI [of _ sb'] exI [of _ woken]) (simp add: result_def)
qed

section \<open>After a crash\<close>

text \<open>
  A hook process that dies between creating the Sandbox and completing its pointers leaves the
  created object, at a later version perhaps; the Secret may exist or not.
\<close>

definition createdLater :: "sandbox \<Rightarrow> spawnRequest \<Rightarrow> gotime \<Rightarrow> string \<Rightarrow> string \<Rightarrow> int \<Rightarrow> condition list \<Rightarrow> sandbox" where
  "createdLater tmpl req now uid rv g cs = (newSandbox tmpl req now)
     \<lparr>sb_uid := uid, sb_resourceVersion := rv, sb_generation := g, sb_conditions := cs\<rparr>"

definition pointed :: "sandbox \<Rightarrow> string \<Rightarrow> sandbox" where
  "pointed sb name = sb\<lparr>sb_annotations := (sb_annotations sb)(AnnotationPendingSecret \<mapsto> name, AnnotationLastOrderSecret \<mapsto> name)\<rparr>"

definition secretAnswers :: "secret \<Rightarrow> resp list set" where
  "secretAnswers se = {[ROk], [RErr AlreadyExists, RSecret se]}"

lemma createdLater_fields:
  "pendingOf (createdLater tmpl req now uid rv g cs) = rq_OrderID req"
  "lastOrderOf (createdLater tmpl req now uid rv g cs) = rq_OrderID req"
  "annot (createdLater tmpl req now uid rv g cs) AnnotationLastOrderAttempt = FormatInt (rq_Attempt req)"
  "annot (createdLater tmpl req now uid rv g cs) AnnotationPendingSecret = []"
  "annot (createdLater tmpl req now uid rv g cs) AnnotationLastOrderSecret = []"
  "sb_operatingMode (createdLater tmpl req now uid rv g cs) = Suspended"
  "sb_labels (createdLater tmpl req now uid rv g cs) = sb_labels tmpl"
  "sb_podTemplate (createdLater tmpl req now uid rv g cs) = sb_podTemplate tmpl"
  "sb_deletionTimestamp (createdLater tmpl req now uid rv g cs) = sb_deletionTimestamp tmpl"
  by (simp_all add: createdLater_def newSandbox_def)

lemma repairPointers_pointed:
  assumes "pendingOf sb = rq_OrderID req" and "lastOrderOf sb = rq_OrderID req"
    and "annot sb AnnotationPendingSecret = []" and "annot sb AnnotationLastOrderSecret = []"
  shows "repairPointers req name sb = Inr (pointed sb name, True)"
  using assms by (simp add: repairPointers_def pointed_def Let_def)

lemma verifySecret_own: "verifySecret (workOrderSecret sb labels req name) (workOrderSecret sb labels req name) = Inr ()"
  by (simp add: verifySecret_def workOrderSecret_def)

lemma ensureSecret_run:
  assumes "answers \<in> secretAnswers (workOrderSecret sb (sb_labels tmpl) req name)"
  shows "\<exists>tr. run (ensureSecret sb tmpl req name) answers = (tr, Some (Inr ())) \<and> length tr = length answers \<and>
     run (ensureSecret sb tmpl req name) (answers @ rs) = (tr, Some (Inr ()))"
  using assms
  by (auto simp: secretAnswers_def ensureSecret_def Let_def request_def asOk_def asSecret_def verifySecret_own)

lemma repair_run:
  assumes "evaluate sb req (cf_Release (hk_Config hk)) = Inr DecisionRedelivery"
    and "repairPointers req (orderSecretName hk sb req) sb = Inr (mut, True)" and "Optimistic lib sb mut = Inr doc"
    and "answers \<in> secretAnswers (workOrderSecret sb (sb_labels tmpl) req (orderSecretName hk sb req))"
  shows "\<exists>tr. run (reconcileExisting lib hk sb tmpl req) (answers @ [ROk]) = (tr @ [(PatchSandbox sb mut doc, ROk)], Some (Inr True))"
proof -
  obtain tr where "run (ensureSecret sb tmpl req (orderSecretName hk sb req)) (answers @ [ROk]) = (tr, Some (Inr ()))"
      "length tr = length answers"
    using ensureSecret_run [OF assms(4)] by blast
  then show ?thesis
    using assms(1-3)
    by (simp add: reconcileExisting_def repairRedelivery_def Let_def thenP_def run_bindP hookPatch_def request_def asOk_def)
qed

text \<open>The labels and the volume the contract gives the rendered Sandbox.\<close>

lemma hookTemplate_fields:
  assumes "ApplyContract (requestIdentity hk req) (hookContract hk) t = Inr tmpl"
  shows "label tmpl LabelInstance = cf_Release (hk_Config hk)" "label tmpl LabelName = ComponentRunner"
    "label tmpl LabelSessionID = LabelValue (rq_SessionID req)" "workOrderVolume (specOf tmpl) \<noteq> None"
  using ApplyContract_meets [OF assms, unfolded meetsContract_def] by (auto simp: requestIdentity_def)

text \<open>Once the pointers are completed and the suspension is confirmed, the session is ready to be woken.\<close>

lemma pointed_ready:
  assumes "validRequest req" and "ApplyContract (requestIdentity hk req) (hookContract hk) t = Inr tmpl"
    and "sb_deletionTimestamp tmpl = None" and "sb = createdLater tmpl req now uid rv g cs"
    and "name = orderSecretName hk sb req" and "se = workOrderSecret sb (sb_labels tmpl) req name"
    and "later = (pointed sb name)\<lparr>sb_resourceVersion := rv', sb_generation := g', sb_conditions := cs'\<rparr>"
    and "rc_Release rc = cf_Release (hk_Config hk)" and "currentGenerationTrue lib later SandboxConditionSuspended"
  shows "readyToWake lib rc later se" and "pendingOf later = rq_OrderID req" and "annot later AnnotationPendingSecret = name"
proof -
  note l = hookTemplate_fields [OF assms(2)]
  note f = createdLater_fields [of tmpl req now uid rv g cs, folded assms(4)]
  have g: "sb_uid later = sb_uid sb" "sb_labels later = sb_labels tmpl" "sb_deletionTimestamp later = None"
      "sb_operatingMode later = Suspended" "pendingOf later = rq_OrderID req" "lastOrderOf later = rq_OrderID req"
      "annot later AnnotationPendingSecret = name" "annot later AnnotationLastOrderAttempt = FormatInt (rq_Attempt req)"
      "sb_podTemplate later = sb_podTemplate tmpl"
    using f assms(3) by (simp_all add: assms(7) pointed_def)
  then show "pendingOf later = rq_OrderID req" "annot later AnnotationPendingSecret = name" by simp_all
  have "actsOn rc later" using l g assms(8) by (simp add: actsOn_def deleting_def)
  moreover have "rq_OrderID req \<noteq> []" "rq_WorkOrder req \<noteq> []"
    using assms(1) by (auto simp: validRequest_def orderIDPattern_def)
  moreover have "name \<noteq> []" by (simp add: assms(5) orderSecretName_def)
  moreover have "validateWorkOrderSecret se later (rq_OrderID req) (rc_Release rc) = Inr ()"
    unfolding assms(6) unfolding assms(5,8) orderSecretName_def
    by (rule workOrderSecret_valid) (use g l \<open>rq_WorkOrder req \<noteq> []\<close> in simp_all)
  moreover have "hasWorkOrderVolume later"
    using l(4) g by (auto simp: hasWorkOrderVolume_def workOrderVolume_def list_ex_find)
  ultimately show "readyToWake lib rc later se" using g assms(9) by (simp add: readyToWake_def)
qed



text \<open>
  The template's own mark must be the one the hook later asks for. \<open>ValidateAnchors\<close> asks for
  some value only: with another one the hook creates the Sandbox, pending, and then refuses it
  as not managed, for ever.
\<close>

lemma other_part_of_refused:
  assumes "label tmpl LabelPartOf \<noteq> PartOf" and "\<not> deleting tmpl"
  shows "evaluate (createdLater tmpl req now uid rv g cs) req' release
     = Inl (nonRetryable (NotManaged (label tmpl LabelPartOf)))"
  using assms by (simp add: evaluate_def createdLater_fields deleting_def)

end
