(* ===== verification/Sequential.thy ===== *)
theory Sequential
  imports Protocol Delivery
begin

text \<open>
  Programs run to their end against an API server that nobody else writes to and that answers
  from its latest state: hook invocations and reconcile passes one after the other. The server is
  a parameter with the documented behaviour of each call as its laws; a small server with a list
  of objects has them.
\<close>

section \<open>Executing a program\<close>

primrec exec :: "('s \<Rightarrow> call \<Rightarrow> resp \<times> 's) \<Rightarrow> 'a prog \<Rightarrow> 's \<Rightarrow> 'a \<times> 's" where
  "exec answer (Ret x) s = (x, s)"
| "exec answer (Call c k) s = exec answer (k (fst (answer s c))) (snd (answer s c))"

primrec transcript :: "('s \<Rightarrow> call \<Rightarrow> resp \<times> 's) \<Rightarrow> 'a prog \<Rightarrow> 's \<Rightarrow> (call \<times> resp) list" where
  "transcript answer (Ret x) s = []"
| "transcript answer (Call c k) s =
     (c, fst (answer s c)) # transcript answer (k (fst (answer s c))) (snd (answer s c))"

lemma exec_bindP: "exec answer (bindP p f) s = exec answer (f (fst (exec answer p s))) (snd (exec answer p s))"
  by (induction p arbitrary: s) auto

lemma exec_request: "exec answer (request dec c) s = (dec (fst (answer s c)), snd (answer s c))"
  by (simp add: request_def)

lemma exec_thenP:
  "exec answer (thenP p f) s = (case exec answer p s of (Inl e, t) \<Rightarrow> (Inl e, t) | (Inr a, t) \<Rightarrow> exec answer (f a) t)"
  by (simp add: thenP_def exec_bindP split: prod.splits sum.splits)

lemmas exec_simps = exec_bindP exec_request exec_thenP

text \<open>An execution is a run, so what holds of all runs holds of it.\<close>

lemma exec_run: "run p (map snd (transcript answer p s)) = (transcript answer p s, Some (fst (exec answer p s)))"
  by (induction p arbitrary: s) auto

lemma exec_wp: "wp P Q p [] \<Longrightarrow> Q (fst (exec answer p s)) (rev (transcript answer p s))"
  using wp_run [OF _ exec_run, of P Q p "[]"] by simp

section \<open>The server's laws\<close>

text \<open>
  \<open>as_answer\<close> answers a call; the other fields are what an observer sees of a state: the Sandbox
  and the Secret stored under a namespace and a name, the Pods listed and the clock.
\<close>

record 's apiServer =
  as_answer :: "'s \<Rightarrow> call \<Rightarrow> resp \<times> 's"
  as_sandbox :: "'s \<Rightarrow> objectKey \<Rightarrow> sandbox option"
  as_secret :: "'s \<Rightarrow> objectKey \<Rightarrow> secret option"
  as_pods :: "'s \<Rightarrow> pod list"
  as_clock :: "'s \<Rightarrow> gotime"
  as_valid :: "'s \<Rightarrow> bool"
  as_file :: "string \<Rightarrow> resp"

definition sameObjects :: "'s apiServer \<Rightarrow> 's \<Rightarrow> 's \<Rightarrow> bool" where
  "sameObjects srv s t \<longleftrightarrow> as_sandbox srv t = as_sandbox srv s \<and> as_secret srv t = as_secret srv s \<and>
     as_pods srv t = as_pods srv s"

definition putSandbox :: "'s apiServer \<Rightarrow> 's \<Rightarrow> objectKey \<Rightarrow> sandbox option \<Rightarrow> 's \<Rightarrow> bool" where
  "putSandbox srv s key sb t \<longleftrightarrow> as_sandbox srv t = (as_sandbox srv s)(key := sb) \<and>
     as_secret srv t = as_secret srv s \<and> as_pods srv t = as_pods srv s"

text \<open>
  What a call answers and does. A patch of the stored object that carries its UID and version,
  and leaves its identity alone, takes effect; a deletion that carries them removes the object.
\<close>

definition lawful :: "'s apiServer \<Rightarrow> 's \<Rightarrow> call \<Rightarrow> resp \<Rightarrow> 's \<Rightarrow> bool" where
  "lawful srv s c r t \<longleftrightarrow> (case c of
     ReadFile path \<Rightarrow> sameObjects srv s t \<and> r = as_file srv path
   | GetSandbox ns n \<Rightarrow> sameObjects srv s t \<and>
       r = (case as_sandbox srv s (ns, n) of None \<Rightarrow> RErr NotFound | Some sb \<Rightarrow> RSandbox sb)
   | ListSandboxes ns sel \<Rightarrow> sameObjects srv s t \<and> (\<exists>items. r = RSandboxes items \<and> distinct (map keyOf items) \<and>
       (\<forall>sb. sb \<in> set items \<longleftrightarrow> as_sandbox srv s (keyOf sb) = Some sb \<and> sb_namespace sb = ns \<and> sel \<subseteq>\<^sub>m sb_labels sb))
   | CreateSandbox sb \<Rightarrow>
       if as_sandbox srv s (keyOf sb) \<noteq> None then sameObjects srv s t \<and> r = RErr AlreadyExists
       else \<exists>uid rv g. let new = sb\<lparr>sb_uid := uid, sb_resourceVersion := rv, sb_generation := g\<rparr>
         in r = RSandbox new \<and> putSandbox srv s (keyOf sb) (Some new) t
   | PatchSandbox orig mut doc \<Rightarrow>
       as_sandbox srv s (keyOf orig) = Some orig \<and> pinOf doc ''uid'' = Some (JStr (sb_uid orig)) \<and>
         pinOf doc ''resourceVersion'' = Some (JStr (sb_resourceVersion orig)) \<and>
         keyOf mut = keyOf orig \<and> sb_uid mut = sb_uid orig \<longrightarrow>
       (\<exists>rv g. let new = mut\<lparr>sb_resourceVersion := rv, sb_generation := g\<rparr>
         in r = RSandbox new \<and> putSandbox srv s (keyOf orig) (Some new) t)
   | DeleteSandbox ns n uid rv \<Rightarrow>
       (\<exists>sb. as_sandbox srv s (ns, n) = Some sb \<and> sb_uid sb = uid \<and> sb_resourceVersion sb = rv) \<longrightarrow>
         r = ROk \<and> as_sandbox srv t = (as_sandbox srv s)((ns, n) := None)
   | GetSecret ns n \<Rightarrow> sameObjects srv s t \<and>
       r = (case as_secret srv s (ns, n) of None \<Rightarrow> RErr NotFound | Some se \<Rightarrow> RSecret se)
   | CreateSecret se \<Rightarrow>
       if as_secret srv s (se_namespace se, se_name se) \<noteq> None then sameObjects srv s t \<and> r = RErr AlreadyExists
       else r = ROk \<and> as_sandbox srv t = as_sandbox srv s \<and> as_pods srv t = as_pods srv s \<and>
         as_secret srv t = (as_secret srv s)((se_namespace se, se_name se) \<mapsto> se)
   | ListPods ns sel \<Rightarrow> sameObjects srv s t \<and> r = RPods (as_pods srv s)
   | Emit e \<Rightarrow> sameObjects srv s t
   | Now \<Rightarrow> sameObjects srv s t \<and> r = RTime (as_clock srv s)
   | Pause d \<Rightarrow> sameObjects srv s t \<and> r = ROk)"

text \<open>In the states the server can be in: answers are lawful, and what is stored has its key, a UID and a version.\<close>

definition obeysAPI :: "'s apiServer \<Rightarrow> bool" where
  "obeysAPI srv \<longleftrightarrow> (\<forall>s. as_valid srv s \<longrightarrow>
     (\<forall>c. lawful srv s c (fst (as_answer srv s c)) (snd (as_answer srv s c)) \<and> as_valid srv (snd (as_answer srv s c))) \<and>
     (\<forall>key sb. as_sandbox srv s key = Some sb \<longrightarrow> keyOf sb = key \<and> sb_uid sb \<noteq> [] \<and> sb_resourceVersion sb \<noteq> []) \<and>
     (\<forall>key se. as_secret srv s key = Some se \<longrightarrow> (se_namespace se, se_name se) = key))"

section \<open>What the laws say of one call\<close>

lemma answer_lawful:
  assumes "obeysAPI srv" and "as_valid srv s"
  shows "lawful srv s c (fst (as_answer srv s c)) (snd (as_answer srv s c))" and "as_valid srv (snd (as_answer srv s c))"
  using assms by (simp_all add: obeysAPI_def)

lemma stored_key:
  assumes "obeysAPI srv" and "as_valid srv s" and "as_sandbox srv s key = Some sb"
  shows "keyOf sb = key" and "sb_uid sb \<noteq> []" and "sb_resourceVersion sb \<noteq> []"
  using assms unfolding obeysAPI_def by blast+

lemma secret_key:
  assumes "obeysAPI srv" and "as_valid srv s" and "as_secret srv s (ns, n) = Some se"
  shows "se_name se = n"
  using assms unfolding obeysAPI_def by blast

lemma exec_valid: "obeysAPI srv \<Longrightarrow> as_valid srv s \<Longrightarrow> as_valid srv (snd (exec (as_answer srv) p s))"
proof (induction p arbitrary: s)
  case (Call c k)
  then show ?case using answer_lawful(2) [of srv s c] by simp
qed simp

lemma sameObjects_refl [simp]: "sameObjects srv s s"
  by (simp add: sameObjects_def)

lemma sameObjects_trans [trans]: "sameObjects srv s t \<Longrightarrow> sameObjects srv t u \<Longrightarrow> sameObjects srv s u"
  by (simp add: sameObjects_def)

text \<open>Calls that only read.\<close>

lemma read_same:
  assumes "obeysAPI srv" and "as_valid srv s" and "\<not> isWrite c"
  shows "sameObjects srv s (snd (as_answer srv s c))"
  using answer_lawful(1) [OF assms(1,2), of c] assms(3) by (cases c) (auto simp: lawful_def)

lemma answers:
  assumes "obeysAPI srv" and "as_valid srv s"
  shows "fst (as_answer srv s (GetSandbox ns n)) = (case as_sandbox srv s (ns, n) of None \<Rightarrow> RErr NotFound | Some sb \<Rightarrow> RSandbox sb)"
    and "fst (as_answer srv s (GetSecret ns n)) = (case as_secret srv s (ns, n) of None \<Rightarrow> RErr NotFound | Some se \<Rightarrow> RSecret se)"
    and "fst (as_answer srv s (ReadFile path)) = as_file srv path"
    and "fst (as_answer srv s Now) = RTime (as_clock srv s)" and "fst (as_answer srv s (Pause d)) = ROk"
    and "fst (as_answer srv s (ListPods ns sel)) = RPods (as_pods srv s)"
  using answer_lawful(1) [OF assms, of "GetSandbox ns n"] answer_lawful(1) [OF assms, of "GetSecret ns n"]
    answer_lawful(1) [OF assms, of "ReadFile path"] answer_lawful(1) [OF assms, of Now]
    answer_lawful(1) [OF assms, of "Pause d"] answer_lawful(1) [OF assms, of "ListPods ns sel"]
  by (simp_all add: lawful_def)

lemma exec_reads:
  assumes "obeysAPI srv" and "as_valid srv s" and "only (\<lambda>c. \<not> isWrite c) p"
  shows "sameObjects srv s (snd (exec (as_answer srv) p s))"
  using assms(2,3)
proof (induction p arbitrary: s)
  case (Call c k)
  then have c: "\<not> isWrite c" "only (\<lambda>c. \<not> isWrite c) (k r)" for r
    by auto
  have "sameObjects srv s (snd (as_answer srv s c))" by (rule read_same [OF assms(1) Call.prems(1) c(1)])
  also have "sameObjects srv \<dots> (snd (exec (as_answer srv) (k (fst (as_answer srv s c))) (snd (as_answer srv s c))))"
    by (rule Call.IH [OF _ answer_lawful(2) [OF assms(1) Call.prems(1)] c(2)]) simp
  finally show ?case by simp
qed simp

lemma putSandbox_same: "sameObjects srv s u \<Longrightarrow> putSandbox srv u key sb t \<Longrightarrow> putSandbox srv s key sb t"
  by (simp add: sameObjects_def putSandbox_def)

text \<open>
  What a program checks before each call, as a weakest precondition over its history, carries an
  invariant of history and state through its execution.
\<close>

lemma exec_invariant:
  assumes "wp P Q p h" and "obeysAPI srv" and "as_valid srv s" and "I h s"
    and "\<And>h s c. as_valid srv s \<Longrightarrow> I h s \<Longrightarrow> P h c \<Longrightarrow> lawful srv s c (fst (as_answer srv s c)) (snd (as_answer srv s c)) \<Longrightarrow>
      as_valid srv (snd (as_answer srv s c)) \<Longrightarrow> I ((c, fst (as_answer srv s c)) # h) (snd (as_answer srv s c))"
  shows "\<exists>h'. I h' (snd (exec (as_answer srv) p s)) \<and> Q (fst (exec (as_answer srv) p s)) h'"
  using assms(1,3,4)
proof (induction p arbitrary: h s)
  case (Call c k)
  note l = answer_lawful [OF assms(2) Call.prems(2), of c]
  have "I ((c, fst (as_answer srv s c)) # h) (snd (as_answer srv s c))"
    using assms(5) [OF Call.prems(2,3) _ l] Call.prems(1) by simp
  with Call.IH [OF rangeI _ l(2)] Call.prems(1) show ?case by auto
qed auto

section \<open>A server with these laws\<close>

record store =
  st_sandboxes :: "sandbox list"
  st_secrets :: "secret list"
  st_pods :: "pod list"
  st_clock :: gotime
  st_next :: nat

definition findSandbox :: "store \<Rightarrow> objectKey \<Rightarrow> sandbox option" where
  "findSandbox st key = find (\<lambda>sb. keyOf sb = key) (st_sandboxes st)"

definition findSecret :: "store \<Rightarrow> objectKey \<Rightarrow> secret option" where
  "findSecret st key = find (\<lambda>se. (se_namespace se, se_name se) = key) (st_secrets st)"

definition replaceSandbox :: "sandbox \<Rightarrow> store \<Rightarrow> store" where
  "replaceSandbox new st = st\<lparr>st_sandboxes := map (\<lambda>sb. if keyOf sb = keyOf new then new else sb) (st_sandboxes st),
     st_next := Suc (st_next st)\<rparr>"

fun storeAnswer :: "(string \<Rightarrow> resp) \<Rightarrow> store \<Rightarrow> call \<Rightarrow> resp \<times> store" where
  "storeAnswer files st (ReadFile path) = (files path, st)"
| "storeAnswer files st (GetSandbox ns n) =
     ((case findSandbox st (ns, n) of None \<Rightarrow> RErr NotFound | Some sb \<Rightarrow> RSandbox sb), st)"
| "storeAnswer files st (ListSandboxes ns sel) =
     (RSandboxes (filter (\<lambda>sb. sb_namespace sb = ns \<and> sel \<subseteq>\<^sub>m sb_labels sb) (st_sandboxes st)), st)"
| "storeAnswer files st (CreateSandbox sb) =
     (if findSandbox st (keyOf sb) \<noteq> None then (RErr AlreadyExists, st)
      else let new = sb\<lparr>sb_uid := CHR ''u'' # decNat (st_next st), sb_resourceVersion := decNat (st_next st), sb_generation := 1\<rparr>
        in (RSandbox new, st\<lparr>st_sandboxes := st_sandboxes st @ [new], st_next := Suc (st_next st)\<rparr>))"
| "storeAnswer files st (PatchSandbox orig mut doc) =
     (case findSandbox st (keyOf orig) of None \<Rightarrow> (RErr NotFound, st)
      | Some cur \<Rightarrow>
        (if pinOf doc ''uid'' \<noteq> Some (JStr (sb_uid cur)) \<or> pinOf doc ''resourceVersion'' \<noteq> Some (JStr (sb_resourceVersion cur))
         then (RErr Conflict, st)
         else if keyOf mut \<noteq> keyOf cur \<or> sb_uid mut \<noteq> sb_uid cur then (RErr Invalid, st)
         else let new = mut\<lparr>sb_resourceVersion := decNat (st_next st), sb_generation := sb_generation cur + 1\<rparr>
           in (RSandbox new, replaceSandbox new st)))"
| "storeAnswer files st (DeleteSandbox ns n uid rv) =
     (case findSandbox st (ns, n) of None \<Rightarrow> (RErr NotFound, st)
      | Some cur \<Rightarrow>
        (if sb_uid cur \<noteq> uid \<or> sb_resourceVersion cur \<noteq> rv then (RErr Conflict, st)
         else (ROk, st\<lparr>st_sandboxes := filter (\<lambda>sb. keyOf sb \<noteq> (ns, n)) (st_sandboxes st)\<rparr>)))"
| "storeAnswer files st (GetSecret ns n) =
     ((case findSecret st (ns, n) of None \<Rightarrow> RErr NotFound | Some se \<Rightarrow> RSecret se), st)"
| "storeAnswer files st (CreateSecret se) =
     (if findSecret st (se_namespace se, se_name se) \<noteq> None then (RErr AlreadyExists, st)
      else (ROk, st\<lparr>st_secrets := st_secrets st @ [se]\<rparr>))"
| "storeAnswer files st (ListPods ns sel) = (RPods (st_pods st), st)"
| "storeAnswer files st (Emit e) = (ROk, st)"
| "storeAnswer files st Now = (RTime (st_clock st), st)"
| "storeAnswer files st (Pause d) = (ROk, st)"

definition validStore :: "store \<Rightarrow> bool" where
  "validStore st \<longleftrightarrow> distinct (map keyOf (st_sandboxes st)) \<and>
     list_all (\<lambda>sb. sb_uid sb \<noteq> [] \<and> sb_resourceVersion sb \<noteq> []) (st_sandboxes st)"

definition storeServer :: "(string \<Rightarrow> resp) \<Rightarrow> store apiServer" where
  "storeServer files = \<lparr>as_answer = storeAnswer files, as_sandbox = findSandbox, as_secret = findSecret,
     as_pods = st_pods, as_clock = st_clock, as_valid = validStore, as_file = files\<rparr>"

lemma storeServer_simps [simp]:
  "as_answer (storeServer files) = storeAnswer files" "as_sandbox (storeServer files) = findSandbox"
  "as_secret (storeServer files) = findSecret" "as_pods (storeServer files) = st_pods"
  "as_clock (storeServer files) = st_clock" "as_valid (storeServer files) = validStore" "as_file (storeServer files) = files"
  by (simp_all add: storeServer_def)

lemma find_append_None: "find P (xs @ [x]) = (case find P xs of None \<Rightarrow> if P x then Some x else None | Some y \<Rightarrow> Some y)"
  by (induction xs) auto

lemma findSandbox_append:
  "findSandbox (st\<lparr>st_sandboxes := st_sandboxes st @ [new], st_next := k\<rparr>)
     = (if findSandbox st (keyOf new) = None then (findSandbox st)(keyOf new \<mapsto> new) else findSandbox st)"
  by (intro ext) (auto simp: findSandbox_def find_append_None split: option.splits)

lemma findSandbox_replace:
  "findSandbox st (keyOf new) = Some old \<Longrightarrow> findSandbox (replaceSandbox new st) = (findSandbox st)(keyOf new \<mapsto> new)"
proof -
  have "find (\<lambda>sb. keyOf sb = key) (map (\<lambda>sb. if keyOf sb = keyOf new then new else sb) l)
      = (if key = keyOf new then (if find (\<lambda>sb. keyOf sb = key) l = None then None else Some new)
         else find (\<lambda>sb. keyOf sb = key) l)" for key l
    by (induction l) auto
  then show "findSandbox st (keyOf new) = Some old \<Longrightarrow> ?thesis"
    by (intro ext) (simp add: findSandbox_def replaceSandbox_def)
qed

lemma findSandbox_filter:
  "findSandbox (st\<lparr>st_sandboxes := filter (\<lambda>sb. keyOf sb \<noteq> key) (st_sandboxes st)\<rparr>) = (findSandbox st)(key := None)"
proof -
  have "find (\<lambda>sb. keyOf sb = key') (filter (\<lambda>sb. keyOf sb \<noteq> key) l)
      = (if key' = key then None else find (\<lambda>sb. keyOf sb = key') l)" for key' l
    by (induction l) auto
  then show ?thesis by (intro ext) (simp add: findSandbox_def)
qed

lemma findSandbox_key: "findSandbox st key = Some sb \<Longrightarrow> keyOf sb = key \<and> sb \<in> set (st_sandboxes st)"
  unfolding findSandbox_def by (drule find_SomeD) simp

lemma findSandbox_iff:
  assumes "validStore st"
  shows "findSandbox st (keyOf sb) = Some sb \<longleftrightarrow> sb \<in> set (st_sandboxes st)"
proof -
  have "find (\<lambda>s. keyOf s = keyOf sb) l = Some sb \<longleftrightarrow> sb \<in> set l" if "distinct (map keyOf l)" for l
    using that by (induction l) (auto simp: image_iff)
  then show ?thesis using assms by (simp add: findSandbox_def validStore_def)
qed

lemma findSecret_append:
  "findSecret (st\<lparr>st_secrets := st_secrets st @ [se]\<rparr>) = (if findSecret st (se_namespace se, se_name se) = None
     then (findSecret st)((se_namespace se, se_name se) \<mapsto> se) else findSecret st)"
  by (intro ext) (auto simp: findSecret_def find_append_None split: option.splits)

lemma replaceSandbox_valid:
  assumes "validStore st" and "sb_uid new \<noteq> []" and "sb_resourceVersion new \<noteq> []"
  shows "validStore (replaceSandbox new st)"
proof -
  have "map keyOf (map (\<lambda>sb. if keyOf sb = keyOf new then new else sb) l) = map keyOf l" for l
    by (induction l) auto
  with assms show ?thesis by (auto simp: validStore_def replaceSandbox_def list_all_iff simp del: map_map)
qed

lemma create_valid:
  assumes "validStore st" and "findSandbox st (keyOf new) = None" and "sb_uid new \<noteq> []" and "sb_resourceVersion new \<noteq> []"
  shows "validStore (st\<lparr>st_sandboxes := st_sandboxes st @ [new], st_next := k\<rparr>)"
proof -
  have "keyOf new \<notin> keyOf ` set (st_sandboxes st)"
    using assms(2) by (auto simp: findSandbox_def find_None_iff)
  then show ?thesis using assms by (simp add: validStore_def)
qed

lemma filter_valid: "validStore st \<Longrightarrow> validStore (st\<lparr>st_sandboxes := filter P (st_sandboxes st)\<rparr>)"
  by (auto simp: validStore_def list_all_iff intro: distinct_map_filter)

lemma storeAnswer_valid:
  assumes "validStore st"
  shows "validStore (snd (storeAnswer files st c))"
proof (cases c)
  case (CreateSandbox sb)
  then show ?thesis using assms create_valid [OF assms]
    by (simp add: Let_def keyOf_def)
next
  case (PatchSandbox orig mut doc)
  have "sb_uid cur \<noteq> []" if "findSandbox st (keyOf orig) = Some cur" for cur
    using assms findSandbox_key [OF that] by (auto simp: validStore_def list_all_iff)
  then show ?thesis using assms unfolding PatchSandbox
    by (auto simp: Let_def split: option.splits intro!: replaceSandbox_valid)
next
  case (DeleteSandbox ns n uid rv)
  then show ?thesis using assms filter_valid by (auto split: option.splits)
qed (use assms in \<open>simp_all add: validStore_def\<close>)

lemma keyOf_updates [simp]:
  "keyOf (sb\<lparr>sb_uid := u\<rparr>) = keyOf sb" "keyOf (sb\<lparr>sb_resourceVersion := rv\<rparr>) = keyOf sb"
  "keyOf (sb\<lparr>sb_generation := g\<rparr>) = keyOf sb" "keyOf (sb\<lparr>sb_annotations := a\<rparr>) = keyOf sb"
  "keyOf (sb\<lparr>sb_operatingMode := m\<rparr>) = keyOf sb" "keyOf (sb\<lparr>sb_podTemplate := pt\<rparr>) = keyOf sb"
  "keyOf (sb\<lparr>sb_conditions := cs\<rparr>) = keyOf sb"
  by (simp_all add: keyOf_def)

lemma storeAnswer_lawful:
  assumes "validStore st"
  shows "lawful (storeServer files) st c (fst (storeAnswer files st c)) (snd (storeAnswer files st c))"
proof (cases c)
  case (ListSandboxes ns sel)
  have "distinct (map keyOf (filter P (st_sandboxes st)))" for P
    using assms by (simp add: validStore_def distinct_map_filter)
  then show ?thesis unfolding ListSandboxes
    using findSandbox_iff [OF assms] by (auto simp: lawful_def sameObjects_def)
next
  case (CreateSandbox sb)
  show ?thesis
  proof (cases "findSandbox st (keyOf sb) = None")
    case True
    let ?new = "sb\<lparr>sb_uid := CHR ''u'' # decNat (st_next st), sb_resourceVersion := decNat (st_next st), sb_generation := 1\<rparr>"
    have "putSandbox (storeServer files) st (keyOf sb) (Some ?new)
        (st\<lparr>st_sandboxes := st_sandboxes st @ [?new], st_next := Suc (st_next st)\<rparr>)"
      using True findSandbox_append [where st = st and new = ?new and k = "Suc (st_next st)"] by (simp add: putSandbox_def findSecret_def [abs_def])
    then show ?thesis using True unfolding CreateSandbox by (auto simp: lawful_def Let_def)
  qed (simp add: CreateSandbox lawful_def sameObjects_def)
next
  case (PatchSandbox orig mut doc)
  show ?thesis unfolding PatchSandbox lawful_def call.case
  proof
    assume a: "as_sandbox (storeServer files) st (keyOf orig) = Some orig \<and> pinOf doc ''uid'' = Some (JStr (sb_uid orig)) \<and>
      pinOf doc ''resourceVersion'' = Some (JStr (sb_resourceVersion orig)) \<and> keyOf mut = keyOf orig \<and> sb_uid mut = sb_uid orig"
    let ?new = "mut\<lparr>sb_resourceVersion := decNat (st_next st), sb_generation := sb_generation orig + 1\<rparr>"
    have "storeAnswer files st (PatchSandbox orig mut doc) = (RSandbox ?new, replaceSandbox ?new st)"
      using a by (simp add: Let_def)
    moreover have "putSandbox (storeServer files) st (keyOf orig) (Some ?new) (replaceSandbox ?new st)"
      using a findSandbox_replace [where st = st and new = ?new and old = orig] by (simp add: putSandbox_def findSecret_def [abs_def] replaceSandbox_def)
    ultimately show "\<exists>rv g. let new = mut\<lparr>sb_resourceVersion := rv, sb_generation := g\<rparr>
       in fst (storeAnswer files st (PatchSandbox orig mut doc)) = RSandbox new \<and>
          putSandbox (storeServer files) st (keyOf orig) (Some new) (snd (storeAnswer files st (PatchSandbox orig mut doc)))"
      by (intro exI [of _ "decNat (st_next st)"] exI [of _ "sb_generation orig + 1"]) (simp add: Let_def)
  qed
next
  case (DeleteSandbox ns n uid rv)
  then show ?thesis by (auto simp: lawful_def findSandbox_filter)
next
  case (CreateSecret se)
  then show ?thesis by (auto simp: lawful_def sameObjects_def findSecret_append findSandbox_def)
qed (simp_all add: lawful_def sameObjects_def)

lemma storeServer_obeys: "obeysAPI (storeServer files)"
  unfolding obeysAPI_def
proof (intro allI impI conjI)
  fix st key sb
  assume "as_valid (storeServer files) st" "as_sandbox (storeServer files) st key = Some sb"
  then have "validStore st" "findSandbox st key = Some sb" by simp_all
  from findSandbox_key [OF this(2)] this(1)
  show "keyOf sb = key" "sb_uid sb \<noteq> []" "sb_resourceVersion sb \<noteq> []" by (auto simp: validStore_def list_all_iff)
next
  fix st key se
  assume "as_secret (storeServer files) st key = Some se"
  then show "(se_namespace se, se_name se) = key" by (auto simp: findSecret_def dest!: find_SomeD)
qed (use storeAnswer_lawful storeAnswer_valid in simp_all)

end
