(* ===== verification/Idempotence.thy ===== *)
theory Idempotence
  imports Sequential
begin

text \<open>
  Delivering a request again: whenever an invocation of the hook has settled an order, another
  invocation for the same request changes nothing and exits 0 as well, whatever the objects
  were at first.
\<close>

section \<open>The hook's steps\<close>

text \<open>\<open>ensureSecret\<close> succeeds with a Secret in place that passes the check, and changes nothing when one is.\<close>

definition secretInPlace :: "'s apiServer \<Rightarrow> 's \<Rightarrow> secret \<Rightarrow> bool" where
  "secretInPlace srv s desired \<longleftrightarrow>
     (\<exists>se. as_secret srv s (se_namespace desired, se_name desired) = Some se \<and> verifySecret se desired = Inr ())"

lemma ensureSecret_place:
  assumes api: "obeysAPI srv" "as_valid srv s"
    and "exec (as_answer srv) (ensureSecret sb tmpl req name) s = (Inr (), t)"
  shows "secretInPlace srv t (workOrderSecret sb (sb_labels tmpl) req name) \<and> as_sandbox srv t = as_sandbox srv s"
proof -
  let ?se = "workOrderSecret sb (sb_labels tmpl) req name" and ?c = "CreateSecret (workOrderSecret sb (sb_labels tmpl) req name)"
  let ?u = "snd (as_answer srv s ?c)" and ?g = "GetSecret (sb_namespace sb) name"
  have k: "se_namespace ?se = sb_namespace sb" "se_name ?se = name" by (simp_all add: workOrderSecret_def)
  note l = answer_lawful [OF api, of ?c]
  show ?thesis
  proof (cases "as_secret srv s (sb_namespace sb, name) = None")
    case True
    then have "fst (as_answer srv s ?c) = ROk" "as_sandbox srv ?u = as_sandbox srv s"
        "as_secret srv ?u (sb_namespace sb, name) = Some ?se"
      using l(1) k by (simp_all add: lawful_def)
    moreover from this have "t = ?u"
      using assms(3) by (simp add: ensureSecret_def Let_def exec_simps asOk_def)
    ultimately show ?thesis using verifySecret_own k by (simp add: secretInPlace_def)
  next
    case False
    then have c: "fst (as_answer srv s ?c) = RErr AlreadyExists" "sameObjects srv s ?u"
      using l(1) k by (simp_all add: lawful_def)
    obtain se where se: "as_secret srv s (sb_namespace sb, name) = Some se" using False by blast
    then have a: "fst (as_answer srv ?u ?g) = RSecret se"
      using answers(2) [OF api(1) l(2)] c(2) by (simp add: sameObjects_def)
    have "verifySecret se ?se = Inr () \<and> t = snd (as_answer srv ?u ?g)"
      using assms(3) c(1) a by (auto simp: ensureSecret_def Let_def exec_simps asOk_def asSecret_def)
    moreover have "sameObjects srv ?u (snd (as_answer srv ?u ?g))" by (rule read_same [OF api(1) l(2)]) simp
    ultimately show ?thesis using se c(2) k by (auto simp: secretInPlace_def sameObjects_def)
  qed
qed

lemma ensureSecret_again:
  assumes api: "obeysAPI srv" "as_valid srv s"
    and "secretInPlace srv s (workOrderSecret sb (sb_labels tmpl) req name)"
  shows "\<exists>t. exec (as_answer srv) (ensureSecret sb tmpl req name) s = (Inr (), t) \<and> sameObjects srv s t"
proof -
  let ?c = "CreateSecret (workOrderSecret sb (sb_labels tmpl) req name)" and ?g = "GetSecret (sb_namespace sb) name"
  let ?u = "snd (as_answer srv s ?c)"
  obtain se where se: "as_secret srv s (sb_namespace sb, name) = Some se"
      "verifySecret se (workOrderSecret sb (sb_labels tmpl) req name) = Inr ()"
    using assms(3) by (auto simp: secretInPlace_def workOrderSecret_def)
  note l = answer_lawful [OF api, of ?c]
  have c: "fst (as_answer srv s ?c) = RErr AlreadyExists" "sameObjects srv s ?u"
    using l(1) se(1) by (simp_all add: lawful_def workOrderSecret_def)
  have a: "fst (as_answer srv ?u ?g) = RSecret se"
    using answers(2) [OF api(1) l(2)] c(2) se(1) by (simp add: sameObjects_def)
  have "sameObjects srv ?u (snd (as_answer srv ?u ?g))" by (rule read_same [OF api(1) l(2)]) simp
  then have "sameObjects srv s (snd (as_answer srv ?u ?g))" by (rule sameObjects_trans [OF c(2)])
  then show ?thesis
    using c(1) a se(2) by (simp add: ensureSecret_def Let_def exec_simps asOk_def asSecret_def)
qed

text \<open>A patch of the stored object takes effect.\<close>

lemma hookPatch_exec:
  assumes api: "obeysAPI srv" "as_valid srv s" and live: "as_sandbox srv s (keyOf orig) = Some orig"
    and same: "samePart orig mut" and "exec (as_answer srv) (hookPatch lib orig mut) s = (Inr (), t)"
  shows "\<exists>rv g. putSandbox srv s (keyOf orig) (Some (mut\<lparr>sb_resourceVersion := rv, sb_generation := g\<rparr>)) t"
proof -
  obtain doc where doc: "Optimistic lib orig mut = Inr doc"
    using assms(5) by (auto simp: hookPatch_def split: sum.splits)
  have k: "keyOf mut = keyOf orig" "sb_uid mut = sb_uid orig" using same by (simp_all add: samePart_def keyOf_def)
  have "\<exists>rv g. let new = mut\<lparr>sb_resourceVersion := rv, sb_generation := g\<rparr>
      in fst (as_answer srv s (PatchSandbox orig mut doc)) = RSandbox new \<and>
        putSandbox srv s (keyOf orig) (Some new) (snd (as_answer srv s (PatchSandbox orig mut doc)))"
    using answer_lawful(1) [OF api, of "PatchSandbox orig mut doc"] live k Optimistic_pins(1,2) [OF doc]
    by (simp add: lawful_def)
  then obtain rv g where "fst (as_answer srv s (PatchSandbox orig mut doc)) = RSandbox (mut\<lparr>sb_resourceVersion := rv, sb_generation := g\<rparr>)"
      "putSandbox srv s (keyOf orig) (Some (mut\<lparr>sb_resourceVersion := rv, sb_generation := g\<rparr>)) (snd (as_answer srv s (PatchSandbox orig mut doc)))"
    by (auto simp: Let_def)
  then show ?thesis using assms(5) doc by (auto simp: hookPatch_def exec_simps asOk_def)
qed

section \<open>Settled\<close>

text \<open>
  The request is settled for the stored Sandbox: superseded, or accepted with its Secret in place
  and every pointer written.
\<close>

definition settledFor :: "'s apiServer \<Rightarrow> hook \<Rightarrow> spawnRequest \<Rightarrow> sandbox \<Rightarrow> sandbox \<Rightarrow> 's \<Rightarrow> bool" where
  "settledFor srv hk req tmpl sb s \<longleftrightarrow>
     evaluate sb req (cf_Release (hk_Config hk)) = Inr DecisionSuperseded \<or>
     evaluate sb req (cf_Release (hk_Config hk)) = Inr DecisionRedelivery \<and>
       secretInPlace srv s (hookSecret hk tmpl req sb) \<and>
       repairPointers req (orderSecretName hk sb req) sb = Inr (sb, False)"

lemma settled_again:
  assumes api: "obeysAPI srv" "as_valid srv s" and "settledFor srv hk req tmpl sb s"
  shows "\<exists>t. exec (as_answer srv) (reconcileExisting lib hk sb tmpl req) s = (Inr True, t) \<and> sameObjects srv s t"
  using assms(3) unfolding settledFor_def
proof (elim disjE conjE)
  assume "evaluate sb req (cf_Release (hk_Config hk)) = Inr DecisionSuperseded"
  then show ?thesis by (simp add: reconcileExisting_def)
next
  assume e: "evaluate sb req (cf_Release (hk_Config hk)) = Inr DecisionRedelivery"
    and sec: "secretInPlace srv s (hookSecret hk tmpl req sb)"
    and p: "repairPointers req (orderSecretName hk sb req) sb = Inr (sb, False)"
  obtain t where "exec (as_answer srv) (ensureSecret sb tmpl req (orderSecretName hk sb req)) s = (Inr (), t)" "sameObjects srv s t"
    using ensureSecret_again [OF api] sec unfolding hookSecret_def by blast
  then show ?thesis using e p by (simp add: reconcileExisting_def repairRedelivery_def Let_def exec_simps)
qed

lemma settledFor_same: "sameObjects srv s t \<Longrightarrow> settledFor srv hk req tmpl sb s \<Longrightarrow> settledFor srv hk req tmpl sb t"
  by (simp add: settledFor_def secretInPlace_def sameObjects_def)

text \<open>What a request sees of a Sandbox it has left behind.\<close>

lemma evaluate_cong:
  "sb_deletionTimestamp sb' = sb_deletionTimestamp sb \<Longrightarrow> sb_labels sb' = sb_labels sb \<Longrightarrow>
   lastOrderOf sb' = lastOrderOf sb \<Longrightarrow> annot sb' AnnotationLastOrderAttempt = annot sb AnnotationLastOrderAttempt \<Longrightarrow>
   evaluate sb' req release = evaluate sb req release"
  by (simp add: evaluate_def deleting_def)

lemma repairPointers_again:
  assumes "repairPointers req name sb = Inr (mut, changed)" and "name \<noteq> []"
    and "sb' = mut\<lparr>sb_resourceVersion := rv, sb_generation := g\<rparr>"
  shows "repairPointers req name sb' = Inr (sb', False)"
  using assms by (auto simp: repairPointers_def Let_def split: if_splits)

lemma hookSecret_same:
  "sb_name sb' = sb_name sb \<Longrightarrow> sb_namespace sb' = sb_namespace sb \<Longrightarrow> sb_uid sb' = sb_uid sb \<Longrightarrow>
     hookSecret hk tmpl req sb' = hookSecret hk tmpl req sb \<and> orderSecretName hk sb' req = orderSecretName hk sb req"
  by (simp add: hookSecret_def workOrderSecret_def orderSecretName_def)

section \<open>An invocation that succeeds has settled the request\<close>

lemma checkCapacity_reads: "only (\<lambda>c. \<not> isWrite c) (checkCapacity hk own n)"
  unfolding checkCapacity_def Let_def by (intro only_intros isWrite_simps)

lemma repairPointers_unchanged: "repairPointers req name sb = Inr (mut, False) \<Longrightarrow> mut = sb"
  by (auto simp: repairPointers_def Let_def split: if_splits)

lemma repairRedelivery_settles:
  assumes api: "obeysAPI srv" "as_valid srv s" and live: "as_sandbox srv s (keyOf sb) = Some sb"
    and ev: "evaluate sb req (cf_Release (hk_Config hk)) = Inr DecisionRedelivery"
    and ex: "exec (as_answer srv) (repairRedelivery lib hk sb tmpl req) s = (Inr True, t)"
  shows "\<exists>sb'. as_sandbox srv t (keyOf sb) = Some sb' \<and> settledFor srv hk req tmpl sb' t"
proof -
  let ?n = "orderSecretName hk sb req"
  have n: "?n \<noteq> []" by (simp add: orderSecretName_def)
  obtain u where u: "exec (as_answer srv) (ensureSecret sb tmpl req ?n) s = (Inr (), u)"
    using ex by (auto simp: repairRedelivery_def Let_def exec_simps split: prod.splits sum.splits)
  have v: "as_valid srv u" using exec_valid [OF api, of "ensureSecret sb tmpl req ?n"] by (simp add: u)
  have place: "secretInPlace srv u (hookSecret hk tmpl req sb)" and l: "as_sandbox srv u = as_sandbox srv s"
    using ensureSecret_place [OF api u] by (simp_all add: hookSecret_def)
  obtain mut changed where r: "repairPointers req ?n sb = Inr (mut, changed)"
    using ex u by (auto simp: repairRedelivery_def Let_def exec_simps split: sum.splits)
  have last: "lastOrderOf sb = rq_OrderID req" using ev by (auto elim: evaluate_InrE)
  note eff = repairPointers_effect [OF r last]
  show ?thesis
  proof (cases changed)
    case False
    then have "mut = sb" using repairPointers_unchanged [of req ?n sb mut] r by simp
    then have "settledFor srv hk req tmpl sb u" using ev place r False by (simp add: settledFor_def)
    moreover have "t = u" using ex u r False by (simp add: repairRedelivery_def Let_def exec_simps)
    ultimately show ?thesis using live l by auto
  next
    case True
    have p: "exec (as_answer srv) (hookPatch lib sb mut) u = (Inr (), t)"
      using ex u r True by (auto simp: repairRedelivery_def Let_def exec_simps split: prod.splits sum.splits)
    obtain rv g where put: "putSandbox srv u (keyOf sb) (Some (mut\<lparr>sb_resourceVersion := rv, sb_generation := g\<rparr>)) t"
      using hookPatch_exec [OF api(1) v _ eff(1) p] live l by auto
    define sb' where "sb' = mut\<lparr>sb_resourceVersion := rv, sb_generation := g\<rparr>"
    have s: "sb_name sb' = sb_name sb" "sb_namespace sb' = sb_namespace sb" "sb_uid sb' = sb_uid sb"
        "sb_labels sb' = sb_labels sb" "sb_deletionTimestamp sb' = sb_deletionTimestamp sb"
      using eff(1) by (simp_all add: sb'_def samePart_def)
    have a: "lastOrderOf sb' = lastOrderOf sb" "annot sb' AnnotationLastOrderAttempt = annot sb AnnotationLastOrderAttempt"
      using r by (auto simp: sb'_def repairPointers_def Let_def split: if_splits)
    have "evaluate sb' req (cf_Release (hk_Config hk)) = Inr DecisionRedelivery"
      using evaluate_cong [OF s(5,4) a] ev by simp
    moreover have "repairPointers req ?n sb' = Inr (sb', False)" by (rule repairPointers_again [OF r n sb'_def])
    moreover have "secretInPlace srv t (hookSecret hk tmpl req sb)"
      using place put by (simp add: secretInPlace_def putSandbox_def)
    ultimately have "settledFor srv hk req tmpl sb' t"
      using hookSecret_same [OF s(1-3)] by (simp add: settledFor_def)
    then show ?thesis using put by (auto simp: putSandbox_def sb'_def)
  qed
qed

lemma publishNewer_settles:
  assumes api: "obeysAPI srv" "as_valid srv s" and live: "as_sandbox srv s (keyOf sb) = Some sb"
    and req: "validRequest req" and ev: "evaluate sb req (cf_Release (hk_Config hk)) = Inr DecisionNewer"
    and ex: "exec (as_answer srv) (publishNewer lib hk sb tmpl req) s = (Inr True, t)"
  shows "\<exists>sb'. as_sandbox srv t (keyOf sb) = Some sb' \<and> settledFor srv hk req tmpl sb' t"
proof -
  let ?n = "orderSecretName hk sb req"
  obtain u where u: "exec (as_answer srv) (ensureSecret sb tmpl req ?n) s = (Inr (), u)"
    using ex by (auto simp: publishNewer_def Let_def exec_simps split: prod.splits sum.splits)
  have v: "as_valid srv u" using exec_valid [OF api, of "ensureSecret sb tmpl req ?n"] by (simp add: u)
  have place: "secretInPlace srv u (hookSecret hk tmpl req sb)" and l: "as_sandbox srv u = as_sandbox srv s"
    using ensureSecret_place [OF api u] by (simp_all add: hookSecret_def)
  let ?now = "as_clock srv u" and ?w = "snd (as_answer srv u Now)"
  have w: "sameObjects srv u ?w" "as_valid srv ?w"
    using read_same [OF api(1) v] answer_lawful(2) [OF api(1) v] by simp_all
  obtain pt where pt: "refreshedTemplate sb (sb_podTemplate tmpl) = Some pt"
    using ex u by (auto simp: publishNewer_def Let_def exec_simps split: option.splits)
  have p: "exec (as_answer srv) (hookPatch lib sb (acceptNewer sb req ?n ?now pt)) ?w = (Inr (), t)"
    using ex u pt answers(4) [OF api(1) v]
    by (auto simp: publishNewer_def Let_def exec_simps asTime_def split: prod.splits sum.splits)
  have "as_sandbox srv ?w (keyOf sb) = Some sb" using live l w(1) by (simp add: sameObjects_def)
  then obtain rv g where put: "putSandbox srv ?w (keyOf sb)
      (Some ((acceptNewer sb req ?n ?now pt)\<lparr>sb_resourceVersion := rv, sb_generation := g\<rparr>)) t"
    using hookPatch_exec [OF api(1) w(2) _ samePart_acceptNewer p] by blast
  define sb' where "sb' = (acceptNewer sb req ?n ?now pt)\<lparr>sb_resourceVersion := rv, sb_generation := g\<rparr>"
  have s: "sb_name sb' = sb_name sb" "sb_namespace sb' = sb_namespace sb" "sb_uid sb' = sb_uid sb"
    by (simp_all add: sb'_def acceptNewer_def)
  have "\<not> deleting sb" "label sb LabelPartOf = PartOf" "label sb LabelInstance = cf_Release (hk_Config hk)"
      "label sb LabelSessionID = LabelValue (rq_SessionID req)"
    using ev by (auto elim: evaluate_InrE)
  then have "evaluate sb' req (cf_Release (hk_Config hk)) = Inr DecisionRedelivery"
    using req by (intro evaluate_redelivery) (simp_all add: sb'_def acceptNewer_def deleting_def validRequest_def)
  moreover have "repairPointers req ?n sb' = Inr (sb', False)"
    by (simp add: repairPointers_def Let_def sb'_def acceptNewer_def orderSecretName_def)
  moreover have "secretInPlace srv t (hookSecret hk tmpl req sb)"
    using place put w(1) by (simp add: secretInPlace_def putSandbox_def sameObjects_def)
  ultimately have "settledFor srv hk req tmpl sb' t" using hookSecret_same [OF s] by (simp add: settledFor_def)
  then show ?thesis using put by (auto simp: putSandbox_def sb'_def)
qed

lemma reconcileExisting_settles:
  assumes api: "obeysAPI srv" "as_valid srv s" and live: "as_sandbox srv s (keyOf sb) = Some sb"
    and req: "validRequest req" and ex: "exec (as_answer srv) (reconcileExisting lib hk sb tmpl req) s = (Inr True, t)"
  shows "\<exists>sb'. as_sandbox srv t (keyOf sb) = Some sb' \<and> settledFor srv hk req tmpl sb' t"
proof -
  obtain d where d: "evaluate sb req (cf_Release (hk_Config hk)) = Inr d"
    using ex by (auto simp: reconcileExisting_def split: sum.splits)
  show ?thesis
  proof (cases d)
    case DecisionSuperseded
    then show ?thesis using d ex live by (auto simp: reconcileExisting_def settledFor_def)
  next
    case DecisionRedelivery
    then show ?thesis using d ex repairRedelivery_settles [OF api live] by (simp add: reconcileExisting_def)
  next
    case DecisionNewer
    let ?u = "snd (exec (as_answer srv) (checkCapacity hk (Some sb) (sb_name sb)) s)"
    have u: "sameObjects srv s ?u" by (rule exec_reads [OF api checkCapacity_reads])
    have "exec (as_answer srv) (publishNewer lib hk sb tmpl req) ?u = (Inr True, t)"
      using ex d DecisionNewer by (auto simp: reconcileExisting_def exec_simps split: prod.splits sum.splits)
    moreover have "as_sandbox srv ?u (keyOf sb) = Some sb" using live u by (simp add: sameObjects_def)
    ultimately show ?thesis
      using publishNewer_settles [OF api(1) exec_valid [OF api] _ req] d DecisionNewer by blast
  qed
qed

section \<open>The retry loop\<close>

lemma afterRead_settles:
  assumes api: "obeysAPI srv" "as_valid srv s" and live: "as_sandbox srv s (keyOf sb) = Some sb"
    and req: "validRequest req" and ex: "exec (as_answer srv) (afterRead lib hk req tmpl sb) s = (Return (Inr ()), t)"
  shows "\<exists>sb'. as_sandbox srv t (keyOf sb) = Some sb' \<and> settledFor srv hk req tmpl sb' t"
proof -
  have "exec (as_answer srv) (reconcileExisting lib hk sb tmpl req) s = (Inr True, t)"
    using ex by (cases "exec (as_answer srv) (reconcileExisting lib hk sb tmpl req) s")
      (auto simp: afterRead_def exec_simps split: sum.splits if_splits)
  then show ?thesis by (rule reconcileExisting_settles [OF api live req])
qed

lemma createPath_settles:
  assumes api: "obeysAPI srv" "as_valid srv s" and req: "validRequest req"
    and ex: "exec (as_answer srv) (createPath lib hk req tmpl) s = (Return (Inr ()), t)"
  shows "\<exists>sb'. as_sandbox srv t (keyOf tmpl) = Some sb' \<and> settledFor srv hk req tmpl sb' t"
proof -
  let ?u = "snd (exec (as_answer srv) (checkCapacity hk None (sb_name tmpl)) s)"
  let ?v = "snd (as_answer srv ?u Now)" and ?now = "asTime (fst (as_answer srv ?u Now))"
  let ?new = "newSandbox tmpl req ?now"
  let ?w = "snd (as_answer srv ?v (CreateSandbox ?new))" and ?r = "fst (as_answer srv ?v (CreateSandbox ?new))"
  have valid: "as_valid srv ?u" by (rule exec_valid [OF api])
  then have valid': "as_valid srv ?v" by (rule answer_lawful(2) [OF api(1)])
  note l = answer_lawful [OF api(1) valid', of "CreateSandbox ?new"]
  have e: "exec (as_answer srv) (case asSandbox ?r of
        Inl cerr \<Rightarrow> Ret (if cerr = AlreadyExists then Continue else Return (Inl (classifyAPIError ''creating Sandbox'' cerr)))
      | Inr sb \<Rightarrow> afterRead lib hk req tmpl sb) ?w = (Return (Inr ()), t)"
  proof -
    have "fst (exec (as_answer srv) (checkCapacity hk None (sb_name tmpl)) s) = Inr ()"
      using ex by (cases "fst (exec (as_answer srv) (checkCapacity hk None (sb_name tmpl)) s)") (auto simp: createPath_def exec_simps)
    then show ?thesis using ex by (simp add: createPath_def createSandbox_def exec_simps)
  qed
  then have "\<exists>sb. asSandbox ?r = Inr sb \<and> exec (as_answer srv) (afterRead lib hk req tmpl sb) ?w = (Return (Inr ()), t)"
    by (cases "asSandbox ?r") (auto split: if_splits)
  then obtain sb where sb: "?r = RSandbox sb" and after: "exec (as_answer srv) (afterRead lib hk req tmpl sb) ?w = (Return (Inr ()), t)"
    by auto
  have k: "keyOf ?new = keyOf tmpl" by (simp add: newSandbox_def)
  have "keyOf sb = keyOf ?new" and live: "as_sandbox srv ?w (keyOf sb) = Some sb"
    using l(1) sb by (auto simp: lawful_def Let_def putSandbox_def split: if_splits)
  with k have "keyOf sb = keyOf tmpl" by simp
  with afterRead_settles [OF api(1) l(2) live req after] show ?thesis by simp
qed

lemma attempt_settles:
  assumes api: "obeysAPI srv" "as_valid srv s" and req: "validRequest req"
    and ex: "exec (as_answer srv) (sessionAttempt lib hk req tmpl a) s = (Return (Inr ()), t)"
  shows "\<exists>sb'. as_sandbox srv t (keyOf tmpl) = Some sb' \<and> settledFor srv hk req tmpl sb' t"
proof -
  let ?u = "snd (exec (as_answer srv) (backoff a) s)" and ?g = "GetSandbox (sb_namespace tmpl) (sb_name tmpl)"
  let ?v = "snd (as_answer srv ?u ?g)"
  have valid: "as_valid srv ?u" by (rule exec_valid [OF api])
  note v = answer_lawful [OF api(1) valid, of ?g]
  have e: "exec (as_answer srv) (case asSandbox (fst (as_answer srv ?u ?g)) of
       Inl err \<Rightarrow> (if err = NotFound then createPath lib hk req tmpl else Ret (Return (Inl (classifyAPIError ''reading Sandbox'' err))))
     | Inr sb \<Rightarrow> afterRead lib hk req tmpl sb) ?v = (Return (Inr ()), t)"
  proof -
    have "isl (fst (exec (as_answer srv) (backoff a) s)) = False"
      using ex by (cases "fst (exec (as_answer srv) (backoff a) s)") (auto simp: sessionAttempt_def exec_simps)
    then obtain b where "fst (exec (as_answer srv) (backoff a) s) = Inr b" by (auto simp: isl_def intro: sum.exhaust_sel)
    then show ?thesis using ex by (simp add: sessionAttempt_def exec_simps)
  qed
  show ?thesis
  proof (cases "as_sandbox srv ?u (keyOf tmpl)")
    case None
    then have "exec (as_answer srv) (createPath lib hk req tmpl) ?v = (Return (Inr ()), t)"
      using e answers(1) [OF api(1) valid] by (simp add: keyOf_def asSandbox_def)
    then show ?thesis by (rule createPath_settles [OF api(1) v(2) req])
  next
    case (Some sb)
    then have after: "exec (as_answer srv) (afterRead lib hk req tmpl sb) ?v = (Return (Inr ()), t)"
      using e answers(1) [OF api(1) valid] by (simp add: keyOf_def asSandbox_def)
    have k: "keyOf sb = keyOf tmpl" by (rule stored_key(1) [OF api(1) valid Some])
    have "as_sandbox srv ?v (keyOf sb) = Some sb"
      using Some k read_same [OF api(1) valid, of ?g] by (simp add: sameObjects_def)
    then show ?thesis using afterRead_settles [OF api(1) v(2) _ req after] k by simp
  qed
qed

lemma loop_settles:
  assumes "obeysAPI srv" and "as_valid srv s" and "validRequest req"
    and "exec (as_answer srv) (sessionLoop lib hk req tmpl n a) s = (Inr (), t)"
  shows "0 < n \<and> (\<exists>sb'. as_sandbox srv t (keyOf tmpl) = Some sb' \<and> settledFor srv hk req tmpl sb' t)"
  using assms(2,4)
proof (induction n arbitrary: a s)
  case (Suc n)
  obtain x u where x: "exec (as_answer srv) (sessionAttempt lib hk req tmpl a) s = (x, u)" by fastforce
  have u: "as_valid srv u" using exec_valid [OF assms(1) Suc.prems(1), of "sessionAttempt lib hk req tmpl a"] by (simp add: x)
  show ?case
  proof (cases x)
    case Continue
    then show ?thesis using Suc.IH [OF u] Suc.prems(2) by (simp add: exec_bindP x)
  next
    case (Return r)
    then show ?thesis using attempt_settles [OF assms(1) Suc.prems(1) assms(3)] Suc.prems(2) x by (simp add: exec_bindP)
  qed
qed simp

lemma attempt_again:
  assumes api: "obeysAPI srv" "as_valid srv s" and "as_sandbox srv s (keyOf tmpl) = Some sb" and "settledFor srv hk req tmpl sb s"
  shows "\<exists>t. exec (as_answer srv) (sessionAttempt lib hk req tmpl 0) s = (Return (Inr ()), t) \<and> sameObjects srv s t"
proof -
  let ?g = "GetSandbox (sb_namespace tmpl) (sb_name tmpl)"
  let ?v = "snd (as_answer srv s ?g)"
  have v: "sameObjects srv s ?v" by (rule read_same [OF api]) simp
  obtain t where t: "exec (as_answer srv) (reconcileExisting lib hk sb tmpl req) ?v = (Inr True, t)" "sameObjects srv ?v t"
    using settled_again [OF api(1) answer_lawful(2) [OF api] settledFor_same [OF v assms(4)]] by blast
  have "fst (as_answer srv s ?g) = RSandbox sb" using answers(1) [OF api] assms(3) by (simp add: keyOf_def)
  then show ?thesis
    using t sameObjects_trans [OF v t(2)]
    by (simp add: sessionAttempt_def backoff_def exec_simps asSandbox_def afterRead_def)
qed

section \<open>The whole invocation\<close>

text \<open>The rendered template depends on the file only.\<close>

lemma hookTemplate_exec:
  assumes "obeysAPI srv" and "as_valid srv s" and "as_valid srv s'"
  shows "fst (exec (as_answer srv) (hookTemplate lib hk ident) s') = fst (exec (as_answer srv) (hookTemplate lib hk ident) s)"
  using answers(3) [OF assms(1,2)] answers(3) [OF assms(1,3)]
  by (simp add: hookTemplate_def LoadTemplate_def exec_simps split: sum.splits)

lemma hookTemplate_reads: "only (\<lambda>c. \<not> isWrite c) (hookTemplate lib hk ident)"
  unfolding hookTemplate_def LoadTemplate_def by (intro only_intros isWrite_simps)

lemma runSession_settles:
  assumes api: "obeysAPI srv" "as_valid srv s" and req: "validRequest req"
    and ex: "exec (as_answer srv) (runSession lib hk req) s = (Inr (), t)"
  shows "\<exists>tmpl sb. fst (exec (as_answer srv) (hookTemplate lib hk (requestIdentity hk req)) s) = Inr tmpl \<and> 0 < nat (hk_MaxAttempts hk) \<and>
     as_sandbox srv t (keyOf tmpl) = Some sb \<and> settledFor srv hk req tmpl sb t"
proof -
  let ?p = "hookTemplate lib hk (requestIdentity hk req)"
  obtain tmpl where tmpl: "fst (exec (as_answer srv) ?p s) = Inr tmpl"
      and loop: "exec (as_answer srv) (sessionLoop lib hk req tmpl (nat (hk_MaxAttempts hk)) 0) (snd (exec (as_answer srv) ?p s)) = (Inr (), t)"
    using ex by (cases "exec (as_answer srv) ?p s") (auto simp: runSession_def exec_simps split: sum.splits)
  show ?thesis using loop_settles [OF api(1) exec_valid [OF api] req loop] tmpl by blast
qed

lemma runSession_again:
  assumes api: "obeysAPI srv" "as_valid srv s" and req: "validRequest req"
    and ex: "exec (as_answer srv) (runSession lib hk req) s = (Inr (), t)"
  shows "\<exists>u. exec (as_answer srv) (runSession lib hk req) t = (Inr (), u) \<and> sameObjects srv t u"
proof -
  let ?p = "hookTemplate lib hk (requestIdentity hk req)" and ?n = "nat (hk_MaxAttempts hk)"
  obtain tmpl sb' where tmpl: "fst (exec (as_answer srv) ?p s) = Inr tmpl" and n: "0 < ?n"
      and sb': "as_sandbox srv t (keyOf tmpl) = Some sb'" "settledFor srv hk req tmpl sb' t"
    using runSession_settles [OF api req ex] by blast
  have valid: "as_valid srv t" using exec_valid [OF api, of "runSession lib hk req"] ex by simp
  obtain v where p: "exec (as_answer srv) ?p t = (Inr tmpl, v)"
    using hookTemplate_exec [OF api valid] tmpl by (metis prod.collapse)
  have v: "sameObjects srv t v" "as_valid srv v"
    using exec_reads [OF api(1) valid hookTemplate_reads] exec_valid [OF api(1) valid, of ?p] p by (metis snd_conv)+
  have "as_sandbox srv v (keyOf tmpl) = Some sb'" using sb'(1) v(1) by (simp add: sameObjects_def)
  then obtain u where u: "exec (as_answer srv) (sessionAttempt lib hk req tmpl 0) v = (Return (Inr ()), u)" "sameObjects srv v u"
    using attempt_again [OF api(1) v(2) _ settledFor_same [OF v(1) sb'(2)]] by blast
  obtain m where m: "?n = Suc m" using n by (cases ?n) auto
  show ?thesis
    using p u(1) sameObjects_trans [OF v(1) u(2)] by (simp add: runSession_def exec_simps m)
qed

text \<open>The settled Sandbox is the one of the session.\<close>

lemma hookTemplate_key:
  assumes "fst (exec (as_answer srv) (hookTemplate lib hk (requestIdentity hk req)) s) = Inr tmpl"
  shows "sb_namespace tmpl = cf_Namespace (hk_Config hk)" and "sb_name tmpl = SandboxName (cf_Release (hk_Config hk)) (rq_SessionID req)"
  using assms by (auto simp: hookTemplate_def LoadTemplate_def exec_simps requestIdentity_def split: sum.splits dest: ApplyContract_result(1,2))

definition withDefault :: "hook \<Rightarrow> hook" where
  "withDefault hk = (if hk_MaxAttempts hk = 0 then hk\<lparr>hk_MaxAttempts := DefaultMaxAttempts\<rparr> else hk)"

lemma withDefault_config [simp]: "hk_Config (withDefault hk) = hk_Config hk"
  by (simp add: withDefault_def)

lemma Run_session: "rq_SessionID req \<noteq> [] \<Longrightarrow> Run lib hk req = runSession lib (withDefault hk) req"
  by (simp add: Run_def withDefault_def Let_def)

lemma Run_done: "exec answer (Run lib hk req) s = (Inr (), t) \<Longrightarrow> rq_SessionID req \<noteq> []"
  by (auto simp: Run_def Let_def split: if_splits)

lemma Run_settles:
  assumes "obeysAPI srv" "as_valid srv s" and "validRequest req" and "exec (as_answer srv) (Run lib hk req) s = (Inr (), t)"
  shows "\<exists>tmpl sb. as_sandbox srv t (cf_Namespace (hk_Config hk), SandboxName (cf_Release (hk_Config hk)) (rq_SessionID req)) = Some sb \<and>
     settledFor srv (withDefault hk) req tmpl sb t"
proof -
  have "exec (as_answer srv) (runSession lib (withDefault hk) req) s = (Inr (), t)"
    using assms(4) Run_session [OF Run_done [OF assms(4)]] by simp
  from runSession_settles [OF assms(1-3) this] show ?thesis
    using hookTemplate_key [where hk = "withDefault hk"] by (fastforce simp: keyOf_def)
qed

text \<open>
  C8: Redelivery is idempotent from end to end: whenever an invocation of the hook exits 0 for a
  valid request, whatever Sandbox, Secret or nothing at all it found, another invocation for the
  same request exits 0 as well and leaves every Sandbox, Secret and Pod as it is.
\<close>

theorem hook_idempotent:
  assumes "obeysAPI srv" and "as_valid srv s" and "validRequest req"
    and "exec (as_answer srv) (Run lib hk req) s = (Inr (), t)"
  shows "\<exists>u. exec (as_answer srv) (Run lib hk req) t = (Inr (), u) \<and> sameObjects srv t u"
  using runSession_again [OF assms(1-3)] assms(4) Run_session [OF Run_done [OF assms(4)]] by simp

text \<open>The stored Sandbox runs the order before; the first invocation accepts the new one.\<close>

definition sampleFiles :: "string \<Rightarrow> resp" where
  "sampleFiles path = RBytes ''yaml''"

lemma sample_accepting:
  "\<exists>st t sb (tmpl :: sandbox) pt rv g. validStore st \<and> exec (storeAnswer sampleFiles) (Run sampleLib sampleHook sampleRequest) st = (Inr (), t) \<and>
     st_sandboxes st = [sb] \<and> sb_operatingMode sb = Running \<and> sb_labels sb = sb_labels sampleRunning \<and>
     keyOf sb = (''ns'', SandboxName ''rel'' ''S-1'') \<and>
     refreshedTemplate sb (sb_podTemplate tmpl) = Some pt \<and> namesSecret (sb_podTemplate tmpl) \<and>
     st_sandboxes t = [(acceptNewer sb sampleRequest (orderSecretName sampleHook sb sampleRequest) 0 pt)
       \<lparr>sb_resourceVersion := rv, sb_generation := g\<rparr>]"
proof -
  obtain t where t: "ApplyContract sampleIdentity sampleContract sampleTemplate = Inr t"
    using sample_accepted by blast
  define sb where "sb = sampleRunning\<lparr>sb_namespace := sb_namespace t, sb_name := sb_name t\<rparr>"
  have f: "sb_uid sb \<noteq> []" "sb_resourceVersion sb \<noteq> []" "sb_name sb = sb_name t" "sb_namespace sb = sb_namespace t"
    by (simp_all add: sb_def sampleRunning_def sampleLive_def)
  have ev: "evaluate sb sampleRequest ''rel'' = Inr DecisionNewer" "holdsSlot sb"
    using evaluate_cong [of sb sampleRunning sampleRequest "''rel''"] sample_evaluate sample_holdsSlot
    by (simp_all add: sb_def holdsSlot_def deleting_def)
  have names: "namesSecret (sb_podTemplate t)"
    using ApplyContract_meets [OF t] by (auto simp: namesSecret_def meetsContract_def)
  then obtain pt where pt: "refreshedTemplate sb (sb_podTemplate t) = Some pt"
    using refreshedTemplate_Some by blast
  have key: "sb_namespace t = ''ns''" "sb_name t = SandboxName ''rel'' ''S-1''"
    using ApplyContract_result(1,2) [OF t] by (simp_all add: sampleIdentity_def)
  define st where "st = \<lparr>st_sandboxes = [sb], st_secrets = [], st_pods = [], st_clock = 0, st_next = 7\<rparr>"
  let ?hk = "sampleHook\<lparr>hk_MaxAttempts := 12\<rparr>"
  let ?mut = "acceptNewer sb sampleRequest (orderSecretName ?hk sb sampleRequest) 0 pt"
  obtain p where p: "Optimistic sampleLib sb ?mut = Inr p" using sampleLib_Optimistic [OF f(1,2)] by blast
  have rec: "reconcileExisting sampleLib ?hk sb t sampleRequest = publishNewer sampleLib ?hk sb t sampleRequest"
    using ev by (simp add: reconcileExisting_def sampleHook_def checkCapacity_def thenP_def)
  have read: "findSandbox (st\<lparr>st_secrets := l\<rparr>) (sb_namespace t, sb_name t) = Some sb" "findSandbox st (sb_namespace t, sb_name t) = Some sb"
      "findSecret st k = None" "st_clock st = 0" "st_sandboxes st = [sb]" for l k
    using f by (simp_all add: st_def findSandbox_def findSecret_def keyOf_def)
  have mut: "keyOf ?mut = (sb_namespace t, sb_name t)" "keyOf sb = (sb_namespace t, sb_name t)" "sb_uid ?mut = sb_uid sb"
      "sb_operatingMode ?mut = Suspended" "sb_operatingMode sb = Running"
    using f by (simp_all add: acceptNewer_def keyOf_def sb_def sampleRunning_def sampleLive_def sampleTemplate_def)
  have n: "orderSecretName ?hk sb sampleRequest = orderSecretName sampleHook sb sampleRequest" by (simp add: orderSecretName_def)
  have "\<exists>t rv g. exec (storeAnswer sampleFiles) (Run sampleLib sampleHook sampleRequest) st = (Inr (), t) \<and>
     st_sandboxes t = [?mut\<lparr>sb_resourceVersion := rv, sb_generation := g\<rparr>]"
    unfolding sample_start runSession_def sample_ident sample_template
    by (simp add: exec_simps asBytes_def sample_parse t sample_loop sessionAttempt_def backoff_def sampleFiles_def
        asSandbox_def afterRead_def rec publishNewer_def Let_def ensureSecret_def asOk_def pt asTime_def hookPatch_def p read mut
        Optimistic_pins(1,2) [OF p] replaceSandbox_def) blast
  moreover have "validStore st" using f by (simp add: validStore_def st_def)
  moreover have "keyOf sb = (''ns'', SandboxName ''rel'' ''S-1'')" using mut(2) key by simp
  moreover have "sb_labels sb = sb_labels sampleRunning" by (simp add: sb_def)
  ultimately show ?thesis using read(5) mut(5) pt names unfolding n by blast
qed

lemma sample_exec:
  "\<exists>st t sb. validStore st \<and> exec (storeAnswer sampleFiles) (Run sampleLib sampleHook sampleRequest) st = (Inr (), t) \<and>
     st_sandboxes st = [sb] \<and> st_sandboxes t \<noteq> st_sandboxes st"
proof -
  obtain st t sb pt rv g where s: "validStore st" "exec (storeAnswer sampleFiles) (Run sampleLib sampleHook sampleRequest) st = (Inr (), t)"
      "st_sandboxes st = [sb]" "sb_operatingMode sb = Running" "st_sandboxes t = [(acceptNewer sb sampleRequest
        (orderSecretName sampleHook sb sampleRequest) 0 pt)\<lparr>sb_resourceVersion := rv, sb_generation := g\<rparr>]"
    using sample_accepting by blast
  have "sb_operatingMode (hd (st_sandboxes t)) = Suspended" by (simp add: s(5) acceptNewer_def)
  then have "st_sandboxes t \<noteq> st_sandboxes st" using s(3,4) by auto
  then show ?thesis using s by blast
qed

theorem hook_idempotent_witness:
  "\<exists>s t u. exec (storeAnswer sampleFiles) (Run sampleLib sampleHook sampleRequest) s = (Inr (), t) \<and> st_sandboxes t \<noteq> st_sandboxes s \<and>
     exec (storeAnswer sampleFiles) (Run sampleLib sampleHook sampleRequest) t = (Inr (), u) \<and> sameObjects (storeServer sampleFiles) t u"
proof -
  obtain s t where s: "validStore s" "exec (storeAnswer sampleFiles) (Run sampleLib sampleHook sampleRequest) s = (Inr (), t)"
      "st_sandboxes t \<noteq> st_sandboxes s"
    using sample_exec by blast
  show ?thesis
    using hook_idempotent [OF storeServer_obeys _ sampleRequest_valid, of sampleFiles s sampleLib sampleHook t] s by auto
qed

end
