(* ===== verification/Capacity.thy ===== *)
theory Capacity
  imports Idempotence
begin

text \<open>
  The active-session cap in the composed system: hook invocations and reconcile passes, one after
  the other in any order, with anything between them that makes no session active.
\<close>

section \<open>The sessions that hold a slot\<close>

definition slots :: "'s apiServer \<Rightarrow> string \<Rightarrow> string \<Rightarrow> 's \<Rightarrow> objectKey set" where
  "slots srv N rel s = {key. \<exists>sb :: sandbox. as_sandbox srv s key = Some sb \<and> sb_namespace sb = N \<and>
     SelectorLabels ComponentRunner rel \<subseteq>\<^sub>m sb_labels sb \<and> holdsSlot sb}"

lemma slots_cong: "as_sandbox srv t = as_sandbox srv s \<Longrightarrow> slots srv N rel t = slots srv N rel s"
  by (simp add: slots_def)

lemma slots_put:
  assumes "as_sandbox srv t = (as_sandbox srv s)(key := new)" and "as_sandbox srv s key = Some sb"
    and "\<And>sb'. new = Some sb' \<Longrightarrow> sb_namespace sb' = sb_namespace sb \<and> sb_labels sb' = sb_labels sb \<and>
      (holdsSlot sb' \<longrightarrow> holdsSlot sb)"
  shows "slots srv N rel t \<subseteq> slots srv N rel s"
  using assms by (auto simp: slots_def split: if_splits)

lemma holdsSlot_later [simp]: "holdsSlot (sb\<lparr>sb_resourceVersion := rv, sb_generation := g\<rparr>) = holdsSlot sb"
  by (simp add: holdsSlot_def deleting_def)

lemma holdsSlot_session:
  "holdsSlot sb \<longleftrightarrow> \<not> deleting sb \<and> (s_mode (sessionOf sb) = Running \<or> s_pending (sessionOf sb) \<noteq> [])"
  by (simp add: holdsSlot_def sessionOf_def)

text \<open>A list of the namespace holds them, each once, so counting the list counts the slots.\<close>

lemma listed_slots:
  assumes api: "obeysAPI srv" "as_valid srv s"
    and l: "lawful srv s (ListSandboxes N (SelectorLabels ComponentRunner rel)) (RSandboxes items) t"
  shows "slots srv N rel s = keyOf ` set (filter holdsSlot items)"
    and "activeOthers n items = card (slots srv N rel s - {(N, n)})"
proof -
  have d: "distinct (map keyOf items)" and i: "\<And>sb. sb \<in> set items \<longleftrightarrow> as_sandbox srv s (keyOf sb) = Some sb \<and>
      sb_namespace sb = N \<and> SelectorLabels ComponentRunner rel \<subseteq>\<^sub>m sb_labels sb"
    using l by (auto simp: lawful_def)
  show eq: "slots srv N rel s = keyOf ` set (filter holdsSlot items)"
    using i stored_key(1) [OF api] by (fastforce simp: slots_def image_iff)
  let ?l = "filter (\<lambda>sb. sb_name sb \<noteq> n \<and> holdsSlot sb) items"
  have "sb_namespace sb = N" if "sb \<in> set items" for sb using that i by blast
  then have "keyOf ` set ?l = slots srv N rel s - {(N, n)}" unfolding eq by (auto simp: keyOf_def)
  moreover have "distinct (map keyOf ?l)" using d by (simp add: distinct_map_filter)
  ultimately show "activeOthers n items = card (slots srv N rel s - {(N, n)})"
    using distinct_card [of "map keyOf ?l"] by (simp add: activeOthers_def)
qed

lemma finite_slots:
  assumes "obeysAPI srv" and "as_valid srv s"
  shows "finite (slots srv N rel s)"
proof -
  let ?c = "ListSandboxes N (SelectorLabels ComponentRunner rel)"
  obtain items where "fst (as_answer srv s ?c) = RSandboxes items"
    using answer_lawful(1) [OF assms, of ?c] by (auto simp: lawful_def)
  then show ?thesis using listed_slots(1) [OF assms, of N rel items] answer_lawful(1) [OF assms, of ?c] by simp
qed

section \<open>A pass of the controller\<close>

text \<open>What the pass has seen so far is what is stored, until it writes.\<close>

definition truthful :: "'s apiServer \<Rightarrow> 's \<Rightarrow> history \<Rightarrow> bool" where
  "truthful srv s h \<longleftrightarrow> (\<forall>ns n sb. (GetSandbox ns n, RSandbox sb) \<in> set h \<longrightarrow> as_sandbox srv s (ns, n) = Some sb) \<and>
     (\<forall>ns n se. (GetSecret ns n, RSecret se) \<in> set h \<longrightarrow> as_secret srv s (ns, n) = Some se)"

lemma truthful_Cons:
  assumes "truthful srv s h" and "lawful srv s c r t" and "\<not> isWrite c"
  shows "truthful srv t ((c, r) # h) \<and> sameObjects srv s t"
proof -
  have same: "sameObjects srv s t" using assms(2,3) by (cases c) (simp_all add: lawful_def)
  then have "truthful srv t h" using assms(1) by (simp add: truthful_def sameObjects_def)
  moreover have "as_sandbox srv t (ns, n) = Some sb" if "c = GetSandbox ns n" "r = RSandbox sb" for ns n sb
    using assms(2) that by (cases "as_sandbox srv s (ns, n)") (simp_all add: lawful_def sameObjects_def)
  moreover have "as_secret srv t (ns, n) = Some se" if "c = GetSecret ns n" "r = RSecret se" for ns n se
    using assms(2) that by (cases "as_secret srv s (ns, n)") (simp_all add: lawful_def sameObjects_def)
  ultimately show ?thesis using same by (auto simp: truthful_def)
qed

lemma truthful_named:
  assumes "obeysAPI srv" and "as_valid srv s" and "truthful srv s h"
  shows "namedAsAsked h"
  using assms(3) secret_key [OF assms(1,2)] unfolding truthful_def namedAsAsked_def by blast

text \<open>
  What a pass does to the Sandboxes: nothing, or one of its release's that is not being deleted
  is replaced by the outcome of a step of the session's contract, or deleted.
\<close>

definition replacedBy :: "string \<Rightarrow> sandbox \<Rightarrow> sandbox option \<Rightarrow> bool" where
  "replacedBy release sb new \<longleftrightarrow> \<not> deleting sb \<and> (new = None \<or>
     (\<exists>a mut rv g. a \<in> {Observe, Sleep, Wake} \<and> legalPatch release sb a mut \<and>
        new = Some (mut\<lparr>sb_resourceVersion := rv, sb_generation := g\<rparr>)))"

definition passEffect :: "'s apiServer \<Rightarrow> reconciler \<Rightarrow> objectKey \<Rightarrow> 's \<Rightarrow> 's \<Rightarrow> bool" where
  "passEffect srv rc key s t \<longleftrightarrow> as_sandbox srv t = as_sandbox srv s \<or>
     (\<exists>(sb :: sandbox) new. as_sandbox srv s key = Some sb \<and> replacedBy (rc_Release rc) sb new \<and>
        as_sandbox srv t = (as_sandbox srv s)(key := new))"

lemma passEffect_write:
  assumes api: "obeysAPI srv" "as_valid srv t" and g: "reconcileGuard lib rc ns n h c" and w: "isWrite c"
    and t: "truthful srv t h" and l: "lawful srv t c r u"
  shows "passEffect srv rc (ns, n) t u"
proof -
  note read = t [unfolded truthful_def, THEN conjunct1, rule_format]
  show ?thesis
  proof (cases c)
    case (PatchSandbox orig mut doc)
    then have o: "readBy rc ns n h orig" "Optimistic lib orig mut = Inr doc" "patchGuard lib rc h orig mut"
      using g truthful_named [OF api t] by (simp_all add: reconcileGuard_def)
    then obtain a where a: "a \<in> {Observe, Sleep, Wake}" "legalPatch (rc_Release rc) orig a mut"
      by (auto simp: patchGuard_def)
    then have same: "samePart orig mut" and d: "\<not> deleting orig" by (simp_all add: legalPatch_def)
    have live: "as_sandbox srv t (ns, n) = Some orig" using o(1) read by (auto simp: readBy_def)
    then have k: "(ns, n) = keyOf orig" using stored_key(1) [OF api] by simp
    obtain rv gn where "putSandbox srv t (keyOf orig) (Some (mut\<lparr>sb_resourceVersion := rv, sb_generation := gn\<rparr>)) u"
      using l live k Optimistic_pins(1,2) [OF o(2)] same unfolding PatchSandbox
      by (auto simp: lawful_def Let_def samePart_def keyOf_def)
    then have "as_sandbox srv u = (as_sandbox srv t)((ns, n) \<mapsto> mut\<lparr>sb_resourceVersion := rv, sb_generation := gn\<rparr>)"
      using k by (simp add: putSandbox_def)
    moreover have "replacedBy (rc_Release rc) orig (Some (mut\<lparr>sb_resourceVersion := rv, sb_generation := gn\<rparr>))"
      using a d unfolding replacedBy_def by blast
    ultimately show ?thesis using live unfolding passEffect_def by blast
  next
    case (DeleteSandbox ns' n' uid rv)
    then obtain sb where sb: "readBy rc ns n h sb" "(ns', n') = keyOf sb" "uid = sb_uid sb" "rv = sb_resourceVersion sb"
      using g by (auto simp: reconcileGuard_def keyOf_def)
    then have live: "as_sandbox srv t (ns, n) = Some sb" using read by (auto simp: readBy_def)
    then have k: "(ns', n') = (ns, n)" using stored_key(1) [OF api] sb(2) by simp
    then have "as_sandbox srv u = (as_sandbox srv t)((ns, n) := None)"
      using l live sb(3,4) unfolding DeleteSandbox by (simp add: lawful_def)
    then show ?thesis using live sb(1) by (auto simp: passEffect_def replacedBy_def readBy_def)
  qed (use g w in \<open>simp_all add: reconcileGuard_def\<close>)
qed

lemma pass_effect:
  assumes api: "obeysAPI srv" "as_valid srv s"
  shows "passEffect srv rc (ns, n) s (snd (exec (as_answer srv) (Reconcile lib rc st ns n) s))"
proof -
  define I where "I h t \<longleftrightarrow> (noWrite h \<longrightarrow> truthful srv t h \<and> as_sandbox srv t = as_sandbox srv s) \<and> passEffect srv rc (ns, n) s t" for h t
  have "\<exists>h'. I h' (snd (exec (as_answer srv) (Reconcile lib rc st ns n) s)) \<and>
      passPost (fst (exec (as_answer srv) (Reconcile lib rc st ns n) s)) h'"
  proof (rule exec_invariant [OF Reconcile_wp api])
    show "I [] s" by (simp add: I_def truthful_def passEffect_def)
    fix h t c
    let ?r = "fst (as_answer srv t c)" and ?t = "snd (as_answer srv t c)"
    assume v: "as_valid srv t" and i: "I h t" and g: "reconcileGuard lib rc ns n h c" and l: "lawful srv t c ?r ?t"
    show "I ((c, ?r) # h) ?t"
    proof (cases "isWrite c")
      case False
      then have "as_sandbox srv ?t = as_sandbox srv t"
        using read_same [OF api(1) v False] by (simp add: sameObjects_def)
      then show ?thesis using i truthful_Cons [OF _ l False] False by (auto simp: I_def passEffect_def)
    next
      case True
      then have "noWrite h" using g by (cases c) (auto simp: reconcileGuard_def)
      then have "truthful srv t h" "as_sandbox srv t = as_sandbox srv s" using i by (simp_all add: I_def)
      then show ?thesis using passEffect_write [OF api(1) v g True _ l] True by (simp add: I_def passEffect_def)
    qed
  qed
  then show ?thesis by (auto simp: I_def)
qed

lemma replacedBy_slot:
  assumes "replacedBy release sb (Some sb')" and "holdsSlot sb'"
  shows "holdsSlot sb"
proof -
  obtain a mut rv g where a: "a \<in> {Observe, Sleep, Wake}" "legalPatch release sb a mut"
      "sb' = mut\<lparr>sb_resourceVersion := rv, sb_generation := g\<rparr>"
    using assms(1) by (auto simp: replacedBy_def)
  then have d: "deleting mut = deleting sb" by (auto simp: legalPatch_def samePart_def deleting_def)
  have "lifecycle (derivedName release sb) (sessionOf sb) a (sessionOf mut)" using a(2) by (simp add: legalPatch_def)
  moreover have "holdsSlot mut" using assms(2) a(3) by simp
  ultimately show ?thesis using a(1) d by (cases rule: lifecycle.cases) (auto simp: holdsSlot_session)
qed

lemma pass_slots:
  assumes api: "obeysAPI srv" "as_valid srv s"
  shows "slots srv N rel (snd (exec (as_answer srv) (Reconcile lib rc st ns n) s)) \<subseteq> slots srv N rel s"
  using pass_effect [OF api, of rc ns n lib st] unfolding passEffect_def
proof (elim disjE exE conjE)
  fix sb :: sandbox and new
  assume "as_sandbox srv s (ns, n) = Some sb" and r: "replacedBy (rc_Release rc) sb new"
    and "as_sandbox srv (snd (exec (as_answer srv) (Reconcile lib rc st ns n) s)) = (as_sandbox srv s)((ns, n) := new)"
  then show ?thesis
  proof (intro slots_put)
    fix sb'
    assume "new = Some sb'"
    then show "sb_namespace sb' = sb_namespace sb \<and> sb_labels sb' = sb_labels sb \<and> (holdsSlot sb' \<longrightarrow> holdsSlot sb)"
      using r replacedBy_slot [of "rc_Release rc" sb sb'] by (auto simp: replacedBy_def legalPatch_def samePart_def)
  qed
qed (simp add: slots_def)

section \<open>An invocation of the hook\<close>

text \<open>
  What an invocation may do: it leaves all Sandboxes but its session's alone, and its session
  newly holds a slot only with fewer others than the cap.
\<close>

definition admits :: "'s apiServer \<Rightarrow> hook \<Rightarrow> objectKey \<Rightarrow> 's \<Rightarrow> 's \<Rightarrow> bool" where
  "admits srv hk key s t \<longleftrightarrow> (\<forall>k. k \<noteq> key \<longrightarrow> as_sandbox srv t k = as_sandbox srv s k) \<and>
     (let slots = slots srv (cf_Namespace (hk_Config hk)) (cf_Release (hk_Config hk)) in
      key \<in> slots t \<longrightarrow> key \<in> slots s \<or> int (card (slots s - {key})) < cf_MaxActiveSessions (hk_Config hk))"

lemma admits_same: "as_sandbox srv t = as_sandbox srv s \<Longrightarrow> admits srv hk key s t"
  by (simp add: admits_def slots_def Let_def)

lemma admits_trans [trans]:
  assumes "admits srv hk key s t" and "admits srv hk key t u"
  shows "admits srv hk key s u"
proof -
  have "slots srv N rel t - {key} = slots srv N rel s - {key}" for N rel
    using assms(1) by (auto simp: admits_def slots_def)
  then show ?thesis using assms unfolding admits_def Let_def by metis
qed

lemma admits_put:
  assumes "as_sandbox srv t = (as_sandbox srv s)(key \<mapsto> new)"
    and "holdsSlot new \<Longrightarrow> sb_namespace new = cf_Namespace (hk_Config hk) \<Longrightarrow>
      SelectorLabels ComponentRunner (cf_Release (hk_Config hk)) \<subseteq>\<^sub>m sb_labels new \<Longrightarrow>
      key \<in> slots srv (cf_Namespace (hk_Config hk)) (cf_Release (hk_Config hk)) s \<or>
      int (card (slots srv (cf_Namespace (hk_Config hk)) (cf_Release (hk_Config hk)) s - {key})) < cf_MaxActiveSessions (hk_Config hk)"
  shows "admits srv hk key s t"
proof -
  have "key \<in> slots srv N rel t \<longleftrightarrow> holdsSlot new \<and> sb_namespace new = N \<and> SelectorLabels ComponentRunner rel \<subseteq>\<^sub>m sb_labels new" for N rel
    using assms(1) by (auto simp: slots_def)
  then show ?thesis using assms by (simp add: admits_def Let_def)
qed

abbreviation roomFor :: "'s apiServer \<Rightarrow> hook \<Rightarrow> objectKey \<Rightarrow> 's \<Rightarrow> bool" where
  "roomFor srv hk key s \<equiv> int (card (slots srv (cf_Namespace (hk_Config hk)) (cf_Release (hk_Config hk)) s - {key}))
     < cf_MaxActiveSessions (hk_Config hk)"

lemma checkCapacity_room:
  assumes api: "obeysAPI srv" "as_valid srv s" and "0 < cf_MaxActiveSessions (hk_Config hk)"
    and "fst (exec (as_answer srv) (checkCapacity hk own n) s) = Inr ()"
  shows "(\<exists>sb. own = Some sb \<and> holdsSlot sb) \<or> roomFor srv hk (cf_Namespace (hk_Config hk), n) s"
proof -
  let ?c = "ListSandboxes (cf_Namespace (hk_Config hk)) (SelectorLabels ComponentRunner (cf_Release (hk_Config hk)))"
  obtain items where i: "fst (as_answer srv s ?c) = RSandboxes items"
    using answer_lawful(1) [OF api, of ?c] by (auto simp: lawful_def)
  then have "activeOthers n items = card (slots srv (cf_Namespace (hk_Config hk)) (cf_Release (hk_Config hk)) s
      - {(cf_Namespace (hk_Config hk), n)})"
    using answer_lawful(1) [OF api, of ?c] by (intro listed_slots(2) [OF api]) simp
  then show ?thesis
    using assms(3,4) i by (auto simp: checkCapacity_def Let_def exec_simps asSandboxes_def split: if_splits option.splits)
qed

lemma exec_keeps:
  assumes "obeysAPI srv" and "as_valid srv s" and "only (\<lambda>c. \<not> isWrite c \<or> (\<exists>se. c = CreateSecret se)) p"
  shows "as_sandbox srv (snd (exec (as_answer srv) p s)) = as_sandbox srv s"
  using assms(2,3)
proof (induction p arbitrary: s)
  case (Call c k)
  note l = answer_lawful [OF assms(1) Call.prems(1), of c]
  have "as_sandbox srv (snd (as_answer srv s c)) = as_sandbox srv s"
    using Call.prems(2) l(1) read_same [OF assms(1) Call.prems(1), of c]
    by (auto simp: sameObjects_def lawful_def split: if_splits)
  then show ?case using Call.IH [OF rangeI l(2)] Call.prems(2) by auto
qed simp

lemma ensureSecret_keeps: "only (\<lambda>c. \<not> isWrite c \<or> (\<exists>se. c = CreateSecret se)) (ensureSecret sb tmpl req name)"
  unfolding ensureSecret_def Let_def by (intro only_intros) auto

lemma hookPatch_admits:
  assumes api: "obeysAPI srv" "as_valid srv s" and live: "as_sandbox srv s key = Some orig"
    and same: "samePart orig mut" and room: "holdsSlot mut \<Longrightarrow> holdsSlot orig \<or> roomFor srv hk key s"
  shows "admits srv hk key s (snd (exec (as_answer srv) (hookPatch lib orig mut) s))"
proof (cases "Optimistic lib orig mut")
  case (Inl e)
  then show ?thesis by (simp add: hookPatch_def admits_same)
next
  case (Inr doc)
  have k: "keyOf orig = key" by (rule stored_key(1) [OF api live])
  moreover have "keyOf mut = keyOf orig" "sb_uid mut = sb_uid orig" using same by (simp_all add: samePart_def keyOf_def)
  ultimately obtain rv g where "putSandbox srv s key (Some (mut\<lparr>sb_resourceVersion := rv, sb_generation := g\<rparr>))
      (snd (as_answer srv s (PatchSandbox orig mut doc)))"
    using answer_lawful(1) [OF api, of "PatchSandbox orig mut doc"] live Optimistic_pins(1,2) [OF Inr]
    by (auto simp: lawful_def Let_def)
  moreover have "snd (exec (as_answer srv) (hookPatch lib orig mut) s) = snd (as_answer srv s (PatchSandbox orig mut doc))"
    using Inr by (simp add: hookPatch_def exec_simps split: sum.splits)
  ultimately show ?thesis
    using room same live k by (intro admits_put) (auto simp: putSandbox_def samePart_def slots_def)
qed

lemma repairPointers_slot: "repairPointers req name sb = Inr (mut, changed) \<Longrightarrow> holdsSlot mut = holdsSlot sb"
  by (auto simp: repairPointers_def Let_def holdsSlot_def deleting_def split: if_splits)

lemma repairRedelivery_admits:
  assumes api: "obeysAPI srv" "as_valid srv s" and live: "as_sandbox srv s key = Some sb"
    and last: "lastOrderOf sb = rq_OrderID req"
  shows "admits srv hk key s (snd (exec (as_answer srv) (repairRedelivery lib hk' sb tmpl req) s))"
proof -
  let ?n = "orderSecretName hk' sb req"
  obtain x u where e: "exec (as_answer srv) (ensureSecret sb tmpl req ?n) s = (x, u)" by fastforce
  have u: "as_sandbox srv u = as_sandbox srv s" "as_valid srv u"
    using exec_keeps [OF api ensureSecret_keeps, of sb tmpl req ?n] exec_valid [OF api, of "ensureSecret sb tmpl req ?n"] e by simp_all
  have patch: "admits srv hk key u (snd (exec (as_answer srv) (hookPatch lib sb mut) u))"
    if "repairPointers req ?n sb = Inr (mut, changed)" for mut changed
    using repairPointers_effect [OF that last] repairPointers_slot [OF that] live u(1)
    by (intro hookPatch_admits [OF api(1) u(2)]) simp_all
  have "admits srv hk key u (snd (exec (as_answer srv) (repairRedelivery lib hk' sb tmpl req) s))"
    using e patch by (auto simp: repairRedelivery_def Let_def exec_simps admits_same split: sum.splits prod.splits if_splits)
  with admits_same [OF u(1)] show ?thesis by (rule admits_trans)
qed

lemma publishNewer_admits:
  assumes api: "obeysAPI srv" "as_valid srv s" and live: "as_sandbox srv s key = Some sb"
    and room: "holdsSlot sb \<or> roomFor srv hk key s"
  shows "admits srv hk key s (snd (exec (as_answer srv) (publishNewer lib hk sb tmpl req) s))"
proof -
  let ?n = "orderSecretName hk sb req"
  obtain x u where e: "exec (as_answer srv) (ensureSecret sb tmpl req ?n) s = (x, u)" by fastforce
  have u: "as_sandbox srv u = as_sandbox srv s" "as_valid srv u"
    using exec_keeps [OF api ensureSecret_keeps, of sb tmpl req ?n] exec_valid [OF api, of "ensureSecret sb tmpl req ?n"] e by simp_all
  obtain r v where c: "as_answer srv u Now = (r, v)" by fastforce
  have v: "as_sandbox srv v = as_sandbox srv s" "as_valid srv v"
    using read_same [OF api(1) u(2), of Now] answer_lawful(2) [OF api(1) u(2), of Now] u(1) c by (simp_all add: sameObjects_def)
  have "slots srv N rel v = slots srv N rel s" for N rel using v(1) by (rule slots_cong)
  then have "admits srv hk key v (snd (exec (as_answer srv) (hookPatch lib sb (acceptNewer sb req ?n now pt)) v))" for now pt
    using room live v(1) by (intro hookPatch_admits [OF api(1) v(2)]) simp_all
  then have patch: "admits srv hk key v w" if "exec (as_answer srv) (hookPatch lib sb (acceptNewer sb req ?n now pt)) v = (y, w)" for now pt y w
    using that by (metis snd_conv)
  have same: "admits srv hk key v u" "admits srv hk key s v" using u(1) v(1) by (simp_all add: admits_same)
  have "admits srv hk key v (snd (exec (as_answer srv) (publishNewer lib hk sb tmpl req) s))"
    using e c patch same(1)
    by (auto simp: publishNewer_def Let_def exec_simps admits_same split: sum.splits prod.splits option.splits)
  with same(2) show ?thesis by (rule admits_trans)
qed

lemma reconcileExisting_admits:
  assumes api: "obeysAPI srv" "as_valid srv s" and live: "as_sandbox srv s (cf_Namespace (hk_Config hk), n) = Some sb"
    and cap: "0 < cf_MaxActiveSessions (hk_Config hk)"
  shows "admits srv hk (cf_Namespace (hk_Config hk), n) s (snd (exec (as_answer srv) (reconcileExisting lib hk sb tmpl req) s))"
proof (cases "evaluate sb req (cf_Release (hk_Config hk))")
  case (Inl e)
  then show ?thesis by (simp add: reconcileExisting_def admits_same)
next
  case (Inr d)
  let ?key = "(cf_Namespace (hk_Config hk), n)"
  show ?thesis
  proof (cases d)
    case DecisionSuperseded
    then show ?thesis using Inr by (simp add: reconcileExisting_def admits_same)
  next
    case DecisionRedelivery
    moreover have "lastOrderOf sb = rq_OrderID req" using Inr DecisionRedelivery by (auto elim: evaluate_InrE)
    ultimately show ?thesis using Inr repairRedelivery_admits [OF api live] by (simp add: reconcileExisting_def)
  next
    case DecisionNewer
    have n: "sb_name sb = n" using stored_key(1) [OF api live] by (simp add: keyOf_def)
    obtain x u where e: "exec (as_answer srv) (checkCapacity hk (Some sb) n) s = (x, u)" by fastforce
    have u: "sameObjects srv s u" "as_valid srv u"
      using exec_reads [OF api checkCapacity_reads, of hk "Some sb" n] exec_valid [OF api, of "checkCapacity hk (Some sb) n"] e by simp_all
    have s: "as_sandbox srv u = as_sandbox srv s" using u(1) by (simp add: sameObjects_def)
    have "holdsSlot sb \<or> roomFor srv hk ?key u" if "x = Inr ()"
      using checkCapacity_room [OF api cap, of "Some sb" n] e that slots_cong [OF s] by auto
    then have "admits srv hk ?key u (snd (exec (as_answer srv) (publishNewer lib hk sb tmpl req) u))" if "x = Inr ()"
      using publishNewer_admits [OF api(1) u(2)] live s that by simp
    then have "admits srv hk ?key u (snd (exec (as_answer srv) (reconcileExisting lib hk sb tmpl req) s))"
      using Inr DecisionNewer e n by (auto simp: reconcileExisting_def exec_simps admits_same split: sum.splits)
    with admits_same [OF s] show ?thesis by (rule admits_trans)
  qed
qed

lemma afterRead_admits:
  assumes "obeysAPI srv" "as_valid srv s" and "as_sandbox srv s (cf_Namespace (hk_Config hk), n) = Some sb"
    and "0 < cf_MaxActiveSessions (hk_Config hk)"
  shows "admits srv hk (cf_Namespace (hk_Config hk), n) s (snd (exec (as_answer srv) (afterRead lib hk req tmpl sb) s))"
proof -
  have "snd (exec (as_answer srv) (afterRead lib hk req tmpl sb) s) = snd (exec (as_answer srv) (reconcileExisting lib hk sb tmpl req) s)"
    by (simp add: afterRead_def exec_simps split: sum.splits)
  then show ?thesis using reconcileExisting_admits [OF assms] by simp
qed

lemma createPath_admits:
  assumes api: "obeysAPI srv" "as_valid srv s" and cap: "0 < cf_MaxActiveSessions (hk_Config hk)"
    and ns: "sb_namespace tmpl = cf_Namespace (hk_Config hk)"
  shows "admits srv hk (keyOf tmpl) s (snd (exec (as_answer srv) (createPath lib hk req tmpl) s))"
proof -
  let ?N = "cf_Namespace (hk_Config hk)"
  have key: "keyOf tmpl = (?N, sb_name tmpl)" using ns by (simp add: keyOf_def)
  obtain x u where e: "exec (as_answer srv) (checkCapacity hk None (sb_name tmpl)) s = (x, u)" by fastforce
  have u: "sameObjects srv s u" "as_valid srv u"
    using exec_reads [OF api checkCapacity_reads, of hk None "sb_name tmpl"] exec_valid [OF api, of "checkCapacity hk None (sb_name tmpl)"] e by simp_all
  obtain r v where now: "as_answer srv u Now = (r, v)" by fastforce
  have v: "sameObjects srv u v" "as_valid srv v"
    using read_same [OF api(1) u(2), of Now] answer_lawful(2) [OF api(1) u(2), of Now] now by simp_all
  have s: "as_sandbox srv v = as_sandbox srv s" "as_sandbox srv u = as_sandbox srv s" using u(1) v(1) by (simp_all add: sameObjects_def)
  let ?new = "newSandbox tmpl req (asTime r)"
  obtain cr w where c: "as_answer srv v (CreateSandbox ?new) = (cr, w)" by fastforce
  note l = answer_lawful [OF api(1) v(2), of "CreateSandbox ?new"]
  have new: "keyOf ?new = keyOf tmpl" "sb_namespace ?new = ?N" by (simp_all add: newSandbox_def ns)
  have w: "as_valid srv w" using l(2) c by simp
  have room: "roomFor srv hk (keyOf tmpl) v" if "x = Inr ()"
    using checkCapacity_room [OF api cap, of None "sb_name tmpl"] e that slots_cong [OF s(1)] key by simp
  have create: "admits srv hk (keyOf tmpl) v w" if "x = Inr ()"
  proof (cases "as_sandbox srv v (keyOf tmpl) = None")
    case True
    then obtain uid rv g where "putSandbox srv v (keyOf tmpl) (Some (?new\<lparr>sb_uid := uid, sb_resourceVersion := rv, sb_generation := g\<rparr>)) w"
      using l(1) c new(1) by (auto simp: lawful_def Let_def)
    then show ?thesis using room [OF that] by (intro admits_put) (auto simp: putSandbox_def)
  next
    case False
    then show ?thesis using l(1) c new(1) by (intro admits_same) (auto simp: lawful_def sameObjects_def)
  qed
  have after: "admits srv hk (keyOf tmpl) w (snd (exec (as_answer srv) (afterRead lib hk req tmpl sb) w))" if "asSandbox cr = Inr sb" for sb
  proof -
    have "as_sandbox srv w (keyOf tmpl) = Some sb"
      using l(1) c that new(1) by (cases cr) (auto simp: lawful_def Let_def putSandbox_def split: if_splits)
    then show ?thesis using afterRead_admits [OF api(1) w _ cap] key by simp
  qed
  have "admits srv hk (keyOf tmpl) v (snd (exec (as_answer srv) (createPath lib hk req tmpl) s))"
  proof (cases x)
    case (Inl err)
    then show ?thesis using e s by (simp add: createPath_def exec_simps admits_same)
  next
    case (Inr a)
    then have "snd (exec (as_answer srv) (createPath lib hk req tmpl) s) = (case asSandbox cr of
        Inl _ \<Rightarrow> w | Inr sb \<Rightarrow> snd (exec (as_answer srv) (afterRead lib hk req tmpl sb) w))"
      using e now c by (cases "asSandbox cr") (auto simp: createPath_def createSandbox_def exec_simps asSandbox_def)
    then show ?thesis using create Inr after admits_trans [OF create] by (auto split: sum.splits)
  qed
  with admits_same [OF s(1)] show ?thesis by (rule admits_trans)
qed

lemma backoff_reads: "only (\<lambda>c. \<not> isWrite c) (backoff a)"
  unfolding backoff_def sleepCtx_def by (intro only_intros isWrite_simps)

lemma sessionAttempt_admits:
  assumes api: "obeysAPI srv" "as_valid srv s" and cap: "0 < cf_MaxActiveSessions (hk_Config hk)"
    and ns: "sb_namespace tmpl = cf_Namespace (hk_Config hk)"
  shows "admits srv hk (keyOf tmpl) s (snd (exec (as_answer srv) (sessionAttempt lib hk req tmpl a) s))"
proof -
  have key: "keyOf tmpl = (cf_Namespace (hk_Config hk), sb_name tmpl)" using ns by (simp add: keyOf_def)
  obtain b u where e: "exec (as_answer srv) (backoff a) s = (b, u)" by fastforce
  have u: "sameObjects srv s u" "as_valid srv u"
    using exec_reads [OF api backoff_reads, of a] exec_valid [OF api, of "backoff a"] e by simp_all
  let ?g = "GetSandbox (sb_namespace tmpl) (sb_name tmpl)"
  obtain r v where g: "as_answer srv u ?g = (r, v)" by fastforce
  have v: "sameObjects srv u v" "as_valid srv v"
    using read_same [OF api(1) u(2), of ?g] answer_lawful(2) [OF api(1) u(2), of ?g] g by simp_all
  have s: "as_sandbox srv v = as_sandbox srv s" "as_sandbox srv u = as_sandbox srv s" using u(1) v(1) by (simp_all add: sameObjects_def)
  have after: "admits srv hk (keyOf tmpl) v (snd (exec (as_answer srv) (afterRead lib hk req tmpl sb) v))" if "asSandbox r = Inr sb" for sb
  proof -
    have "as_sandbox srv v (keyOf tmpl) = Some sb"
      using answers(1) [OF api(1) u(2), of "sb_namespace tmpl" "sb_name tmpl"] g that s
      by (cases "as_sandbox srv u (keyOf tmpl)") (auto simp: keyOf_def)
    then show ?thesis using afterRead_admits [OF api(1) v(2) _ cap] key by simp
  qed
  have "admits srv hk (keyOf tmpl) v (snd (exec (as_answer srv) (sessionAttempt lib hk req tmpl a) s))"
    using e g s after createPath_admits [OF api(1) v(2) cap ns, of lib req]
    by (auto simp: sessionAttempt_def exec_simps admits_same split: sum.splits)
  with admits_same [OF s(1)] show ?thesis by (rule admits_trans)
qed

lemma sessionLoop_admits:
  assumes api: "obeysAPI srv" and cap: "0 < cf_MaxActiveSessions (hk_Config hk)"
    and ns: "sb_namespace tmpl = cf_Namespace (hk_Config hk)" and "as_valid srv s"
  shows "admits srv hk (keyOf tmpl) s (snd (exec (as_answer srv) (sessionLoop lib hk req tmpl n a) s))"
  using assms(4)
proof (induction n arbitrary: a s)
  case 0
  then show ?case by (simp add: admits_same)
next
  case (Suc n)
  obtain x u where e: "exec (as_answer srv) (sessionAttempt lib hk req tmpl a) s = (x, u)" by fastforce
  have u: "admits srv hk (keyOf tmpl) s u" "as_valid srv u"
    using sessionAttempt_admits [OF api Suc.prems cap ns, of lib req a] exec_valid [OF api Suc.prems, of "sessionAttempt lib hk req tmpl a"] e by simp_all
  show ?case using e u admits_trans [OF u(1) Suc.IH [OF u(2)]] by (cases x) (simp_all add: exec_simps)
qed

lemma Run_admits:
  assumes api: "obeysAPI srv" "as_valid srv s" and cap: "0 < cf_MaxActiveSessions (hk_Config hk)"
  shows "admits srv hk (cf_Namespace (hk_Config hk), SandboxName (cf_Release (hk_Config hk)) (rq_SessionID req)) s
     (snd (exec (as_answer srv) (Run lib hk req) s))"
proof -
  have session: "admits srv hk' (cf_Namespace (hk_Config hk'), SandboxName (cf_Release (hk_Config hk')) (rq_SessionID req)) s
      (snd (exec (as_answer srv) (runSession lib hk' req) s))" if c: "0 < cf_MaxActiveSessions (hk_Config hk')" for hk'
  proof -
    let ?p = "hookTemplate lib hk' (requestIdentity hk' req)"
    obtain x u where e: "exec (as_answer srv) ?p s = (x, u)" by fastforce
    have u: "sameObjects srv s u" "as_valid srv u"
      using exec_reads [OF api hookTemplate_reads] exec_valid [OF api, of ?p] e by (metis snd_conv)+
    have s: "as_sandbox srv u = as_sandbox srv s" using u(1) by (simp add: sameObjects_def)
    show ?thesis
    proof (cases x)
      case (Inl err)
      then show ?thesis using e s by (simp add: runSession_def exec_simps admits_same)
    next
      case (Inr tmpl)
      then have k: "sb_namespace tmpl = cf_Namespace (hk_Config hk')" "sb_name tmpl = SandboxName (cf_Release (hk_Config hk')) (rq_SessionID req)"
        using e hookTemplate_key by (metis fst_conv)+
      have "admits srv hk' (keyOf tmpl) u (snd (exec (as_answer srv) (runSession lib hk' req) s))"
        using sessionLoop_admits [OF api(1) c k(1) u(2)] e Inr by (simp add: runSession_def exec_simps)
      with admits_same [OF s] have "admits srv hk' (keyOf tmpl) s (snd (exec (as_answer srv) (runSession lib hk' req) s))"
        by (rule admits_trans)
      then show ?thesis using k by (simp add: keyOf_def)
    qed
  qed
  show ?thesis
  proof (cases "rq_SessionID req = []")
    case True
    then show ?thesis by (simp add: Run_def Let_def admits_same)
  next
    case False
    then show ?thesis using session [of "withDefault hk"] cap by (simp add: Run_session admits_def)
  qed
qed

section \<open>The composed system\<close>

datatype event = Invocation hook spawnRequest | Pass reconciler recState string string | Outside

text \<open>
  What happens to the cluster: an invocation of the hook of this release with cap \<open>L\<close>, a pass of
  a controller for any object, and whatever else makes no session active.
\<close>

inductive composed :: "'s apiServer \<Rightarrow> k8sLib \<Rightarrow> string \<Rightarrow> string \<Rightarrow> int \<Rightarrow> 's \<Rightarrow> event \<Rightarrow> 's \<Rightarrow> bool"
  for srv :: "'s apiServer" and lib N rel L where
  invocation: "cf_Namespace (hk_Config hk) = N \<Longrightarrow> cf_Release (hk_Config hk) = rel \<Longrightarrow> cf_MaxActiveSessions (hk_Config hk) = L \<Longrightarrow>
     composed srv lib N rel L s (Invocation hk req) (snd (exec (as_answer srv) (Run lib hk req) s))"
| pass: "composed srv lib N rel L s (Pass rc st ns n) (snd (exec (as_answer srv) (Reconcile lib rc st ns n) s))"
| outside: "as_valid srv t \<Longrightarrow> slots srv N rel t \<subseteq> slots srv N rel s \<Longrightarrow> composed srv lib N rel L s Outside t"

definition withinCap :: "'s apiServer \<Rightarrow> string \<Rightarrow> string \<Rightarrow> int \<Rightarrow> 's \<Rightarrow> bool" where
  "withinCap srv N rel L s \<longleftrightarrow> obeysAPI srv \<and> 0 < L \<and> as_valid srv s \<and> int (card (slots srv N rel s)) \<le> L"

lemma withinCap_less:
  assumes "withinCap srv N rel L s" and "as_valid srv t" and "slots srv N rel t \<subseteq> slots srv N rel s"
  shows "withinCap srv N rel L t"
proof -
  have "finite (slots srv N rel s)" using assms(1) by (intro finite_slots) (simp_all add: withinCap_def)
  then have "card (slots srv N rel t) \<le> card (slots srv N rel s)" using assms(3) by (intro card_mono)
  then show ?thesis using assms(1,2) by (simp add: withinCap_def)
qed

lemma withinCap_invocation:
  assumes inv: "withinCap srv N rel L s" and hk: "cf_Namespace (hk_Config hk) = N" "cf_Release (hk_Config hk) = rel"
      "cf_MaxActiveSessions (hk_Config hk) = L"
  shows "withinCap srv N rel L (snd (exec (as_answer srv) (Run lib hk req) s))"
proof -
  let ?t = "snd (exec (as_answer srv) (Run lib hk req) s)" and ?key = "(N, SandboxName rel (rq_SessionID req))"
  have api: "obeysAPI srv" "as_valid srv s" "0 < L" using inv by (simp_all add: withinCap_def)
  then have valid: "as_valid srv ?t" by (intro exec_valid)
  have a: "admits srv hk ?key s ?t" using Run_admits [OF api(1,2), of hk] hk api(3) by simp
  then have sub: "slots srv N rel ?t \<subseteq> insert ?key (slots srv N rel s - {?key})" by (auto simp: admits_def slots_def)
  have fin: "finite (slots srv N rel s)" by (rule finite_slots [OF api(1,2)])
  show ?thesis
  proof (cases "slots srv N rel ?t \<subseteq> slots srv N rel s")
    case True
    then show ?thesis by (rule withinCap_less [OF inv valid])
  next
    case False
    then have "?key \<in> slots srv N rel ?t" "?key \<notin> slots srv N rel s" using sub by auto
    then have room: "int (card (slots srv N rel s - {?key})) < L" using a hk by (simp add: admits_def Let_def)
    have "card (slots srv N rel ?t) \<le> card (insert ?key (slots srv N rel s - {?key}))" using fin by (intro card_mono sub) simp
    also have "\<dots> \<le> Suc (card (slots srv N rel s - {?key}))" by (rule card_insert_le_m1) simp_all
    finally show ?thesis using room api valid by (simp add: withinCap_def)
  qed
qed

interpretation cap: inductive_invariant "withinCap srv N rel L" "composed srv lib N rel L" "withinCap srv N rel L"
  for srv lib N rel L
proof
  fix s a t
  assume inv: "withinCap srv N rel L s" and step: "composed srv lib N rel L s a t"
  then have api: "obeysAPI srv" "as_valid srv s" by (simp_all add: withinCap_def)
  from step show "withinCap srv N rel L t"
  proof (cases rule: composed.cases)
    case (invocation hk req)
    show ?thesis unfolding invocation(2) by (rule withinCap_invocation [OF inv invocation(3-5)])
  next
    case (pass rc st ns n)
    show ?thesis unfolding pass(2) by (rule withinCap_less [OF inv exec_valid [OF api] pass_slots [OF api]])
  next
    case outside
    then show ?thesis using withinCap_less [OF inv] by simp
  qed
qed simp

text \<open>
  C9: The cap holds in the composed system: from a state with at most \<open>L\<close> active sessions, any
  sequence of hook invocations with the cap \<open>L\<close>, passes of controllers, and other changes that make
  no session active leads to states with at most \<open>L\<close> active sessions.
\<close>

theorem cap_kept:
  assumes "obeysAPI srv" and "as_valid srv s" and "0 < L" and "int (card (slots srv N rel s)) \<le> L"
    and "steps (composed srv lib N rel L) s t"
  shows "int (card (slots srv N rel t)) \<le> L"
  using cap.steps_inv [OF assms(5)] assms(1-4) by (simp add: withinCap_def)

theorem cap_kept_witness:
  "\<exists>s t. steps (composed (storeServer sampleFiles) sampleLib ''ns'' ''rel'' 1) s t \<and> st_sandboxes t \<noteq> st_sandboxes s \<and>
     card (slots (storeServer sampleFiles) ''ns'' ''rel'' t) \<le> 1"
proof -
  obtain s t sb where s: "validStore s" "exec (storeAnswer sampleFiles) (Run sampleLib sampleHook sampleRequest) s = (Inr (), t)"
      "st_sandboxes s = [sb]" "st_sandboxes t \<noteq> st_sandboxes s"
    using sample_exec by blast
  have "composed (storeServer sampleFiles) sampleLib ''ns'' ''rel'' 1 s (Invocation sampleHook sampleRequest)
      (snd (exec (as_answer (storeServer sampleFiles)) (Run sampleLib sampleHook sampleRequest) s))"
    by (rule composed.invocation) (simp_all add: sampleHook_def)
  then have st: "steps (composed (storeServer sampleFiles) sampleLib ''ns'' ''rel'' 1) s t"
    using s(2) by (auto intro: steps.intros)
  have "slots (storeServer sampleFiles) ''ns'' ''rel'' s \<subseteq> {keyOf sb}"
    using s(3) by (auto simp: slots_def findSandbox_def split: if_splits)
  then have "card (slots (storeServer sampleFiles) ''ns'' ''rel'' s) \<le> 1" using card_mono [of "{keyOf sb}"] by simp
  then show ?thesis using cap_kept [OF storeServer_obeys _ _ _ st] s(1,4) st by (intro exI [of _ s] exI [of _ t]) simp
qed

end
