(* ===== verification/Collection.thy ===== *)
theory Collection
  imports Capacity Passes
begin

text \<open>
  The idle-session cap in the composed system: a round of passes over the idle sessions, in any
  order, deletes the oldest ones beyond the cap and no other.
\<close>

section \<open>The oldest of a set\<close>

definition victims :: "int \<Rightarrow> 'a :: linorder set \<Rightarrow> 'a set" where
  "victims m A = set (take (nat (int (card A) - m)) (sorted_list_of_set A))"

lemma sort_distinct: "distinct l \<Longrightarrow> sort l = sorted_list_of_set (set l)"
  by (simp add: sorted_list_of_set_sort_remdups distinct_remdups_id)

lemma selectVictims_victims: "distinct l \<Longrightarrow> set (selectVictims m l) = victims m (set l)"
  by (simp add: selectVictims_def victims_def Let_def sort_distinct distinct_card)

lemma take_remove1: "x \<in> set (take n l) \<Longrightarrow> take (n - 1) (remove1 x l) = remove1 x (take n l)"
proof (induction l arbitrary: n)
  case (Cons y l)
  show ?case
  proof (cases "x = y")
    case False
    obtain k where k: "n = Suc (Suc k)" using Cons.prems False by (cases n; cases "n - 1") auto
    then show ?thesis using Cons.IH [of "Suc k"] Cons.prems False by simp
  qed (use Cons.prems in \<open>cases n; simp\<close>)
qed simp

lemma victims_remove:
  assumes "finite A" and "v \<in> victims m A"
  shows "victims m (A - {v}) = victims m A - {v}"
proof -
  let ?n = "nat (int (card A) - m)" and ?l = "sorted_list_of_set A"
  have v: "v \<in> set (take ?n ?l)" using assms(2) by (simp add: victims_def)
  then have "v \<in> set ?l" by (rule in_set_takeD)
  then have "v \<in> A" using assms(1) by simp
  moreover have "0 < ?n" using v by (cases ?n) auto
  ultimately have n: "nat (int (card (A - {v})) - m) = ?n - 1"
    using assms(1) card_Suc_Diff1 [OF assms(1), of v] by simp
  have "victims m (A - {v}) = set (remove1 v (take ?n ?l))"
    unfolding victims_def n sorted_list_of_set_remove [OF assms(1)] take_remove1 [OF v] by (rule refl)
  also have "\<dots> = victims m A - {v}" using assms(1) by (simp add: victims_def distinct_take)
  finally show ?thesis .
qed

lemma victims_subset: "finite A \<Longrightarrow> victims m A \<subseteq> A"
  using set_take_subset [of _ "sorted_list_of_set A"] by (simp add: victims_def)

lemma card_kept:
  assumes "finite A" and "0 \<le> m"
  shows "int (card (A - victims m A)) = min m (int (card A))"
proof -
  have "card (victims m A) = min (nat (int (card A) - m)) (card A)"
    using assms(1) by (simp add: victims_def distinct_card)
  then show ?thesis using assms victims_subset [OF assms(1), of m]
    by (simp add: card_Diff_subset finite_subset of_nat_diff)
qed

lemma victims_older:
  assumes "finite A" and "v \<in> victims m A" and "k \<in> A - victims m A"
  shows "v \<le> k"
proof -
  let ?n = "nat (int (card A) - m)" and ?l = "sorted_list_of_set A"
  have "set (take ?n ?l) \<union> set (drop ?n ?l) = A" using assms(1) by (simp flip: set_append)
  then have "k \<in> set (drop ?n ?l)" using assms(3) by (auto simp: victims_def)
  moreover have "sorted (take ?n ?l @ drop ?n ?l)" by simp
  ultimately show ?thesis using assms(2) unfolding sorted_append by (auto simp: victims_def)
qed

section \<open>The sort of the code\<close>

lemma sorted_idleBefore:
  assumes "distinct (map ie_name l)" and "sorted_wrt (\<lambda>a b. \<not> idleBefore b a) l"
  shows "sorted l"
  using assms
proof (induction l)
  case (Cons a l)
  have "a \<le> b" if "b \<in> set l" for b
  proof -
    have "ie_name b \<noteq> ie_name a" using Cons.prems(1) that by (auto simp: image_iff)
    moreover have "\<not> idleBefore b a" using Cons.prems(2) that by simp
    ultimately show ?thesis by (simp add: idleBefore_less not_less)
  qed
  then show ?case using Cons by simp
qed simp

text \<open>
  C17: The victims are those of the code whatever \<open>sort.Slice\<close> does: any rearrangement of the idle
  sessions in which no entry comes after one it should precede is the one list the model takes
  the victims from, since the names of a namespace differ.
\<close>

theorem selectVictims_any_sort:
  assumes "distinct (map ie_name idle)" and "mset out = mset idle" and "sorted_wrt (\<lambda>a b. \<not> idleBefore b a) out"
  shows "selectVictims m idle = (if int (length idle) - m \<le> 0 then [] else take (nat (int (length idle) - m)) out)"
proof -
  have "distinct (map ie_name out)"
    using assms(1,2) by (metis mset_map mset_eq_imp_distinct_iff)
  then have "sort idle = out"
    using assms(2,3) by (intro properties_for_sort sorted_idleBefore) simp_all
  then show ?thesis by (simp add: selectVictims_def Let_def)
qed

theorem selectVictims_any_sort_witness:
  "selectVictims 1 [IdleEntry ''b'' ''u1'' 7, IdleEntry ''a'' ''u2'' 7, IdleEntry ''c'' ''u0'' 3] =
     [IdleEntry ''c'' ''u0'' 3, IdleEntry ''a'' ''u2'' 7]"
proof -
  let ?idle = "[IdleEntry ''b'' ''u1'' 7, IdleEntry ''a'' ''u2'' 7, IdleEntry ''c'' ''u0'' 3]"
  let ?out = "[IdleEntry ''c'' ''u0'' 3, IdleEntry ''a'' ''u2'' 7, IdleEntry ''b'' ''u1'' 7]"
  have "mset ?out = mset ?idle" by (simp add: ac_simps)
  moreover have "sorted_wrt (\<lambda>a b. \<not> idleBefore b a) ?out"
    by (simp add: idleBefore_def less_char_def)
  ultimately show ?thesis
    using selectVictims_any_sort [of ?idle ?out 1] by simp
qed

section \<open>The idle sessions\<close>

definition managedIn :: "string \<Rightarrow> string \<Rightarrow> sandbox \<Rightarrow> bool" where
  "managedIn N rel sb \<longleftrightarrow> sb_namespace sb = N \<and> SelectorLabels ComponentRunner rel \<subseteq>\<^sub>m sb_labels sb"

definition idleEntries :: "'s apiServer \<Rightarrow> k8sLib \<Rightarrow> string \<Rightarrow> string \<Rightarrow> 's \<Rightarrow> idleEntry set" where
  "idleEntries srv lib N rel s = {e. \<exists>key (sb :: sandbox). as_sandbox srv s key = Some sb \<and> managedIn N rel sb \<and>
     idleEntryOf lib sb = Some e}"

definition uniqueUIDs :: "'s apiServer \<Rightarrow> 's \<Rightarrow> bool" where
  "uniqueUIDs srv s \<longleftrightarrow> (\<forall>key key' (sb :: sandbox) (sb' :: sandbox). as_sandbox srv s key = Some sb \<and>
     as_sandbox srv s key' = Some sb' \<and> sb_uid sb = sb_uid sb' \<longrightarrow> key = key')"

lemma idleEntryOf_fields: "idleEntryOf lib sb = Some e \<Longrightarrow> ie_name e = sb_name sb \<and> ie_uid e = sb_uid sb"
  by (auto simp: idleEntryOf_def split: sum.splits option.splits)

lemma set_map_filter_Some: "set (List.map_filter f l) = {y. \<exists>x \<in> set l. f x = Some y}"
  by (induction l) (auto simp: map_filter_simps split: option.splits)

lemma distinct_map_filter_Some:
  assumes "\<And>x y. x \<in> set l \<Longrightarrow> f x = Some y \<Longrightarrow> g y = h x" and "distinct (map h l)"
  shows "distinct (List.map_filter f l)"
  using assms
proof (induction l)
  case (Cons x l)
  then have IH: "distinct (List.map_filter f l)" by simp
  show ?case
  proof (cases "f x")
    case (Some y)
    have "y \<notin> set (List.map_filter f l)"
    proof
      assume "y \<in> set (List.map_filter f l)"
      then obtain x' where "x' \<in> set l" "f x' = Some y" by (auto simp: set_map_filter_Some)
      then have "h x' = h x" using Cons.prems(1) [of x y] Cons.prems(1) [of x' y] Some by simp
      then show False using \<open>x' \<in> set l\<close> Cons.prems(2) by (metis distinct.simps(2) image_eqI list.simps(9) list.set_map)
    qed
    then show ?thesis using IH Some by (simp add: map_filter_simps)
  qed (use IH in \<open>simp add: map_filter_simps\<close>)
qed (simp add: map_filter_simps)

lemma listed_idle:
  assumes api: "obeysAPI srv" "as_valid srv s"
    and l: "lawful srv s (ListSandboxes N (SelectorLabels ComponentRunner rel)) (RSandboxes items) t"
  shows "set (selectVictims m (List.map_filter (idleEntryOf lib) items)) = victims m (idleEntries srv lib N rel s)"
    and "finite (idleEntries srv lib N rel s)"
proof -
  have d: "distinct (map keyOf items)" and i: "\<And>sb. sb \<in> set items \<longleftrightarrow> as_sandbox srv s (keyOf sb) = Some sb \<and> managedIn N rel sb"
    using l by (auto simp: lawful_def managedIn_def)
  have eq: "set (List.map_filter (idleEntryOf lib) items) = idleEntries srv lib N rel s"
  proof -
    have "x \<in> set items \<longleftrightarrow> (\<exists>key. as_sandbox srv s key = Some x \<and> managedIn N rel x)" for x
      using i stored_key(1) [OF api] by metis
    then show ?thesis unfolding set_map_filter_Some idleEntries_def by blast
  qed
  have "distinct (map sb_name items)"
  proof -
    have "inj_on sb_name (set items)"
    proof (rule inj_onI)
      fix a b assume "a \<in> set items" "b \<in> set items" "sb_name a = sb_name b"
      then have "keyOf a = keyOf b" using i by (simp add: keyOf_def managedIn_def)
      then show "a = b" using i \<open>a \<in> set items\<close> \<open>b \<in> set items\<close> by (metis option.inject)
    qed
    then show ?thesis using d by (simp add: distinct_map)
  qed
  then have "distinct (List.map_filter (idleEntryOf lib) items)"
    using idleEntryOf_fields by (intro distinct_map_filter_Some [where g = ie_name and h = sb_name]) auto
  from selectVictims_victims [OF this] eq
  show "set (selectVictims m (List.map_filter (idleEntryOf lib) items)) = victims m (idleEntries srv lib N rel s)" by simp
  from eq show "finite (idleEntries srv lib N rel s)" by (metis List.finite_set)
qed

section \<open>One pass over an idle session\<close>

lemma transcript_bindP:
  "transcript answer (bindP p f) s = transcript answer p s @ transcript answer (f (fst (exec answer p s))) (snd (exec answer p s))"
  by (induction p arbitrary: s) auto

lemma transcript_request: "transcript answer (request dec c) s = [(c, fst (answer s c))]"
  by (simp add: request_def)

text \<open>The times a program is told.\<close>

definition timesTold :: "('s \<Rightarrow> call \<Rightarrow> resp \<times> 's) \<Rightarrow> 'a prog \<Rightarrow> 's \<Rightarrow> gotime set" where
  "timesTold answer p s = {now. (Now, RTime now) \<in> set (transcript answer p s)}"

lemma timesTold_bindP:
  "timesTold answer (bindP p f) s = timesTold answer p s \<union> timesTold answer (f (fst (exec answer p s))) (snd (exec answer p s))"
  by (auto simp: timesTold_def transcript_bindP)

lemma idleEntryOf_iff:
  "idleEntryOf lib sb = Some e \<longleftrightarrow> idleSince lib sb = Inr (Some (ie_at e)) \<and> ie_name e = sb_name sb \<and> ie_uid e = sb_uid sb"
  by (cases e) (auto simp: idleEntryOf_def split: sum.splits option.splits)

lemma idleSince_SomeE:
  assumes "idleSince lib sb = Inr (Some at)"
  shows "\<not> deleting sb" and "sb_operatingMode sb = Suspended" and "pendingOf sb = []"
  using assms by (auto simp: idleSince_def split: if_splits)

lemma idleEntries_cong: "as_sandbox srv t = as_sandbox srv s \<Longrightarrow> idleEntries srv lib N rel t = idleEntries srv lib N rel s"
  by (simp add: idleEntries_def)

lemma victims_uid:
  assumes "uniqueUIDs srv s" and "as_sandbox srv s key = Some sb" and "idleEntryOf lib sb = Some e"
    and "A \<subseteq> idleEntries srv lib N rel s"
  shows "(\<exists>v \<in> A. ie_uid v = sb_uid sb) \<longleftrightarrow> e \<in> A"
proof
  assume "\<exists>v \<in> A. ie_uid v = sb_uid sb"
  then obtain v sb' key' where v: "v \<in> A" "ie_uid v = sb_uid sb" "as_sandbox srv s key' = Some sb'" "idleEntryOf lib sb' = Some v"
    using assms(4) unfolding idleEntries_def by blast
  then have "sb_uid sb' = sb_uid sb" using idleEntryOf_fields [OF v(4)] by simp
  then have "key' = key" using assms(1,2) v(3) unfolding uniqueUIDs_def by blast
  then show "e \<in> A" using v assms(2,3) by simp
qed (use idleEntryOf_fields [OF assms(3)] in auto)

lemma gc_exec:
  assumes api: "obeysAPI srv" "as_valid srv s" and rc: "op_GCEnabled (rc_Options rc)" "0 < op_GCMaxIdleSessions (rc_Options rc)"
    and live: "as_sandbox srv s (N, n) = Some sb" "managedIn N (rc_Release rc) sb" "idleEntryOf lib sb = Some e" "uniqueUIDs srv s"
    and young: "\<forall>now \<in> timesTold (as_answer srv) (gc lib rc sb) s. timeSub now (ie_at e) < op_GCMaxIdleAge (rc_Options rc)"
  shows "as_sandbox srv (snd (exec (as_answer srv) (gc lib rc sb) s)) =
     (if e \<in> victims (op_GCMaxIdleSessions (rc_Options rc)) (idleEntries srv lib N (rc_Release rc) s)
      then (as_sandbox srv s)((N, n) := None) else as_sandbox srv s)"
proof -
  let ?m = "op_GCMaxIdleSessions (rc_Options rc)" and ?rel = "rc_Release rc"
  have idle: "idleSince lib sb = Inr (Some (ie_at e))" using live(3) by (simp add: idleEntryOf_iff)
  have key: "keyOf sb = (N, n)" by (rule stored_key(1) [OF api live(1)])
  then have kn: "sb_namespace sb = N" "sb_name sb = n" by (simp_all add: keyOf_def)
  obtain r u where u: "as_answer srv s Now = (r, u)" by fastforce
  have r: "r = RTime (as_clock srv s)" "sameObjects srv s u" "as_valid srv u"
    using answers(4) [OF api] read_same [OF api, of Now] answer_lawful(2) [OF api, of Now] u by simp_all
  have "as_clock srv s \<in> timesTold (as_answer srv) (gc lib rc sb) s"
    using rc idle u r(1) by (simp add: gc_def timesTold_def transcript_bindP transcript_request)
  then have age: "\<not> op_GCMaxIdleAge (rc_Options rc) \<le> timeSub (as_clock srv s) (ie_at e)" using young by auto
  let ?c = "ListSandboxes N (SelectorLabels ComponentRunner ?rel)"
  obtain items v where v: "as_answer srv u ?c = (RSandboxes items, v)" "sameObjects srv u v" "as_valid srv v"
    using answer_lawful [OF api(1) r(3), of ?c] by (cases "as_answer srv u ?c") (auto simp: lawful_def)
  have s: "as_sandbox srv u = as_sandbox srv s" "as_sandbox srv v = as_sandbox srv s"
    using r(2) v(2) by (simp_all add: sameObjects_def)
  let ?vs = "selectVictims ?m (List.map_filter (idleEntryOf lib) items)" and ?V = "victims ?m (idleEntries srv lib N ?rel s)"
  have l: "lawful srv u ?c (RSandboxes items) v" using answer_lawful(1) [OF api(1) r(3), of ?c] v(1) by simp
  have V: "set ?vs = ?V" "finite (idleEntries srv lib N ?rel s)"
    using listed_idle [OF api(1) r(3) l] idleEntries_cong [OF s(1)] by simp_all
  have "list_ex (\<lambda>v. ie_uid v = sb_uid sb) ?vs \<longleftrightarrow> e \<in> ?V"
    using victims_uid [OF live(4,1,3) victims_subset [OF V(2)]] V(1) by (simp add: list_ex_iff)
  then have why: "exec (as_answer srv) (gcReasonOf lib rc sb (timeSub (as_clock srv s) (ie_at e))) u
      = (Inr (if e \<in> ?V then Some (AmongOldest (length ?vs) ?m) else None), v)"
    using rc(2) age v(1) kn(1) by (simp add: gcReasonOf_def idleVictims_def exec_simps asSandboxes_def)
  let ?d = "DeleteSandbox (sb_namespace sb) (sb_name sb) (sb_uid sb) (sb_resourceVersion sb)"
  have del: "fst (as_answer srv v ?d) = ROk \<and> as_sandbox srv (snd (as_answer srv v ?d)) = (as_sandbox srv s)((N, n) := None)"
    using answer_lawful(1) [OF api(1) v(3), of ?d] live(1) kn s by (simp add: lawful_def)
  let ?w = "snd (as_answer srv v ?d)"
  have "as_sandbox srv (snd (exec (as_answer srv) (emit sb t rsn args) ?w)) = as_sandbox srv ?w" for t rsn args
    using read_same [OF api(1) answer_lawful(2) [OF api(1) v(3)]] by (simp add: emit_def exec_simps sameObjects_def)
  then show ?thesis
    using rc idle u r(1) why del s by (simp add: gc_def Let_def exec_simps asTime_def asOk_def)
qed

lemma emit_reads: "only (\<lambda>c. \<not> isWrite c) (emit sb t rsn args)"
  unfolding emit_def by (intro only_intros isWrite_simps)

lemma zombieLoop_reads: "only (\<lambda>c. \<not> isWrite c) (zombieLoop rc sb now pods requeue alerted)"
proof (induction pods arbitrary: requeue alerted)
  case (Cons p pods)
  show ?case unfolding zombieLoop.simps Let_def by (intro only_intros emit_reads Cons.IH)
qed (simp add: only_Ret)

lemma zombie_reads: "only (\<lambda>c. \<not> isWrite c) (zombie rc st sb pods)"
  unfolding zombie_def by (intro only_intros isWrite_simps zombieLoop_reads)

lemma alarm_reads: "only (\<lambda>c. \<not> isWrite c) (alarm lib st sb)"
  unfolding alarm_def Let_def by (intro only_intros emit_reads)

lemma exec_reads_sandboxes:
  "obeysAPI srv \<Longrightarrow> as_valid srv s \<Longrightarrow> only (\<lambda>c. \<not> isWrite c) p \<Longrightarrow>
     as_sandbox srv (snd (exec (as_answer srv) p s)) = as_sandbox srv s"
  using exec_reads [of srv s p] by (simp add: sameObjects_def)

lemma lastPredicates_exec:
  assumes api: "obeysAPI srv" "as_valid srv s"
  shows "\<exists>u. as_sandbox srv u = as_sandbox srv s \<and> as_valid srv u \<and>
     as_sandbox srv (snd (exec (as_answer srv) (lastPredicates lib rc st sb pods) s)) = as_sandbox srv (snd (exec (as_answer srv) (gc lib rc sb) u)) \<and>
     timesTold (as_answer srv) (gc lib rc sb) u \<subseteq> timesTold (as_answer srv) (lastPredicates lib rc st sb pods) s"
proof -
  obtain x u where z: "exec (as_answer srv) (zombie rc st sb pods) s = (x, u)" by fastforce
  have u: "as_sandbox srv u = as_sandbox srv s" "as_valid srv u"
    using exec_reads_sandboxes [OF api zombie_reads, of rc st sb pods] exec_valid [OF api, of "zombie rc st sb pods"] z by simp_all
  obtain g v where g: "exec (as_answer srv) (gc lib rc sb) u = (g, v)" by fastforce
  have v: "as_valid srv v" using exec_valid [OF api(1) u(2), of "gc lib rc sb"] g by simp
  have "as_sandbox srv (snd (exec (as_answer srv) (alarm lib st' sb) v)) = as_sandbox srv v" for st'
    by (rule exec_reads_sandboxes [OF api(1) v alarm_reads])
  then have "as_sandbox srv (snd (exec (as_answer srv) (lastPredicates lib rc st sb pods) s)) = as_sandbox srv v"
    using z g by (simp add: lastPredicates_def Let_def exec_simps split: prod.splits sum.splits)
  moreover have "timesTold (as_answer srv) (gc lib rc sb) u \<subseteq> timesTold (as_answer srv) (lastPredicates lib rc st sb pods) s"
    using z by (auto simp: lastPredicates_def Let_def timesTold_bindP split: prod.splits)
  ultimately show ?thesis using u g by auto
qed

lemma pass_exec:
  assumes api: "obeysAPI srv" "as_valid srv s"
    and live: "as_sandbox srv s (N, n) = Some sb" "managedIn N (rc_Release rc) sb" "idleSince lib sb = Inr (Some at)"
  shows "\<exists>u. as_sandbox srv u = as_sandbox srv s \<and> as_valid srv u \<and>
     as_sandbox srv (snd (exec (as_answer srv) (Reconcile lib rc st N n) s)) = as_sandbox srv (snd (exec (as_answer srv) (gc lib rc sb) u)) \<and>
     timesTold (as_answer srv) (gc lib rc sb) u \<subseteq> timesTold (as_answer srv) (Reconcile lib rc st N n) s"
proof -
  note i = idleSince_SomeE [OF live(3)]
  have label: "label sb LabelInstance = rc_Release rc" "label sb LabelName = ComponentRunner"
    using live(2) by (auto simp: managedIn_def SelectorLabels_def map_le_def mget_def split: option.splits)
  let ?g = "GetSandbox N n" and ?l = "ListPods (sb_namespace sb) (SelectorLabels ComponentRunner (rc_Release rc))"
  obtain v where v: "as_answer srv s ?g = (RSandbox sb, v)" "sameObjects srv s v" "as_valid srv v"
    using answers(1) [OF api, of N n] read_same [OF api, of ?g] answer_lawful(2) [OF api, of ?g] live(1)
    by (cases "as_answer srv s ?g") simp
  obtain w where w: "as_answer srv v ?l = (RPods (as_pods srv v), w)" "sameObjects srv v w" "as_valid srv w"
    using answers(6) [OF api(1) v(3), of "sb_namespace sb" "SelectorLabels ComponentRunner (rc_Release rc)"] read_same [OF api(1) v(3), of ?l] answer_lawful(2) [OF api(1) v(3), of ?l]
    by (cases "as_answer srv v ?l") simp
  have s: "as_sandbox srv w = as_sandbox srv s" using v(2) w(2) by (simp add: sameObjects_def)
  let ?pods = "filter (\<lambda>p. case lib_getControllerOf lib (p_owners p) of None \<Rightarrow> False | Some ref \<Rightarrow> or_uid ref = sb_uid sb) (as_pods srv v)"
  have idle: "spawnObservation lib sb pods = Ret (Inr False)" "recSleep lib sb = Ret (Inr False)" "wake lib rc sb = Ret (Inr False)" for pods
    using i by (simp_all add: spawnObservation_def recSleep_def wake_def Let_def)
  have e: "exec (as_answer srv) (Reconcile lib rc st N n) s = exec (as_answer srv) (lastPredicates lib rc st sb ?pods) w"
    using i(1) label v(1) w(1) by (simp add: Reconcile_def exec_simps asSandbox_def ownedPods_def asPods_def predicate_def idle)
  have "timesTold (as_answer srv) (lastPredicates lib rc st sb ?pods) w \<subseteq> timesTold (as_answer srv) (Reconcile lib rc st N n) s"
    using i(1) label v(1) w(1)
    by (simp add: Reconcile_def exec_simps timesTold_bindP asSandbox_def ownedPods_def asPods_def predicate_def idle) blast
  then show ?thesis using lastPredicates_exec [OF api(1) w(3), of lib rc st sb ?pods] unfolding e s by blast
qed

lemma pass_idle:
  assumes api: "obeysAPI srv" "as_valid srv s" and rc: "op_GCEnabled (rc_Options rc)" "0 < op_GCMaxIdleSessions (rc_Options rc)"
    and live: "as_sandbox srv s (N, n) = Some sb" "managedIn N (rc_Release rc) sb" "idleEntryOf lib sb = Some e" "uniqueUIDs srv s"
    and young: "\<forall>now \<in> timesTold (as_answer srv) (Reconcile lib rc st N n) s. timeSub now (ie_at e) < op_GCMaxIdleAge (rc_Options rc)"
  shows "as_sandbox srv (snd (exec (as_answer srv) (Reconcile lib rc st N n) s)) =
     (if e \<in> victims (op_GCMaxIdleSessions (rc_Options rc)) (idleEntries srv lib N (rc_Release rc) s)
      then (as_sandbox srv s)((N, n) := None) else as_sandbox srv s)"
proof -
  have "idleSince lib sb = Inr (Some (ie_at e))" using live(3) by (simp add: idleEntryOf_iff)
  from pass_exec [OF api live(1,2) this, of st] obtain u where u: "as_sandbox srv u = as_sandbox srv s" "as_valid srv u"
      "as_sandbox srv (snd (exec (as_answer srv) (Reconcile lib rc st N n) s)) = as_sandbox srv (snd (exec (as_answer srv) (gc lib rc sb) u))"
      "timesTold (as_answer srv) (gc lib rc sb) u \<subseteq> timesTold (as_answer srv) (Reconcile lib rc st N n) s" by blast
  have "uniqueUIDs srv u" using live(4) unfolding uniqueUIDs_def u(1) .
  moreover have "\<forall>now \<in> timesTold (as_answer srv) (gc lib rc sb) u. timeSub now (ie_at e) < op_GCMaxIdleAge (rc_Options rc)"
    using young u(4) by blast
  moreover have "as_sandbox srv u (N, n) = Some sb" using live(1) u(1) by simp
  ultimately have "as_sandbox srv (snd (exec (as_answer srv) (gc lib rc sb) u)) =
     (if e \<in> victims (op_GCMaxIdleSessions (rc_Options rc)) (idleEntries srv lib N (rc_Release rc) u)
      then (as_sandbox srv u)((N, n) := None) else as_sandbox srv u)"
    by (intro gc_exec [OF api(1) u(2) rc _ live(2,3)])
  then show ?thesis unfolding u(3) u(1) idleEntries_cong [OF u(1)] .
qed

section \<open>A round\<close>

text \<open>Passes for a list of names, one after the other, as the controller's queue hands them out.\<close>

primrec passesFor :: "k8sLib \<Rightarrow> reconciler \<Rightarrow> string \<Rightarrow> recState \<Rightarrow> string list \<Rightarrow> recState prog" where
  "passesFor lib rc N st [] = Ret st"
| "passesFor lib rc N st (n # ns) = bindP (Reconcile lib rc st N n) (\<lambda>x. passesFor lib rc N (fst x) ns)"

lemma idleEntry_stored:
  assumes "obeysAPI srv" and "as_valid srv s" and "e \<in> idleEntries srv lib N rel s"
  shows "\<exists>sb. as_sandbox srv s (N, ie_name e) = Some sb \<and> managedIn N rel sb \<and> idleEntryOf lib sb = Some e"
proof -
  obtain key sb where sb: "as_sandbox srv s key = Some sb" "managedIn N rel sb" "idleEntryOf lib sb = Some e"
    using assms(3) unfolding idleEntries_def by blast
  then have "key = (N, ie_name e)"
    using stored_key(1) [OF assms(1,2) sb(1)] idleEntryOf_fields [OF sb(3)] by (simp add: keyOf_def managedIn_def)
  then show ?thesis using sb by blast
qed

lemma idleEntry_name:
  assumes "obeysAPI srv" and "as_valid srv s" and "e \<in> idleEntries srv lib N rel s" and "e' \<in> idleEntries srv lib N rel s"
    and "ie_name e = ie_name e'"
  shows "e = e'"
  using idleEntry_stored [OF assms(1-3)] idleEntry_stored [OF assms(1,2,4)] assms(5) by auto

lemma idleEntries_without:
  assumes api: "obeysAPI srv" "as_valid srv s" and t: "as_sandbox srv t = (\<lambda>key. if key \<in> (\<lambda>v. (N, ie_name v)) ` V then None else as_sandbox srv s key)"
    and V: "V \<subseteq> idleEntries srv lib N rel s"
  shows "idleEntries srv lib N rel t = idleEntries srv lib N rel s - V"
proof (intro set_eqI iffI)
  fix e assume "e \<in> idleEntries srv lib N rel t"
  then obtain key sb where sb: "as_sandbox srv t key = Some sb" "managedIn N rel sb" "idleEntryOf lib sb = Some e"
    unfolding idleEntries_def by blast
  then have k: "key \<notin> (\<lambda>v. (N, ie_name v)) ` V" "as_sandbox srv s key = Some sb" by (simp_all add: t split: if_splits)
  then have "key = (N, ie_name e)"
    using stored_key(1) [OF api k(2)] idleEntryOf_fields [OF sb(3)] sb(2) by (simp add: keyOf_def managedIn_def)
  then have "e \<notin> V" using k(1) by blast
  moreover have "e \<in> idleEntries srv lib N rel s" using k(2) sb(2,3) unfolding idleEntries_def by blast
  ultimately show "e \<in> idleEntries srv lib N rel s - V" by blast
next
  fix e assume e: "e \<in> idleEntries srv lib N rel s - V"
  then obtain sb where sb: "as_sandbox srv s (N, ie_name e) = Some sb" "managedIn N rel sb" "idleEntryOf lib sb = Some e"
    using idleEntry_stored [OF api] by blast
  have "(N, ie_name e) \<notin> (\<lambda>v. (N, ie_name v)) ` V" using e V idleEntry_name [OF api] by blast
  then have "as_sandbox srv t (N, ie_name e) = Some sb" using sb(1) by (simp add: t)
  then show "e \<in> idleEntries srv lib N rel t" using sb(2,3) unfolding idleEntries_def by blast
qed

lemma finite_idleEntries:
  assumes "obeysAPI srv" and "as_valid srv s"
  shows "finite (idleEntries srv lib N rel s)"
proof -
  let ?c = "ListSandboxes N (SelectorLabels ComponentRunner rel)"
  obtain items where "fst (as_answer srv s ?c) = RSandboxes items"
    using answer_lawful(1) [OF assms, of ?c] by (auto simp: lawful_def)
  then show ?thesis
    using listed_idle(2) [OF assms, of N rel items] answer_lawful(1) [OF assms, of ?c] by simp
qed

lemma pass_absent:
  assumes api: "obeysAPI srv" "as_valid srv s" and "as_sandbox srv s (N, n) = None"
  shows "as_sandbox srv (snd (exec (as_answer srv) (Reconcile lib rc st N n) s)) = as_sandbox srv s"
  using answers(1) [OF api, of N n] assms(3) read_same [OF api, of "GetSandbox N n"]
  by (simp add: Reconcile_def exec_simps asSandbox_def sameObjects_def)

text \<open>One pass of the round: the entry of its name goes when it is a victim.\<close>

lemma round_pass:
  assumes api: "obeysAPI srv" "as_valid srv s" and rc: "op_GCEnabled (rc_Options rc)" "0 < op_GCMaxIdleSessions (rc_Options rc)"
    and uids: "uniqueUIDs srv s"
    and name: "n \<in> ie_name ` idleEntries srv lib N (rc_Release rc) s \<or> as_sandbox srv s (N, n) = None"
    and young: "\<forall>now \<in> timesTold (as_answer srv) (Reconcile lib rc st N n) s. \<forall>e \<in> idleEntries srv lib N (rc_Release rc) s.
      timeSub now (ie_at e) < op_GCMaxIdleAge (rc_Options rc)"
    and V: "V = {v \<in> victims (op_GCMaxIdleSessions (rc_Options rc)) (idleEntries srv lib N (rc_Release rc) s). ie_name v = n}"
    and t: "t = snd (exec (as_answer srv) (Reconcile lib rc st N n) s)"
  shows "as_sandbox srv t = (\<lambda>key. if key \<in> (\<lambda>v. (N, ie_name v)) ` V then None else as_sandbox srv s key)"
    and "victims (op_GCMaxIdleSessions (rc_Options rc)) (idleEntries srv lib N (rc_Release rc) t)
      = victims (op_GCMaxIdleSessions (rc_Options rc)) (idleEntries srv lib N (rc_Release rc) s) - V"
proof -
  let ?m = "op_GCMaxIdleSessions (rc_Options rc)" and ?E = "idleEntries srv lib N (rc_Release rc)"
  note fin = finite_idleEntries [OF api, of lib N "rc_Release rc"]
  have sub: "victims ?m (?E s) \<subseteq> ?E s" by (rule victims_subset [OF fin])
  show stored: "as_sandbox srv t = (\<lambda>key. if key \<in> (\<lambda>v. (N, ie_name v)) ` V then None else as_sandbox srv s key)"
  proof (cases "as_sandbox srv s (N, n) = None")
    case True
    have "V = {}" using sub idleEntry_stored [OF api] True unfolding V by fastforce
    then show ?thesis using pass_absent [OF api True] t by simp
  next
    case False
    then have "n \<in> ie_name ` ?E s" using name by auto
    then obtain e where e: "e \<in> ?E s" "ie_name e = n" by (metis imageE)
    then obtain sb where sb: "as_sandbox srv s (N, n) = Some sb" "managedIn N (rc_Release rc) sb" "idleEntryOf lib sb = Some e"
      using idleEntry_stored [OF api e(1)] by blast
    have eq: "V = (if e \<in> victims ?m (?E s) then {e} else {})"
    proof -
      have "v = e" if "v \<in> victims ?m (?E s)" "ie_name v = n" for v
      proof (rule idleEntry_name [OF api _ e(1)])
        show "v \<in> ?E s" using that(1) sub by (rule subsetD [rotated])
        show "ie_name v = ie_name e" using that(2) e(2) by simp
      qed
      then have "v \<in> V \<longleftrightarrow> v = e \<and> e \<in> victims ?m (?E s)" for v unfolding V using e(2) by blast
      then show ?thesis by (auto intro!: set_eqI)
    qed
    have "\<forall>now \<in> timesTold (as_answer srv) (Reconcile lib rc st N n) s. timeSub now (ie_at e) < op_GCMaxIdleAge (rc_Options rc)"
      using young e(1) by blast
    note pass = pass_idle [OF api rc sb uids this]
    show ?thesis unfolding t pass eq by (simp add: fun_eq_iff e(2))
  qed
  have E: "?E t = ?E s - V" by (rule idleEntries_without [OF api stored]) (use sub V in auto)
  have "V = {} \<or> (\<exists>v. V = {v} \<and> v \<in> victims ?m (?E s))"
    using idleEntry_name [OF api] sub unfolding V by blast
  then show "victims ?m (?E t) = victims ?m (?E s) - V" unfolding E using victims_remove [OF fin] by auto
qed

lemma round_collects:
  assumes api: "obeysAPI srv" and rc: "op_GCEnabled (rc_Options rc)" "0 < op_GCMaxIdleSessions (rc_Options rc)"
    and "as_valid srv s" and "uniqueUIDs srv s"
    and "\<forall>n \<in> set ns. n \<in> ie_name ` idleEntries srv lib N (rc_Release rc) s \<or> as_sandbox srv s (N, n) = None"
    and "\<forall>now \<in> timesTold (as_answer srv) (passesFor lib rc N st ns) s. \<forall>e \<in> idleEntries srv lib N (rc_Release rc) s.
      timeSub now (ie_at e) < op_GCMaxIdleAge (rc_Options rc)"
  shows "as_sandbox srv (snd (exec (as_answer srv) (passesFor lib rc N st ns) s)) = (\<lambda>key.
     if key \<in> (\<lambda>v. (N, ie_name v)) ` {v \<in> victims (op_GCMaxIdleSessions (rc_Options rc)) (idleEntries srv lib N (rc_Release rc) s).
       ie_name v \<in> set ns} then None else as_sandbox srv s key)"
  using assms(4-)
proof (induction ns arbitrary: s st)
  case (Cons n ns)
  let ?V = "\<lambda>s. victims (op_GCMaxIdleSessions (rc_Options rc)) (idleEntries srv lib N (rc_Release rc) s)"
  obtain x t where x: "exec (as_answer srv) (Reconcile lib rc st N n) s = (x, t)" by fastforce
  have valid: "as_valid srv t" using exec_valid [OF api Cons.prems(1), of "Reconcile lib rc st N n"] x by simp
  let ?D = "{v \<in> ?V s. ie_name v = n}"
  have young: "\<forall>now \<in> timesTold (as_answer srv) (Reconcile lib rc st N n) s. \<forall>e \<in> idleEntries srv lib N (rc_Release rc) s.
      timeSub now (ie_at e) < op_GCMaxIdleAge (rc_Options rc)"
    using Cons.prems(4) by (simp add: timesTold_bindP)
  have name: "n \<in> ie_name ` idleEntries srv lib N (rc_Release rc) s \<or> as_sandbox srv s (N, n) = None"
    using Cons.prems(3) by simp
  have t: "t = snd (exec (as_answer srv) (Reconcile lib rc st N n) s)" using x by simp
  note p = round_pass [OF api Cons.prems(1) rc Cons.prems(2) name young refl t]
  have sub: "?D \<subseteq> idleEntries srv lib N (rc_Release rc) s"
    using victims_subset [OF finite_idleEntries [OF api Cons.prems(1)]] by blast
  have E: "idleEntries srv lib N (rc_Release rc) t = idleEntries srv lib N (rc_Release rc) s - ?D"
    by (rule idleEntries_without [OF api Cons.prems(1) p(1) sub])
  have uids: "uniqueUIDs srv t" using Cons.prems(2) unfolding uniqueUIDs_def p(1) by (metis option.distinct(1))
  have names: "\<forall>n \<in> set ns. n \<in> ie_name ` idleEntries srv lib N (rc_Release rc) t \<or> as_sandbox srv t (N, n) = None"
  proof
    fix n' assume "n' \<in> set ns"
    then have "n' \<in> ie_name ` idleEntries srv lib N (rc_Release rc) s \<or> as_sandbox srv s (N, n') = None"
      using Cons.prems(3) by simp
    then show "n' \<in> ie_name ` idleEntries srv lib N (rc_Release rc) t \<or> as_sandbox srv t (N, n') = None"
      unfolding E p(1) by auto
  qed
  have later: "\<forall>now \<in> timesTold (as_answer srv) (passesFor lib rc N (fst x) ns) t. \<forall>e \<in> idleEntries srv lib N (rc_Release rc) t.
      timeSub now (ie_at e) < op_GCMaxIdleAge (rc_Options rc)"
    using Cons.prems(4) x unfolding E by (simp add: timesTold_bindP)
  have "as_sandbox srv (snd (exec (as_answer srv) (passesFor lib rc N st (n # ns)) s)) =
      (\<lambda>key. if key \<in> (\<lambda>v. (N, ie_name v)) ` {v \<in> ?V s - ?D. ie_name v \<in> set ns} then None
        else if key \<in> (\<lambda>v. (N, ie_name v)) ` ?D then None else as_sandbox srv s key)"
    using Cons.IH [OF valid uids names later] x unfolding p(2) p(1) by (simp add: exec_simps)
  also have "\<dots> = (\<lambda>key. if key \<in> (\<lambda>v. (N, ie_name v)) ` ({v \<in> ?V s - ?D. ie_name v \<in> set ns} \<union> ?D) then None else as_sandbox srv s key)"
    by (simp add: fun_eq_iff image_Un)
  also have "{v \<in> ?V s - ?D. ie_name v \<in> set ns} \<union> ?D = {v \<in> ?V s. ie_name v \<in> set (n # ns)}" by auto
  finally show ?case .
qed (simp add: fun_eq_iff)

text \<open>
  C16: A round of passes over the idle sessions, in any order, each at least once, and none of them
  old enough to be collected for its age: as many are left as the cap allows, the ones suspended
  last, and no other Sandbox is touched.
\<close>

theorem gc_round:
  assumes "obeysAPI srv" and "as_valid srv s" and "uniqueUIDs srv s"
    and "op_GCEnabled (rc_Options rc)" and "0 < op_GCMaxIdleSessions (rc_Options rc)"
    and "E = idleEntries srv lib N (rc_Release rc) s" and "set ns = ie_name ` E"
    and "\<forall>now \<in> timesTold (as_answer srv) (passesFor lib rc N st ns) s. \<forall>e \<in> E. timeSub now (ie_at e) < op_GCMaxIdleAge (rc_Options rc)"
    and "t = snd (exec (as_answer srv) (passesFor lib rc N st ns) s)" and "E' = idleEntries srv lib N (rc_Release rc) t"
  shows "E' \<subseteq> E \<and> int (card E') = min (op_GCMaxIdleSessions (rc_Options rc)) (int (card E)) \<and>
     (\<forall>v \<in> E - E'. \<forall>k \<in> E'. ie_key v \<le> ie_key k) \<and>
     as_sandbox srv t = (\<lambda>key. if key \<in> (\<lambda>v. (N, ie_name v)) ` (E - E') then None else as_sandbox srv s key)"
proof -
  let ?V = "victims (op_GCMaxIdleSessions (rc_Options rc)) E"
  have fin: "finite E" unfolding assms(6) by (rule finite_idleEntries [OF assms(1,2)])
  have V: "?V \<subseteq> E" by (rule victims_subset [OF fin])
  have all: "{v \<in> ?V. ie_name v \<in> set ns} = ?V" using V assms(7) by blast
  have t: "as_sandbox srv t = (\<lambda>key. if key \<in> (\<lambda>v. (N, ie_name v)) ` ?V then None else as_sandbox srv s key)"
    using round_collects [OF assms(1,4,5,2,3), of ns lib N st] assms(7,8) all unfolding assms(6,9) by simp
  have E': "E' = E - ?V" unfolding assms(6,10) by (rule idleEntries_without [OF assms(1,2) t [unfolded assms(6)]]) (use V assms(6) in simp)
  then have "E - E' = ?V" using V by blast
  then show ?thesis
    using E' t card_kept [OF fin, of "op_GCMaxIdleSessions (rc_Options rc)"] victims_older [OF fin] assms(5)
    by (auto simp: less_eq_idleEntry_def)
qed

text \<open>Two sessions asleep, a cap of one, the younger one visited first.\<close>

lemma store_clock: "st_clock (snd (storeAnswer files st c)) = st_clock st"
  by (cases c) (simp_all add: Let_def replaceSandbox_def split: option.split)

lemma store_times: "timesTold (storeAnswer files) p st \<subseteq> {st_clock st}"
proof (induction p arbitrary: st)
  case (Call c k)
  have "timesTold (storeAnswer files) (k (fst (storeAnswer files st c))) (snd (storeAnswer files st c)) \<subseteq> {st_clock st}"
    using Call.IH [OF rangeI, of "fst (storeAnswer files st c)" "snd (storeAnswer files st c)"] by (simp add: store_clock)
  then show ?case by (auto simp: timesTold_def)
qed (simp add: timesTold_def)

definition sampleIdle :: "string \<Rightarrow> sandbox" where
  "sampleIdle n = sampleAsleep\<lparr>sb_namespace := ''ns'', sb_name := n, sb_uid := n\<rparr>"

definition sampleStore :: store where
  "sampleStore = \<lparr>st_sandboxes = [sampleIdle ''a'', sampleIdle ''b''], st_secrets = [], st_pods = [], st_clock = 50, st_next = 9\<rparr>"

lemma sampleIdle_entry: "idleEntryOf sampleLib (sampleIdle n) = Some (IdleEntry n n 0)"
proof -
  have "currentGenerationTrue sampleLib (sampleIdle n) t = currentGenerationTrue sampleLib sampleAsleep t" for t
    by (simp add: currentGenerationTrue_def sampleIdle_def split: option.split)
  moreover have "deleting (sampleIdle n) = deleting sampleAsleep" "sb_operatingMode (sampleIdle n) = sb_operatingMode sampleAsleep"
      "sb_annotations (sampleIdle n) = sb_annotations sampleAsleep"
    by (simp_all add: sampleIdle_def deleting_def)
  ultimately have "idleSince sampleLib (sampleIdle n) = idleSince sampleLib sampleAsleep"
    unfolding idleSince_def by (simp only:)
  then show ?thesis by (simp add: idleEntryOf_def sample_idleSince sampleIdle_def)
qed

lemma sampleIdle_managed: "managedIn ''ns'' ''rel'' (sampleIdle n)"
  by (simp add: managedIn_def sampleIdle_def SelectorLabels_def map_le_def sampleAsleep_def asleep_def) (simp add: sample_defs)

lemma sampleStore_find: "findSandbox sampleStore key = (if key = (''ns'', ''a'') then Some (sampleIdle ''a'')
    else if key = (''ns'', ''b'') then Some (sampleIdle ''b'') else None)"
  by (auto simp: findSandbox_def sampleStore_def sampleIdle_def keyOf_def)

lemma sampleStore_idle: "idleEntries (storeServer files) sampleLib ''ns'' ''rel'' sampleStore = {IdleEntry ''a'' ''a'' 0, IdleEntry ''b'' ''b'' 0}"
proof -
  have P: "(\<exists>key sb. findSandbox sampleStore key = Some sb \<and> P sb) \<longleftrightarrow> P (sampleIdle ''a'') \<or> P (sampleIdle ''b'')" for P
  proof
    assume "\<exists>key sb. findSandbox sampleStore key = Some sb \<and> P sb"
    then obtain key sb where "findSandbox sampleStore key = Some sb" "P sb" by blast
    then show "P (sampleIdle ''a'') \<or> P (sampleIdle ''b'')" by (simp add: sampleStore_find split: if_splits)
  next
    have "findSandbox sampleStore (''ns'', ''a'') = Some (sampleIdle ''a'')" "findSandbox sampleStore (''ns'', ''b'') = Some (sampleIdle ''b'')"
      by (simp_all add: sampleStore_find)
    then show "P (sampleIdle ''a'') \<or> P (sampleIdle ''b'') \<Longrightarrow> \<exists>key sb. findSandbox sampleStore key = Some sb \<and> P sb" by blast
  qed
  show ?thesis
    unfolding idleEntries_def storeServer_simps P by (auto simp: sampleIdle_entry sampleIdle_managed)
qed

theorem gc_round_witness:
  "let srv = storeServer sampleFiles; t = snd (exec (as_answer srv) (passesFor sampleLib sampleReconciler ''ns'' freshState [''b'', ''a'']) sampleStore)
   in card (idleEntries srv sampleLib ''ns'' ''rel'' sampleStore) = 2 \<and> card (idleEntries srv sampleLib ''ns'' ''rel'' t) = 1"
proof -
  have v: "as_valid (storeServer sampleFiles) sampleStore"
    by (simp add: validStore_def sampleStore_def sampleIdle_def keyOf_def sampleAsleep_def asleep_def) (simp add: sample_defs)
  have u: "uniqueUIDs (storeServer sampleFiles) sampleStore"
    by (auto simp: uniqueUIDs_def sampleStore_find sampleIdle_def split: if_splits)
  have rc: "op_GCEnabled (rc_Options sampleReconciler)" "op_GCMaxIdleSessions (rc_Options sampleReconciler) = 1"
      "op_GCMaxIdleAge (rc_Options sampleReconciler) = 100" "rc_Release sampleReconciler = ''rel''"
    by (simp_all add: sampleReconciler_def)
  have "timeSub 50 0 = 50" by (rule timeSub_exact [of 50 0, simplified]) (simp add: inInt64_def minInt64_def maxInt64_def)
  moreover have "timesTold (as_answer (storeServer sampleFiles)) p sampleStore \<subseteq> {50}" for p :: "recState prog"
    using store_times [of sampleFiles p sampleStore] unfolding storeServer_simps by (simp add: sampleStore_def)
  ultimately have young: "\<forall>now \<in> timesTold (as_answer (storeServer sampleFiles)) p sampleStore.
      \<forall>e \<in> {IdleEntry ''a'' ''a'' 0, IdleEntry ''b'' ''b'' 0}. timeSub now (ie_at e) < 100" for p :: "recState prog"
    by fastforce
  show ?thesis
    using gc_round [where lib = sampleLib and N = "''ns''" and ns = "[''b'', ''a'']" and st = freshState,
        OF storeServer_obeys v u rc(1) _ refl _ _ refl refl]
    unfolding rc(2-4) Let_def sampleStore_idle using young by auto
qed

end
