(* ===== verification/Progress.thy ===== *)
theory Progress
  imports Collection
begin

text \<open>
  The life of an order in the composed system: an invocation of the hook that exits 0, the
  suspension, the pass that installs the order, the Pod, the pass that takes it off.
\<close>

section \<open>What an invocation leaves behind\<close>

text \<open>What the hook checks of a Secret it found is what the controller checks of it.\<close>

lemma verifySecret_InrE:
  assumes "verifySecret ex (workOrderSecret sb labels req name) = Inr ()"
  obtains "se_immutable ex = Some True" and "mget (se_data ex) WorkOrderSecretKey = rq_WorkOrder req"
    and "mget (se_annotations ex) AnnotationOrderID = rq_OrderID req"
    and "mget (se_annotations ex) AnnotationSessionID = rq_SessionID req"
    and "mget (se_annotations ex) AnnotationOrderAttempt = FormatInt (rq_Attempt req)"
    and "list_ex (\<lambda>ref. or_uid ref = sb_uid sb) (se_owners ex)"
  using assms by (auto simp: verifySecret_def workOrderSecret_def split: if_splits)

lemma verified_valid:
  assumes "verifySecret ex (workOrderSecret sb labels req name) = Inr ()" and "se_name ex = name"
    and "name = WorkOrderSecretName release (rq_SessionID req) (sb_uid sb) (rq_OrderID req)"
    and "label sb LabelSessionID = LabelValue (rq_SessionID req)"
    and "annot sb AnnotationLastOrderAttempt = FormatInt (rq_Attempt req)" and "rq_WorkOrder req \<noteq> []"
  shows "validateWorkOrderSecret ex sb (rq_OrderID req) release = Inr ()"
  using assms(1) by (rule verifySecret_InrE) (use assms(2-) in \<open>simp add: validateWorkOrderSecret_def Let_def\<close>)

text \<open>The order waits: it is the accepted one, at the request's attempt, pending and not installed.\<close>

definition waiting :: "spawnRequest \<Rightarrow> sandbox \<Rightarrow> bool" where
  "waiting req sb \<longleftrightarrow> sb_operatingMode sb = Suspended \<and> pendingOf sb = rq_OrderID req \<and> lastOrderOf sb = rq_OrderID req \<and>
     annot sb AnnotationLastOrderAttempt = FormatInt (rq_Attempt req) \<and> label sb LabelName = ComponentRunner \<and> hasWorkOrderVolume sb"

lemma settled_waiting:
  assumes "settledFor srv hk req tmpl sb t" and "waiting req sb" and "as_sandbox srv t (ns, n) = Some sb"
    and "sb_namespace sb = ns"
  shows "\<exists>se. as_secret srv t (ns, orderSecretName hk sb req) = Some se \<and>
     verifySecret se (workOrderSecret sb (sb_labels tmpl) req (orderSecretName hk sb req)) = Inr () \<and>
     annot sb AnnotationPendingSecret = orderSecretName hk sb req \<and> \<not> deleting sb \<and>
     label sb LabelInstance = cf_Release (hk_Config hk) \<and> label sb LabelSessionID = LabelValue (rq_SessionID req)"
proof -
  let ?n = "orderSecretName hk sb req"
  have last: "rq_OrderID req = lastOrderOf sb" and pend: "pendingOf sb = rq_OrderID req" using assms(2) by (simp_all add: waiting_def)
  have "evaluate sb req (cf_Release (hk_Config hk)) \<noteq> Inr DecisionSuperseded"
    using last by (auto simp: evaluate_def Let_def split: option.splits)
  then have s: "evaluate sb req (cf_Release (hk_Config hk)) = Inr DecisionRedelivery"
      "secretInPlace srv t (hookSecret hk tmpl req sb)" "repairPointers req ?n sb = Inr (sb, False)"
    using assms(1) by (auto simp: settledFor_def)
  have "annot sb AnnotationPendingSecret = ?n"
    using s(3) pend by (auto simp: repairPointers_def Let_def split: if_splits)
  moreover have "\<not> deleting sb" "label sb LabelInstance = cf_Release (hk_Config hk)" "label sb LabelSessionID = LabelValue (rq_SessionID req)"
    using s(1) by (auto elim: evaluate_InrE)
  ultimately show ?thesis using s(2) assms(4) by (auto simp: secretInPlace_def hookSecret_def workOrderSecret_def)
qed

section \<open>The passes that act\<close>

text \<open>A Sandbox at a later version, with other status.\<close>

definition laterOf :: "sandbox \<Rightarrow> sandbox \<Rightarrow> bool" where
  "laterOf sb sb' \<longleftrightarrow> (\<exists>rv g cs. sb' = sb\<lparr>sb_resourceVersion := rv, sb_generation := g, sb_conditions := cs\<rparr>)"

lemma laterOf_fields:
  assumes "laterOf sb sb'"
  shows "sb_name sb' = sb_name sb" "sb_namespace sb' = sb_namespace sb" "sb_uid sb' = sb_uid sb" "sb_labels sb' = sb_labels sb"
    "sb_annotations sb' = sb_annotations sb" "sb_operatingMode sb' = sb_operatingMode sb" "sb_podTemplate sb' = sb_podTemplate sb"
    "sb_deletionTimestamp sb' = sb_deletionTimestamp sb"
  using assms by (auto simp: laterOf_def)

text \<open>The library encodes every Sandbox, so a patch of an object with UID and version can be built.\<close>

definition buildsPatches :: "k8sLib \<Rightarrow> bool" where
  "buildsPatches lib \<longleftrightarrow> (\<forall>orig mut. sb_uid orig \<noteq> [] \<and> sb_resourceVersion orig \<noteq> [] \<longrightarrow> (\<exists>doc. Optimistic lib orig mut = Inr doc))"

lemma recPatch_exec:
  assumes api: "obeysAPI srv" "as_valid srv s" and live: "as_sandbox srv s key = Some orig"
    and same: "samePart orig mut" and lib: "buildsPatches lib"
  shows "\<exists>t rv g. exec (as_answer srv) (recPatch lib orig mut) s = (Inr (), t) \<and> as_valid srv t \<and>
     putSandbox srv s key (Some (mut\<lparr>sb_resourceVersion := rv, sb_generation := g\<rparr>)) t"
proof -
  note k = stored_key [OF api live]
  obtain doc where doc: "Optimistic lib orig mut = Inr doc" using lib k(2,3) by (auto simp: buildsPatches_def)
  have m: "keyOf mut = keyOf orig" "sb_uid mut = sb_uid orig" using same by (simp_all add: samePart_def keyOf_def)
  obtain rv g where "fst (as_answer srv s (PatchSandbox orig mut doc)) = RSandbox (mut\<lparr>sb_resourceVersion := rv, sb_generation := g\<rparr>)"
      "putSandbox srv s key (Some (mut\<lparr>sb_resourceVersion := rv, sb_generation := g\<rparr>)) (snd (as_answer srv s (PatchSandbox orig mut doc)))"
    using answer_lawful(1) [OF api, of "PatchSandbox orig mut doc"] live k(1) m Optimistic_pins(1,2) [OF doc]
    by (auto simp: lawful_def Let_def)
  then show ?thesis
    using answer_lawful(2) [OF api, of "PatchSandbox orig mut doc"] doc by (auto simp: recPatch_def exec_simps asOk_def)
qed

text \<open>The pass up to its predicates.\<close>

lemma pass_start:
  assumes api: "obeysAPI srv" "as_valid srv s" and live: "as_sandbox srv s (ns, n) = Some sb" and act: "actsOn rc sb"
  shows "\<exists>t. sameObjects srv s t \<and> as_valid srv t \<and>
     exec (as_answer srv) (Reconcile lib rc st ns n) s = exec (as_answer srv)
       (predicate (spawnObservation lib sb (filter (owns lib sb) (as_pods srv s))) st (predicate (recSleep lib sb) st
         (predicate (wake lib rc sb) st (lastPredicates lib rc st sb (filter (owns lib sb) (as_pods srv s)))))) t"
proof -
  let ?g = "GetSandbox ns n" and ?l = "ListPods (sb_namespace sb) (SelectorLabels ComponentRunner (rc_Release rc))"
  obtain v where v: "as_answer srv s ?g = (RSandbox sb, v)" "sameObjects srv s v" "as_valid srv v"
    using answers(1) [OF api, of ns n] read_same [OF api, of ?g] answer_lawful(2) [OF api, of ?g] live
    by (cases "as_answer srv s ?g") simp
  obtain w where w: "as_answer srv v ?l = (RPods (as_pods srv v), w)" "sameObjects srv v w" "as_valid srv w"
    using answers(6) [OF api(1) v(3), of "sb_namespace sb" "SelectorLabels ComponentRunner (rc_Release rc)"] read_same [OF api(1) v(3), of ?l]
      answer_lawful(2) [OF api(1) v(3), of ?l]
    by (cases "as_answer srv v ?l") simp
  have "owns lib sb = (\<lambda>p. case lib_getControllerOf lib (p_owners p) of None \<Rightarrow> False | Some ref \<Rightarrow> or_uid ref = sb_uid sb)"
    by (intro ext) (simp add: owns_def split: option.splits)
  moreover have "as_pods srv v = as_pods srv s" using v(2) by (simp add: sameObjects_def)
  ultimately show ?thesis
    using act v(1) w sameObjects_trans [OF v(2) w(2)]
    by (intro exI [of _ w]) (simp add: Reconcile_def exec_simps asSandbox_def ownedPods_def asPods_def actsOn_def)
qed

lemma emit_exec:
  assumes "obeysAPI srv" and "as_valid srv s"
  shows "\<exists>t. exec (as_answer srv) (emit sb ty rsn args) s = ((), t) \<and> sameObjects srv s t \<and> as_valid srv t"
  using read_same [OF assms, of "Emit \<lparr>ev_sandbox = sb_name sb, ev_type = ty, ev_reason = rsn, ev_args = args\<rparr>"] answer_lawful(2) [OF assms]
  by (simp add: emit_def exec_simps)

lemma patch_emit_exec:
  assumes "obeysAPI srv" "as_valid srv s" "as_sandbox srv s key = Some orig" "samePart orig mut" "buildsPatches lib"
  shows "\<exists>t rv g. exec (as_answer srv) (thenP (recPatch lib orig mut) (\<lambda>_. bindP (emit sb ty rsn args) (\<lambda>_. Ret (Inr True)))) s = (Inr True, t) \<and>
     as_valid srv t \<and> putSandbox srv s key (Some (mut\<lparr>sb_resourceVersion := rv, sb_generation := g\<rparr>)) t"
proof -
  obtain u rv g where u: "exec (as_answer srv) (recPatch lib orig mut) s = (Inr (), u)" "as_valid srv u"
      "putSandbox srv s key (Some (mut\<lparr>sb_resourceVersion := rv, sb_generation := g\<rparr>)) u"
    using recPatch_exec [OF assms] by blast
  obtain t where t: "exec (as_answer srv) (emit sb ty rsn args) u = ((), t)" "sameObjects srv u t" "as_valid srv t"
    using emit_exec [OF assms(1) u(2)] by blast
  have "putSandbox srv s key (Some (mut\<lparr>sb_resourceVersion := rv, sb_generation := g\<rparr>)) t"
    using u(3) t(2) by (simp add: putSandbox_def sameObjects_def)
  then show ?thesis using u(1) t(1,3) by (auto simp: exec_simps)
qed

lemma wake_exec:
  assumes api: "obeysAPI srv" "as_valid srv s" and live: "as_sandbox srv s (ns, n) = Some sb"
    and ready: "readyToWake lib rc sb se" and secret: "as_secret srv s (ns, annot sb AnnotationPendingSecret) = Some se"
    and pods: "as_pods srv s = []" and lib: "buildsPatches lib"
  shows "\<exists>t rv g. exec (as_answer srv) (Reconcile lib rc st ns n) s = ((st, Inr 0), t) \<and> as_valid srv t \<and>
     putSandbox srv s (ns, n) (Some ((awake sb (pendingOf sb) (annot sb AnnotationPendingSecret))\<lparr>sb_resourceVersion := rv, sb_generation := g\<rparr>)) t"
proof -
  have act: "actsOn rc sb" using ready by (simp add: readyToWake_def)
  obtain u where u: "sameObjects srv s u" "as_valid srv u" and e: "exec (as_answer srv) (Reconcile lib rc st ns n) s = exec (as_answer srv)
       (predicate (spawnObservation lib sb (filter (owns lib sb) (as_pods srv s))) st (predicate (recSleep lib sb) st
         (predicate (wake lib rc sb) st (lastPredicates lib rc st sb (filter (owns lib sb) (as_pods srv s)))))) u"
    using pass_start [OF api live act] by blast
  have key: "sb_namespace sb = ns" using stored_key(1) [OF api live] by (simp add: keyOf_def)
  let ?g = "GetSecret (sb_namespace sb) (annot sb AnnotationPendingSecret)"
  obtain v where v: "as_answer srv u ?g = (RSecret se, v)" "sameObjects srv u v" "as_valid srv v"
    using answers(2) [OF api(1) u(2), of "sb_namespace sb" "annot sb AnnotationPendingSecret"] read_same [OF api(1) u(2), of ?g]
      answer_lawful(2) [OF api(1) u(2), of ?g] secret key u(1)
    by (cases "as_answer srv u ?g") (simp add: sameObjects_def)
  note same = sameObjects_trans [OF u(1) v(2)]
  have "as_sandbox srv v (ns, n) = Some sb" using live same by (simp add: sameObjects_def)
  from patch_emit_exec [OF api(1) v(3) this samePart_rec(3) lib]
  obtain t rv g where t: "exec (as_answer srv) (thenP (recPatch lib sb (awake sb (pendingOf sb) (annot sb AnnotationPendingSecret)))
        (\<lambda>_. bindP (emit sb EventTypeNormal EventWake [StrArg (pendingOf sb)]) (\<lambda>_. Ret (Inr True)))) v = (Inr True, t)" "as_valid srv t"
      "putSandbox srv v (ns, n) (Some ((awake sb (pendingOf sb) (annot sb AnnotationPendingSecret))\<lparr>sb_resourceVersion := rv, sb_generation := g\<rparr>)) t"
    by blast
  have "exec (as_answer srv) (wake lib rc sb) u = (Inr True, t)"
    using ready v(1) t(1) by (simp add: wake_def readyToWake_def Let_def exec_bindP exec_request asSecret_def)
  moreover have "spawnObservation lib sb [] = Ret (Inr False)" "recSleep lib sb = Ret (Inr False)"
    using ready by (simp_all add: spawnObservation_def matchingPod_def recSleep_def readyToWake_def Let_def)
  ultimately have "exec (as_answer srv) (Reconcile lib rc st ns n) s = ((st, Inr 0), t)"
    unfolding e pods by (simp add: predicate_def exec_bindP)
  then show ?thesis using t(2) putSandbox_same [OF same t(3)] by blast
qed

lemma observe_exec:
  assumes api: "obeysAPI srv" "as_valid srv s" and live: "as_sandbox srv s (ns, n) = Some sb"
    and p: "spawned lib rc sb p" "p \<in> set (as_pods srv s)" and lib: "buildsPatches lib"
  shows "\<exists>t rv g. exec (as_answer srv) (Reconcile lib rc st ns n) s = ((st, Inr 0), t) \<and> as_valid srv t \<and>
     putSandbox srv s (ns, n) (Some ((observed sb)\<lparr>sb_resourceVersion := rv, sb_generation := g\<rparr>)) t"
proof -
  let ?pods = "filter (owns lib sb) (as_pods srv s)"
  have act: "actsOn rc sb" using p by (simp add: spawned_def)
  obtain u where u: "sameObjects srv s u" "as_valid srv u" and e: "exec (as_answer srv) (Reconcile lib rc st ns n) s = exec (as_answer srv)
       (predicate (spawnObservation lib sb ?pods) st (predicate (recSleep lib sb) st
         (predicate (wake lib rc sb) st (lastPredicates lib rc st sb ?pods)))) u"
    using pass_start [OF api live act] by blast
  have "matchingPod sb ?pods \<noteq> None"
    using p by (auto simp: matchingPod_def Let_def spawned_def find_None_iff)
  then obtain q where q: "matchingPod sb ?pods = Some q" by blast
  have "as_sandbox srv u (ns, n) = Some sb" using live u(1) by (simp add: sameObjects_def)
  from patch_emit_exec [OF api(1) u(2) this samePart_rec(1) lib]
  obtain t rv g where t: "exec (as_answer srv) (thenP (recPatch lib sb (observed sb))
        (\<lambda>_. bindP (emit sb EventTypeNormal EventSpawnObserved [StrArg (p_name q), StrArg (pendingOf sb)]) (\<lambda>_. Ret (Inr True)))) u = (Inr True, t)" "as_valid srv t"
      "putSandbox srv u (ns, n) (Some ((observed sb)\<lparr>sb_resourceVersion := rv, sb_generation := g\<rparr>)) t"
    by blast
  have "exec (as_answer srv) (spawnObservation lib sb ?pods) u = (Inr True, t)"
    using p(1) q t(1) by (simp add: spawnObservation_def Let_def spawned_def)
  then have "exec (as_answer srv) (Reconcile lib rc st ns n) s = ((st, Inr 0), t)"
    unfolding e by (simp add: predicate_def exec_bindP)
  then show ?thesis using t(2) putSandbox_same [OF u(1) t(3)] by blast
qed

lemma sleep_exec:
  assumes api: "obeysAPI srv" "as_valid srv s" and live: "as_sandbox srv s (ns, n) = Some sb"
    and fin: "finishedRun lib rc sb" and lib: "buildsPatches lib"
  shows "\<exists>t rv g. exec (as_answer srv) (Reconcile lib rc st ns n) s = ((st, Inr 0), t) \<and> as_valid srv t \<and>
     (\<exists>now. putSandbox srv s (ns, n) (Some ((asleep sb now)\<lparr>sb_resourceVersion := rv, sb_generation := g\<rparr>)) t)"
proof -
  let ?pods = "filter (owns lib sb) (as_pods srv s)"
  have act: "actsOn rc sb" using fin by (simp add: finishedRun_def)
  obtain u where u: "sameObjects srv s u" "as_valid srv u" and e: "exec (as_answer srv) (Reconcile lib rc st ns n) s = exec (as_answer srv)
       (predicate (spawnObservation lib sb ?pods) st (predicate (recSleep lib sb) st
         (predicate (wake lib rc sb) st (lastPredicates lib rc st sb ?pods)))) u"
    using pass_start [OF api live act] by blast
  obtain v where v: "as_answer srv u Now = (RTime (as_clock srv u), v)" "sameObjects srv u v" "as_valid srv v"
    using answers(4) [OF api(1) u(2)] read_same [OF api(1) u(2), of Now] answer_lawful(2) [OF api(1) u(2), of Now]
    by (cases "as_answer srv u Now") simp
  note same = sameObjects_trans [OF u(1) v(2)]
  let ?now = "as_clock srv u"
  let ?why = "case lib_findStatusCondition lib (sb_conditions sb) SandboxConditionFinished of None \<Rightarrow> [] | Some c \<Rightarrow> [StrArg (cd_reason c)]"
  have "as_sandbox srv v (ns, n) = Some sb" using live same by (simp add: sameObjects_def)
  from patch_emit_exec [OF api(1) v(3) this samePart_rec(2) lib]
  obtain t rv g where t: "exec (as_answer srv) (thenP (recPatch lib sb (asleep sb ?now)) (\<lambda>_. bindP (emit sb EventTypeNormal EventSleep ?why)
        (\<lambda>_. Ret (Inr True)))) v = (Inr True, t)" "as_valid srv t"
      "putSandbox srv v (ns, n) (Some ((asleep sb ?now)\<lparr>sb_resourceVersion := rv, sb_generation := g\<rparr>)) t"
    by blast
  have "exec (as_answer srv) (recSleep lib sb) u = (Inr True, t)"
    using fin v(1) t(1) by (simp add: recSleep_def finishedRun_def exec_bindP exec_request asTime_def)
  moreover have "spawnObservation lib sb ?pods = Ret (Inr False)"
    using fin by (simp add: spawnObservation_def finishedRun_def Let_def)
  ultimately have "exec (as_answer srv) (Reconcile lib rc st ns n) s = ((st, Inr 0), t)"
    unfolding e by (simp add: predicate_def exec_bindP)
  then show ?thesis using t(2) putSandbox_same [OF same t(3)] by blast
qed

section \<open>The life of an order\<close>

definition runsOrder :: "'s apiServer \<Rightarrow> spawnRequest \<Rightarrow> objectKey \<Rightarrow> 's \<Rightarrow> sandbox \<Rightarrow> bool" where
  "runsOrder srv req key s sb \<longleftrightarrow> as_sandbox srv s key = Some sb \<and> sb_operatingMode sb = Running \<and>
     annot sb AnnotationAppliedSpawn = rq_OrderID req \<and> mget (pt_annotations (sb_podTemplate sb)) AnnotationOrderID = rq_OrderID req \<and>
     (\<exists>name se. podTemplateSecret (sb_podTemplate sb) = Some name \<and> as_secret srv s (fst key, name) = Some se \<and>
        mget (se_data se) WorkOrderSecretKey = rq_WorkOrder req)"

definition takenOff :: "'s apiServer \<Rightarrow> spawnRequest \<Rightarrow> objectKey \<Rightarrow> 's \<Rightarrow> sandbox \<Rightarrow> bool" where
  "takenOff srv req key s sb \<longleftrightarrow> as_sandbox srv s key = Some sb \<and> sb_operatingMode sb = Running \<and>
     pendingOf sb = [] \<and> annot sb AnnotationAppliedSpawn = rq_OrderID req"

definition sleeping :: "'s apiServer \<Rightarrow> spawnRequest \<Rightarrow> objectKey \<Rightarrow> 's \<Rightarrow> sandbox \<Rightarrow> bool" where
  "sleeping srv req key s sb \<longleftrightarrow> as_sandbox srv s key = Some sb \<and> sb_operatingMode sb = Suspended \<and>
     pendingOf sb = [] \<and> lastOrderOf sb = rq_OrderID req"

lemma waiting_ready:
  assumes w: "waiting req sb" and l: "laterOf sb sb1" and c: "currentGenerationTrue lib sb1 SandboxConditionSuspended"
    and se: "verifySecret se (workOrderSecret sb labels req name) = Inr ()" "se_name se = name"
    and name: "name = orderSecretName hk sb req" "annot sb AnnotationPendingSecret = name" and rc: "rc_Release rc = cf_Release (hk_Config hk)"
    and sb: "\<not> deleting sb" "label sb LabelInstance = cf_Release (hk_Config hk)" "label sb LabelSessionID = LabelValue (rq_SessionID req)"
    and req: "validRequest req"
  shows "readyToWake lib rc sb1 se"
proof -
  note f = laterOf_fields [OF l]
  have "validateWorkOrderSecret se sb1 (rq_OrderID req) (rc_Release rc) = Inr ()"
  proof (rule verified_valid)
    show "verifySecret se (workOrderSecret sb1 labels req name) = Inr ()" using se(1) f(1-3) by (simp add: workOrderSecret_def)
    show "name = WorkOrderSecretName (rc_Release rc) (rq_SessionID req) (sb_uid sb1) (rq_OrderID req)"
      using name(1) rc f(3) by (simp add: orderSecretName_def)
  qed (use w se(2) sb f req in \<open>simp_all add: waiting_def validRequest_def\<close>)
  moreover have "rq_OrderID req \<noteq> []" using req by (auto simp: validRequest_def orderIDPattern_def)
  moreover have "name \<noteq> []" using name(1) by (simp add: orderSecretName_def)
  ultimately show ?thesis
    using w c name(2) sb f rc by (simp add: readyToWake_def waiting_def actsOn_def deleting_def hasWorkOrderVolume_def)
qed

lemma awake_fields:
  assumes "sb2 = (awake sb1 order name)\<lparr>sb_resourceVersion := rv, sb_generation := g\<rparr>" and "hasWorkOrderVolume sb1"
  shows "sb_operatingMode sb2 = Running" "annot sb2 AnnotationAppliedSpawn = order" "pendingOf sb2 = pendingOf sb1"
    "lastOrderOf sb2 = lastOrderOf sb1" "mget (pt_annotations (sb_podTemplate sb2)) AnnotationOrderID = order"
    "podTemplateSecret (sb_podTemplate sb2) = Some name"
proof -
  show "podTemplateSecret (sb_podTemplate sb2) = Some name"
    using workOrderVolume_installOrder [of "sb_podTemplate sb1" order name] assms by (simp add: awake_def hasWorkOrderVolume_def)
  show "mget (pt_annotations (sb_podTemplate sb2)) AnnotationOrderID = order" by (simp add: assms(1) awake_def installOrder_def)
qed (simp_all add: assms(1) awake_def)

text \<open>The Pod made from the woken Sandbox, whatever its status is by then.\<close>

lemma woken_spawned:
  assumes ready: "readyToWake lib rc sb1 se"
    and sb2: "sb2 = (awake sb1 (pendingOf sb1) (annot sb1 AnnotationPendingSecret))\<lparr>sb_resourceVersion := rv, sb_generation := g\<rparr>"
    and "laterOf sb2 sb3" and "madeFrom lib sb3 p"
  shows "spawned lib rc sb3 p"
proof -
  let ?w = "awake sb1 (pendingOf sb1) (annot sb1 AnnotationPendingSecret)"
  have f: "sb_uid sb3 = sb_uid ?w" "sb_podTemplate sb3 = sb_podTemplate ?w" "sb_annotations sb3 = sb_annotations ?w"
      "sb_labels sb3 = sb_labels ?w" "sb_deletionTimestamp sb3 = sb_deletionTimestamp ?w"
    using laterOf_fields [OF assms(3)] by (simp_all add: sb2)
  have "madeFrom lib ?w p" using assms(4) f by (simp add: madeFrom_def owns_def)
  from awake_spawned [OF ready refl this] f show ?thesis
    by (simp add: spawned_def owns_def actsOn_def deleting_def)
qed

lemma later_sleeps:
  assumes api: "obeysAPI srv" "as_valid srv y" and lib: "buildsPatches lib"
    and taken: "takenOff srv req key x sb4" "actsOn rc sb4" "lastOrderOf sb4 = rq_OrderID req"
    and y: "as_sandbox srv y key = Some sb5" "laterOf sb4 sb5" "currentGenerationTrue lib sb5 SandboxConditionFinished"
  shows "\<exists>z sb6. exec (as_answer srv) (Reconcile lib rc st (fst key) (snd key)) y = ((st, Inr 0), z) \<and> sleeping srv req key z sb6"
proof -
  note f = laterOf_fields [OF y(2)]
  have fin: "finishedRun lib rc sb5"
    using taken y(3) f by (simp add: finishedRun_def takenOff_def actsOn_def deleting_def)
  have live: "as_sandbox srv y (fst key, snd key) = Some sb5" using y(1) by simp
  obtain z rv g now where z: "exec (as_answer srv) (Reconcile lib rc st (fst key) (snd key)) y = ((st, Inr 0), z)"
      "putSandbox srv y (fst key, snd key) (Some ((asleep sb5 now)\<lparr>sb_resourceVersion := rv, sb_generation := g\<rparr>)) z"
    using sleep_exec [OF api live fin lib] by blast
  have "sleeping srv req key z ((asleep sb5 now)\<lparr>sb_resourceVersion := rv, sb_generation := g\<rparr>)"
    using z(2) taken(1,3) f by (simp add: sleeping_def putSandbox_def takenOff_def asleep_def)
  then show ?thesis using z(1) by blast
qed

lemma later_taken:
  assumes api: "obeysAPI srv" "as_valid srv w" and lib: "buildsPatches lib"
    and p: "spawned lib rc sb3 p" "p \<in> set (as_pods srv w)" and w: "as_sandbox srv w key = Some sb3"
    and sb3: "sb_operatingMode sb3 = Running" "annot sb3 AnnotationAppliedSpawn = rq_OrderID req" "lastOrderOf sb3 = rq_OrderID req"
  shows "\<exists>x sb4. exec (as_answer srv) (Reconcile lib rc st (fst key) (snd key)) w = ((st, Inr 0), x) \<and> takenOff srv req key x sb4 \<and>
     actsOn rc sb4 \<and> lastOrderOf sb4 = rq_OrderID req"
proof -
  have live: "as_sandbox srv w (fst key, snd key) = Some sb3" using w by simp
  obtain x rv g where x: "exec (as_answer srv) (Reconcile lib rc st (fst key) (snd key)) w = ((st, Inr 0), x)"
      "putSandbox srv w (fst key, snd key) (Some ((observed sb3)\<lparr>sb_resourceVersion := rv, sb_generation := g\<rparr>)) x"
    using observe_exec [OF api live p lib] by blast
  let ?sb4 = "(observed sb3)\<lparr>sb_resourceVersion := rv, sb_generation := g\<rparr>"
  have "takenOff srv req key x ?sb4 \<and> actsOn rc ?sb4 \<and> lastOrderOf ?sb4 = rq_OrderID req"
    using x(2) sb3 p(1) by (simp add: takenOff_def putSandbox_def observed_def spawned_def actsOn_def deleting_def)
  then show ?thesis using x(1) by blast
qed


text \<open>The small server, the order accepted on a running session, its suspension confirmed.\<close>

lemma sampleLib_builds: "buildsPatches sampleLib"
  using sampleLib_Optimistic by (auto simp: buildsPatches_def)


end
