(* ===== verification/Admission.thy ===== *)
theory Admission
  imports Progress
begin

text \<open>
  When the hook takes an order: an invocation with room under the cap succeeds and leaves the
  order waiting, one without room exits 1 and leaves everything as it is.
\<close>

section \<open>Steps that succeed\<close>

lemma ensureSecret_ok:
  assumes api: "obeysAPI srv" "as_valid srv s"
    and fits: "\<And>se. as_secret srv s (sb_namespace sb, name) = Some se \<Longrightarrow> verifySecret se (workOrderSecret sb (sb_labels tmpl) req name) = Inr ()"
  shows "\<exists>t. exec (as_answer srv) (ensureSecret sb tmpl req name) s = (Inr (), t) \<and> as_valid srv t \<and> as_sandbox srv t = as_sandbox srv s"
proof -
  let ?se = "workOrderSecret sb (sb_labels tmpl) req name"
  let ?p = "ensureSecret sb tmpl req name"
  have "fst (exec (as_answer srv) ?p s) = Inr ()"
  proof (cases "as_secret srv s (sb_namespace sb, name)")
    case None
    then have "fst (as_answer srv s (CreateSecret ?se)) = ROk"
      using answer_lawful(1) [OF api, of "CreateSecret ?se"] by (simp add: lawful_def workOrderSecret_def)
    then show ?thesis by (simp add: ensureSecret_def Let_def exec_simps asOk_def)
  next
    case (Some se)
    then have "secretInPlace srv s ?se" using fits by (simp add: secretInPlace_def workOrderSecret_def)
    then show ?thesis using ensureSecret_again [OF api] by force
  qed
  then show ?thesis
    using exec_valid [OF api, of ?p] exec_keeps [OF api ensureSecret_keeps, of sb tmpl req name]
    by (cases "exec (as_answer srv) ?p s") simp
qed

lemma hookPatch_ok:
  assumes api: "obeysAPI srv" "as_valid srv s" and live: "as_sandbox srv s key = Some orig" and same: "samePart orig mut" and lib: "buildsPatches lib"
  shows "\<exists>t rv g. exec (as_answer srv) (hookPatch lib orig mut) s = (Inr (), t) \<and>
     as_sandbox srv t key = Some (mut\<lparr>sb_resourceVersion := rv, sb_generation := g\<rparr>)"
proof -
  obtain t rv g where t: "exec (as_answer srv) (recPatch lib orig mut) s = (Inr (), t)"
      "putSandbox srv s key (Some (mut\<lparr>sb_resourceVersion := rv, sb_generation := g\<rparr>)) t"
    using recPatch_exec [OF assms] by blast
  have "exec (as_answer srv) (hookPatch lib orig mut) s = (Inr (), t)"
    using t(1) by (auto simp: recPatch_def hookPatch_def exec_simps asOk_def split: sum.splits)
  then show ?thesis using t(2) by (auto simp: putSandbox_def)
qed

section \<open>Accepting\<close>

text \<open>A Secret under the order's name, if there is one, is the one the hook would write.\<close>

definition secretFits :: "'s apiServer \<Rightarrow> hook \<Rightarrow> spawnRequest \<Rightarrow> sandbox \<Rightarrow> sandbox \<Rightarrow> 's \<Rightarrow> bool" where
  "secretFits srv hk req tmpl sb s \<longleftrightarrow> (\<forall>se. as_secret srv s (sb_namespace sb, orderSecretName hk sb req) = Some se \<longrightarrow>
     verifySecret se (hookSecret hk tmpl req sb) = Inr ())"

lemma publishNewer_ok:
  assumes api: "obeysAPI srv" "as_valid srv s" and live: "as_sandbox srv s key = Some sb" and lib: "buildsPatches lib"
    and fits: "secretFits srv hk req tmpl sb s" and names: "namesSecret (sb_podTemplate tmpl)" and comp: "label sb LabelName = ComponentRunner"
  shows "\<exists>t sb'. exec (as_answer srv) (publishNewer lib hk sb tmpl req) s = (Inr True, t) \<and> as_sandbox srv t key = Some sb' \<and> waiting req sb'"
proof -
  let ?n = "orderSecretName hk sb req"
  obtain u where u: "exec (as_answer srv) (ensureSecret sb tmpl req ?n) s = (Inr (), u)" "as_valid srv u" "as_sandbox srv u = as_sandbox srv s"
    using ensureSecret_ok [OF api, of sb ?n tmpl req] fits unfolding secretFits_def hookSecret_def by blast
  obtain v where v: "as_answer srv u Now = (RTime (as_clock srv u), v)" "sameObjects srv u v" "as_valid srv v"
    using answers(4) [OF api(1) u(2)] read_same [OF api(1) u(2), of Now] answer_lawful(2) [OF api(1) u(2), of Now]
    by (cases "as_answer srv u Now") simp
  obtain pt where pt: "refreshedTemplate sb (sb_podTemplate tmpl) = Some pt" using refreshedTemplate_Some [OF names] by blast
  let ?mut = "acceptNewer sb req ?n (as_clock srv u) pt"
  have "as_sandbox srv v key = Some sb" using live u(3) v(2) by (simp add: sameObjects_def)
  from hookPatch_ok [OF api(1) v(3) this samePart_acceptNewer lib]
  obtain t rv g where t: "exec (as_answer srv) (hookPatch lib sb ?mut) v = (Inr (), t)"
      "as_sandbox srv t key = Some (?mut\<lparr>sb_resourceVersion := rv, sb_generation := g\<rparr>)" by blast
  have "waiting req (?mut\<lparr>sb_resourceVersion := rv, sb_generation := g\<rparr>)"
    using comp refreshedTemplate_volume [OF pt names] by (simp add: waiting_def acceptNewer_def hasWorkOrderVolume_def)
  then show ?thesis
    using u(1) v(1) pt t by (simp add: publishNewer_def Let_def exec_simps asTime_def)
qed

lemma repairRedelivery_ok:
  assumes api: "obeysAPI srv" "as_valid srv s" and live: "as_sandbox srv s key = Some sb" and lib: "buildsPatches lib"
    and fits: "secretFits srv hk req tmpl sb s" and repair: "repairPointers req (orderSecretName hk sb req) sb = Inr (mut, changed)"
    and last: "lastOrderOf sb = rq_OrderID req"
  shows "\<exists>t rv g. exec (as_answer srv) (repairRedelivery lib hk sb tmpl req) s = (Inr True, t) \<and>
     as_sandbox srv t key = Some (mut\<lparr>sb_resourceVersion := rv, sb_generation := g\<rparr>)"
proof -
  let ?n = "orderSecretName hk sb req"
  obtain u where u: "exec (as_answer srv) (ensureSecret sb tmpl req ?n) s = (Inr (), u)" "as_valid srv u" "as_sandbox srv u = as_sandbox srv s"
    using ensureSecret_ok [OF api, of sb ?n tmpl req] fits unfolding secretFits_def hookSecret_def by blast
  have live': "as_sandbox srv u key = Some sb" using live u(3) by simp
  show ?thesis
  proof (cases changed)
    case True
    from hookPatch_ok [OF api(1) u(2) live' repairPointers_effect(1) [OF repair last] lib]
    obtain t rv g where t: "exec (as_answer srv) (hookPatch lib sb mut) u = (Inr (), t)"
        "as_sandbox srv t key = Some (mut\<lparr>sb_resourceVersion := rv, sb_generation := g\<rparr>)" by blast
    have "exec (as_answer srv) (repairRedelivery lib hk sb tmpl req) s = (Inr True, t)"
      using u(1) repair True t(1) by (simp add: repairRedelivery_def Let_def exec_simps)
    then show ?thesis using t(2) by blast
  next
    case False
    then have "mut = sb" using repair repairPointers_unchanged [of req "orderSecretName hk sb req" sb mut] by simp
    then show ?thesis using u(1) repair False live'
      by (intro exI [of _ u] exI [of _ "sb_resourceVersion sb"] exI [of _ "sb_generation sb"]) (simp add: repairRedelivery_def Let_def exec_simps)
  qed
qed

text \<open>The check of the cap, when there is room.\<close>

lemma checkCapacity_exec:
  assumes api: "obeysAPI srv" "as_valid srv s"
  shows "\<exists>t. sameObjects srv s t \<and> as_valid srv t \<and> exec (as_answer srv) (checkCapacity hk own n) s =
     (if cf_MaxActiveSessions (hk_Config hk) \<le> 0 \<or> (\<exists>sb. own = Some sb \<and> holdsSlot sb) \<or> roomFor srv hk (cf_Namespace (hk_Config hk), n) s
      then Inr () else Inl (retryable (AtCapacity (card (slots srv (cf_Namespace (hk_Config hk)) (cf_Release (hk_Config hk)) s
        - {(cf_Namespace (hk_Config hk), n)})) (cf_MaxActiveSessions (hk_Config hk)))), t)"
proof -
  let ?c = "ListSandboxes (cf_Namespace (hk_Config hk)) (SelectorLabels ComponentRunner (cf_Release (hk_Config hk)))"
  obtain items where i: "fst (as_answer srv s ?c) = RSandboxes items"
    using answer_lawful(1) [OF api, of ?c] by (auto simp: lawful_def)
  then have a: "activeOthers n items = card (slots srv (cf_Namespace (hk_Config hk)) (cf_Release (hk_Config hk)) s
      - {(cf_Namespace (hk_Config hk), n)})"
    using answer_lawful(1) [OF api, of ?c] by (intro listed_slots(2) [OF api]) simp
  have e: "fst (exec (as_answer srv) (checkCapacity hk own n) s) = (if cf_MaxActiveSessions (hk_Config hk) \<le> 0 \<or> (\<exists>sb. own = Some sb \<and> holdsSlot sb) \<or>
      roomFor srv hk (cf_Namespace (hk_Config hk), n) s then Inr () else Inl (retryable (AtCapacity (card (slots srv (cf_Namespace (hk_Config hk))
        (cf_Release (hk_Config hk)) s - {(cf_Namespace (hk_Config hk), n)})) (cf_MaxActiveSessions (hk_Config hk)))))"
    using i a by (cases own) (simp_all add: checkCapacity_def Let_def exec_simps asSandboxes_def)
  show ?thesis
    by (intro exI [of _ "snd (exec (as_answer srv) (checkCapacity hk own n) s)"] conjI exec_reads [OF api checkCapacity_reads] exec_valid [OF api])
      (simp only: e [symmetric] prod.collapse)
qed

section \<open>The run up to the decision\<close>

text \<open>A template file the hook accepts.\<close>

definition templateFor :: "'s apiServer \<Rightarrow> k8sLib \<Rightarrow> hook \<Rightarrow> spawnRequest \<Rightarrow> sandbox \<Rightarrow> bool" where
  "templateFor srv lib hk req tmpl \<longleftrightarrow> (\<exists>raw t. as_file srv (cf_TemplatePath (hk_Config hk)) = RBytes raw \<and>
     ParseTemplate lib raw = Inr t \<and> ApplyContract (requestIdentity hk req) (hookContract hk) t = Inr tmpl \<and>
     label t LabelPartOf = PartOf \<and> sb_deletionTimestamp t = None)"

lemma templateFor_result:
  assumes "templateFor srv lib hk req tmpl"
  shows "keyOf tmpl = (cf_Namespace (hk_Config hk), SandboxName (cf_Release (hk_Config hk)) (rq_SessionID req))"
    and "\<not> deleting tmpl" "label tmpl LabelPartOf = PartOf" "label tmpl LabelInstance = cf_Release (hk_Config hk)"
    and "label tmpl LabelSessionID = LabelValue (rq_SessionID req)" "label tmpl LabelName = ComponentRunner"
    and "namesSecret (sb_podTemplate tmpl)" "hasWorkOrderVolume tmpl"
proof -
  obtain t where t: "ApplyContract (requestIdentity hk req) (hookContract hk) t = Inr tmpl" "label t LabelPartOf = PartOf"
      "sb_deletionTimestamp t = None"
    using assms by (auto simp: templateFor_def)
  note m = ApplyContract_meets [OF t(1), unfolded meetsContract_def] and r = ApplyContract_result [OF t(1)]
  show "keyOf tmpl = (cf_Namespace (hk_Config hk), SandboxName (cf_Release (hk_Config hk)) (rq_SessionID req))"
    using m by (simp add: keyOf_def requestIdentity_def)
  show "\<not> deleting tmpl" "label tmpl LabelPartOf = PartOf" using t(2,3) by (simp_all add: deleting_def r)
  show "label tmpl LabelInstance = cf_Release (hk_Config hk)" "label tmpl LabelSessionID = LabelValue (rq_SessionID req)"
      "label tmpl LabelName = ComponentRunner" using m by (simp_all add: requestIdentity_def)
  show "namesSecret (sb_podTemplate tmpl)" using m by (auto simp: namesSecret_def)
  show "hasWorkOrderVolume tmpl" using m by (auto simp: hasWorkOrderVolume_def workOrderVolume_def list_ex_find)
qed

lemma hookTemplate_ok:
  assumes api: "obeysAPI srv" "as_valid srv s" and "templateFor srv lib hk req tmpl"
  shows "\<exists>u. exec (as_answer srv) (hookTemplate lib hk (requestIdentity hk req)) s = (Inr tmpl, u) \<and> sameObjects srv s u \<and> as_valid srv u"
proof -
  let ?p = "hookTemplate lib hk (requestIdentity hk req)"
  have "fst (exec (as_answer srv) ?p s) = Inr tmpl"
    using assms(3) answers(3) [OF api]
    by (auto simp: templateFor_def hookTemplate_def LoadTemplate_def exec_simps asBytes_def hookContract_def)
  then show ?thesis
    using exec_reads [OF api hookTemplate_reads] exec_valid [OF api, of ?p] by (metis prod.collapse)
qed

text \<open>The first attempt decides, if it does not ask for another.\<close>

lemma Run_attempt:
  assumes api: "obeysAPI srv" "as_valid srv s" and tmpl: "templateFor srv lib hk req tmpl" and h: "rq_SessionID req \<noteq> []" "0 \<le> hk_MaxAttempts hk"
  shows "\<exists>u. sameObjects srv s u \<and> as_valid srv u \<and> (\<forall>r t. exec (as_answer srv)
     (case as_sandbox srv s (keyOf tmpl) of None \<Rightarrow> createPath lib (withDefault hk) req tmpl
      | Some sb \<Rightarrow> afterRead lib (withDefault hk) req tmpl sb) u = (Return r, t) \<longrightarrow> exec (as_answer srv) (Run lib hk req) s = (r, t))"
proof -
  let ?hk = "withDefault hk" and ?g = "GetSandbox (sb_namespace tmpl) (sb_name tmpl)"
  have "templateFor srv lib ?hk req tmpl" using tmpl by (simp add: templateFor_def requestIdentity_def hookContract_def)
  from hookTemplate_ok [OF api this] obtain u where
      u: "exec (as_answer srv) (hookTemplate lib ?hk (requestIdentity ?hk req)) s = (Inr tmpl, u)" "sameObjects srv s u" "as_valid srv u" by blast
  let ?v = "snd (as_answer srv u ?g)"
  have v: "sameObjects srv u ?v" "as_valid srv ?v" using read_same [OF api(1) u(3), of ?g] answer_lawful(2) [OF api(1) u(3), of ?g] by simp_all
  have read: "fst (as_answer srv u ?g) = (case as_sandbox srv s (keyOf tmpl) of None \<Rightarrow> RErr NotFound | Some sb \<Rightarrow> RSandbox sb)"
    using answers(1) [OF api(1) u(3), of "sb_namespace tmpl" "sb_name tmpl"] u(2) by (simp add: sameObjects_def keyOf_def)
  have attempt: "exec (as_answer srv) (sessionAttempt lib ?hk req tmpl 0) u = exec (as_answer srv)
      (case as_sandbox srv s (keyOf tmpl) of None \<Rightarrow> createPath lib ?hk req tmpl | Some sb \<Rightarrow> afterRead lib ?hk req tmpl sb) ?v"
    using read by (simp add: sessionAttempt_def backoff_def exec_simps asSandbox_def split: option.splits)
  obtain m where m: "nat (hk_MaxAttempts ?hk) = Suc m"
    using h(2) by (cases "nat (hk_MaxAttempts ?hk)") (auto simp: withDefault_def DefaultMaxAttempts_def split: if_splits)
  have "exec (as_answer srv) (Run lib hk req) s = (r, t)"
    if "exec (as_answer srv) (case as_sandbox srv s (keyOf tmpl) of None \<Rightarrow> createPath lib ?hk req tmpl
        | Some sb \<Rightarrow> afterRead lib ?hk req tmpl sb) ?v = (Return r, t)" for r t
    using that attempt u(1) by (simp add: Run_session [OF h(1)] runSession_def exec_simps m)
  then show ?thesis using sameObjects_trans [OF u(2) v(1)] v(2) by blast
qed

section \<open>An order is taken\<close>

text \<open>
  The session has no Sandbox, or one that takes the order as newer; there is room, or the session
  holds a slot; no other Secret is in the way.
\<close>

definition takesOrder :: "'s apiServer \<Rightarrow> hook \<Rightarrow> spawnRequest \<Rightarrow> sandbox \<Rightarrow> 's \<Rightarrow> bool" where
  "takesOrder srv hk req tmpl s \<longleftrightarrow> (case as_sandbox srv s (keyOf tmpl) of
     None \<Rightarrow> (cf_MaxActiveSessions (hk_Config hk) \<le> 0 \<or> roomFor srv hk (keyOf tmpl) s) \<and>
       (\<forall>uid. as_secret srv s (sb_namespace tmpl, WorkOrderSecretName (cf_Release (hk_Config hk)) (rq_SessionID req) uid (rq_OrderID req)) = None)
   | Some sb \<Rightarrow> evaluate sb req (cf_Release (hk_Config hk)) = Inr DecisionNewer \<and> label sb LabelName = ComponentRunner \<and>
       (cf_MaxActiveSessions (hk_Config hk) \<le> 0 \<or> holdsSlot sb \<or> roomFor srv hk (keyOf tmpl) s) \<and> secretFits srv hk req tmpl sb s)"

lemma slots_same: "sameObjects srv s u \<Longrightarrow> slots srv N rel u = slots srv N rel s"
  by (rule slots_cong) (simp add: sameObjects_def)

lemma existing_ok:
  assumes api: "obeysAPI srv" "as_valid srv s" and lib: "buildsPatches lib" and live: "as_sandbox srv s (cf_Namespace (hk_Config hk), n) = Some sb"
    and ev: "evaluate sb req (cf_Release (hk_Config hk)) = Inr DecisionNewer" and comp: "label sb LabelName = ComponentRunner"
    and room: "cf_MaxActiveSessions (hk_Config hk) \<le> 0 \<or> holdsSlot sb \<or> roomFor srv hk (cf_Namespace (hk_Config hk), n) s"
    and fits: "secretFits srv hk req tmpl sb s" and names: "namesSecret (sb_podTemplate tmpl)"
  shows "\<exists>t sb'. exec (as_answer srv) (afterRead lib hk req tmpl sb) s = (Return (Inr ()), t) \<and>
     as_sandbox srv t (cf_Namespace (hk_Config hk), n) = Some sb' \<and> waiting req sb'"
proof -
  have n: "sb_name sb = n" using stored_key(1) [OF api live] by (simp add: keyOf_def)
  from checkCapacity_exec [OF api, of hk "Some sb" n] room
  obtain u where u: "sameObjects srv s u" "as_valid srv u" "exec (as_answer srv) (checkCapacity hk (Some sb) n) s = (Inr (), u)" by auto
  have "as_sandbox srv u (cf_Namespace (hk_Config hk), n) = Some sb" "secretFits srv hk req tmpl sb u"
    using live fits u(1) by (simp_all add: sameObjects_def secretFits_def)
  from publishNewer_ok [OF api(1) u(2) this(1) lib this(2) names comp]
  obtain t sb' where t: "exec (as_answer srv) (publishNewer lib hk sb tmpl req) u = (Inr True, t)"
      "as_sandbox srv t (cf_Namespace (hk_Config hk), n) = Some sb'" "waiting req sb'" by blast
  have "exec (as_answer srv) (reconcileExisting lib hk sb tmpl req) s = (Inr True, t)"
    using ev u(3) t(1) n by (simp add: reconcileExisting_def exec_simps)
  then show ?thesis using t(2,3) by (simp add: afterRead_def exec_simps)
qed

text \<open>The Sandbox of a new session, as created and as repaired.\<close>

lemma created_fields:
  assumes "sb = (newSandbox tmpl req now)\<lparr>sb_uid := uid, sb_resourceVersion := rv, sb_generation := g\<rparr>"
  shows "sb_labels sb = sb_labels tmpl" "sb_deletionTimestamp sb = sb_deletionTimestamp tmpl" "sb_podTemplate sb = sb_podTemplate tmpl"
    "keyOf sb = keyOf tmpl" "sb_operatingMode sb = Suspended" "pendingOf sb = rq_OrderID req" "lastOrderOf sb = rq_OrderID req"
    "annot sb AnnotationLastOrderAttempt = FormatInt (rq_Attempt req)" "annot sb AnnotationPendingSecret = []" "annot sb AnnotationLastOrderSecret = []"
  by (simp_all add: assms newSandbox_def)

lemma redelivery_ok:
  assumes api: "obeysAPI srv" "as_valid srv s" and live: "as_sandbox srv s key = Some sb" and lib: "buildsPatches lib"
    and sb: "sb = (newSandbox tmpl req now)\<lparr>sb_uid := uid, sb_resourceVersion := rv, sb_generation := g\<rparr>"
    and tmpl: "templateFor srv lib hk req tmpl" and fits: "secretFits srv hk req tmpl sb s" and req: "validRequest req"
  shows "\<exists>t sb'. exec (as_answer srv) (afterRead lib hk req tmpl sb) s = (Return (Inr ()), t) \<and> as_sandbox srv t key = Some sb' \<and> waiting req sb'"
proof -
  note f = created_fields [OF sb] and m = templateFor_result [OF tmpl]
  have ev: "evaluate sb req (cf_Release (hk_Config hk)) = Inr DecisionRedelivery"
    using f m req by (intro evaluate_redelivery) (simp_all add: deleting_def validRequest_def)
  let ?p = "pointed sb (orderSecretName hk sb req)"
  have "repairPointers req (orderSecretName hk sb req) sb = Inr (?p, True)"
    by (rule repairPointers_pointed) (use f in simp_all)
  from repairRedelivery_ok [OF api live lib fits this f(7)]
  obtain t rv' g' where t: "exec (as_answer srv) (repairRedelivery lib hk sb tmpl req) s = (Inr True, t)"
      "as_sandbox srv t key = Some (?p\<lparr>sb_resourceVersion := rv', sb_generation := g'\<rparr>)" by blast
  have "waiting req (?p\<lparr>sb_resourceVersion := rv', sb_generation := g'\<rparr>)"
    using f m(6,8) by (simp add: waiting_def pointed_def hasWorkOrderVolume_def)
  then show ?thesis using t ev by (simp add: afterRead_def reconcileExisting_def exec_simps)
qed

lemma create_ok:
  assumes api: "obeysAPI srv" "as_valid srv s" and lib: "buildsPatches lib" and absent: "as_sandbox srv s (keyOf tmpl) = None"
    and room: "cf_MaxActiveSessions (hk_Config hk) \<le> 0 \<or> roomFor srv hk (keyOf tmpl) s" and req: "validRequest req"
    and tmpl: "templateFor srv lib hk req tmpl"
    and fresh: "\<And>uid. as_secret srv s (sb_namespace tmpl, WorkOrderSecretName (cf_Release (hk_Config hk)) (rq_SessionID req) uid (rq_OrderID req)) = None"
  shows "\<exists>t sb'. exec (as_answer srv) (createPath lib hk req tmpl) s = (Return (Inr ()), t) \<and>
     as_sandbox srv t (keyOf tmpl) = Some sb' \<and> waiting req sb'"
proof -
  have ns: "cf_Namespace (hk_Config hk) = sb_namespace tmpl" using templateFor_result(1) [OF tmpl] by (simp add: keyOf_def)
  from checkCapacity_exec [OF api, of hk None "sb_name tmpl"] room
  obtain u where u: "sameObjects srv s u" "as_valid srv u" "exec (as_answer srv) (checkCapacity hk None (sb_name tmpl)) s = (Inr (), u)"
    unfolding ns by (auto simp: keyOf_def)
  obtain v where v: "as_answer srv u Now = (RTime (as_clock srv u), v)" "sameObjects srv u v" "as_valid srv v"
    using answers(4) [OF api(1) u(2)] read_same [OF api(1) u(2), of Now] answer_lawful(2) [OF api(1) u(2), of Now]
    by (cases "as_answer srv u Now") simp
  note same = sameObjects_trans [OF u(1) v(2)]
  let ?new = "newSandbox tmpl req (as_clock srv u)" and ?c = "CreateSandbox (newSandbox tmpl req (as_clock srv u))"
  let ?w = "snd (as_answer srv v ?c)"
  have "keyOf ?new = keyOf tmpl" by (simp add: newSandbox_def)
  then obtain uid rv g where w: "fst (as_answer srv v ?c) = RSandbox (?new\<lparr>sb_uid := uid, sb_resourceVersion := rv, sb_generation := g\<rparr>)"
      "putSandbox srv v (keyOf tmpl) (Some (?new\<lparr>sb_uid := uid, sb_resourceVersion := rv, sb_generation := g\<rparr>)) ?w"
    using answer_lawful(1) [OF api(1) v(3), of ?c] absent same by (auto simp: lawful_def Let_def sameObjects_def)
  define sb where "sb = ?new\<lparr>sb_uid := uid, sb_resourceVersion := rv, sb_generation := g\<rparr>"
  have live: "as_sandbox srv ?w (keyOf tmpl) = Some sb" and sec: "as_secret srv ?w = as_secret srv s"
    using w(2) same by (simp_all add: putSandbox_def sameObjects_def sb_def)
  have "sb_namespace sb = sb_namespace tmpl" by (simp add: sb_def newSandbox_def)
  then have "secretFits srv hk req tmpl sb ?w" using fresh by (simp add: secretFits_def sec orderSecretName_def)
  from redelivery_ok [OF api(1) answer_lawful(2) [OF api(1) v(3)] live lib sb_def tmpl this req]
  show ?thesis using u(3) v(1) w(1) by (simp add: createPath_def createSandbox_def exec_simps asTime_def asSandbox_def sb_def)
qed


text \<open>An empty namespace: the session's first order.\<close>

definition emptyStore :: store where
  "emptyStore = \<lparr>st_sandboxes = [], st_secrets = [], st_pods = [], st_clock = 0, st_next = 7\<rparr>"

lemma sample_templateFor: "\<exists>tmpl. templateFor (storeServer sampleFiles) sampleLib sampleHook sampleRequest tmpl"
proof -
  obtain t where "ApplyContract sampleIdentity sampleContract sampleTemplate = Inr t" using sample_accepted by blast
  moreover have "label sampleTemplate LabelPartOf = PartOf" "sb_deletionTimestamp sampleTemplate = None"
    by (simp_all add: sampleTemplate_def PartOf_def)
  ultimately show ?thesis
    using sample_parse by (auto simp: templateFor_def storeServer_def sampleFiles_def sample_ident)
qed


section \<open>No room\<close>

text \<open>The session would take a slot it does not hold, and there is none.\<close>

definition capReached :: "'s apiServer \<Rightarrow> hook \<Rightarrow> spawnRequest \<Rightarrow> sandbox \<Rightarrow> 's \<Rightarrow> bool" where
  "capReached srv hk req tmpl s \<longleftrightarrow> 0 < cf_MaxActiveSessions (hk_Config hk) \<and> \<not> roomFor srv hk (keyOf tmpl) s \<and>
     (case as_sandbox srv s (keyOf tmpl) of None \<Rightarrow> True
      | Some sb \<Rightarrow> evaluate sb req (cf_Release (hk_Config hk)) = Inr DecisionNewer \<and> \<not> holdsSlot sb)"

lemma capReached_stops:
  assumes api: "obeysAPI srv" "as_valid srv s" and full: "capReached srv hk req tmpl s"
    and tmpl: "templateFor srv lib hk req tmpl" and own: "own = as_sandbox srv s (keyOf tmpl)"
    and n: "n = card (slots srv (cf_Namespace (hk_Config hk)) (cf_Release (hk_Config hk)) s - {keyOf tmpl})"
  shows "\<exists>t. sameObjects srv s t \<and> exec (as_answer srv) (case own of None \<Rightarrow> createPath lib hk req tmpl | Some sb \<Rightarrow> afterRead lib hk req tmpl sb) s =
     (Return (Inl (retryable (AtCapacity n (cf_MaxActiveSessions (hk_Config hk))))), t)"
proof -
  have k: "(cf_Namespace (hk_Config hk), sb_name tmpl) = keyOf tmpl" using templateFor_result(1) [OF tmpl] by (simp add: keyOf_def)
  have "\<not> (\<exists>sb. own = Some sb \<and> holdsSlot sb)" using full own by (auto simp: capReached_def)
  with checkCapacity_exec [OF api, of hk own "sb_name tmpl"] full obtain t where t: "sameObjects srv s t"
      "exec (as_answer srv) (checkCapacity hk own (sb_name tmpl)) s =
        (Inl (retryable (AtCapacity n (cf_MaxActiveSessions (hk_Config hk)))), t)"
    unfolding k n [symmetric] by (auto simp: capReached_def n)
  show ?thesis
  proof (cases own)
    case None
    then show ?thesis using t by (auto simp: createPath_def exec_simps)
  next
    case (Some sb)
    have "keyOf sb = keyOf tmpl" using stored_key(1) [OF api] own Some by auto
    then have "sb_name sb = sb_name tmpl" by (simp add: keyOf_def)
    moreover have "evaluate sb req (cf_Release (hk_Config hk)) = Inr DecisionNewer" using full Some by (simp add: capReached_def own [symmetric])
    ultimately show ?thesis using t Some by (auto simp: afterRead_def reconcileExisting_def exec_simps staleError_def retryable_def)
  qed
qed

text \<open>
  C10: Without room the hook refuses: when as many other sessions hold a slot as the cap allows and
  the session holds none, an invocation for its first or a newer order exits 1, so that the
  orchestrator tries again, reports how many there are, and leaves every object as it is.
\<close>

theorem at_capacity:
  assumes "obeysAPI srv" and "as_valid srv s" and "rq_SessionID req \<noteq> []" and "0 \<le> hk_MaxAttempts hk"
    and "templateFor srv lib hk req tmpl" and "capReached srv hk req tmpl s"
    and "n = card (slots srv (cf_Namespace (hk_Config hk)) (cf_Release (hk_Config hk)) s -
      {(cf_Namespace (hk_Config hk), SandboxName (cf_Release (hk_Config hk)) (rq_SessionID req))})"
  shows "\<exists>t r. exec (as_answer srv) (Run lib hk req) s = (r, t) \<and> sameObjects srv s t \<and> ExitCodeFor r = 1 \<and>
     r = Inl (retryable (AtCapacity n (cf_MaxActiveSessions (hk_Config hk)))) \<and> cf_MaxActiveSessions (hk_Config hk) \<le> int n"
proof -
  have tmpl: "templateFor srv lib (withDefault hk) req tmpl"
    using assms(5) by (simp add: templateFor_def requestIdentity_def hookContract_def)
  note m = templateFor_result(1) [OF assms(5)]
  obtain u where u: "sameObjects srv s u" "as_valid srv u" and run: "\<And>r t. exec (as_answer srv)
     (case as_sandbox srv s (keyOf tmpl) of None \<Rightarrow> createPath lib (withDefault hk) req tmpl
      | Some sb \<Rightarrow> afterRead lib (withDefault hk) req tmpl sb) u = (Return r, t) \<Longrightarrow> exec (as_answer srv) (Run lib hk req) s = (r, t)"
    using Run_attempt [OF assms(1,2,5,3,4)] by blast
  have stored: "as_sandbox srv u = as_sandbox srv s" using u(1) by (simp add: sameObjects_def)
  have full: "capReached srv (withDefault hk) req tmpl u"
    using assms(6) by (simp add: capReached_def stored slots_same [OF u(1)] split: option.splits)
  have n: "n = card (slots srv (cf_Namespace (hk_Config (withDefault hk))) (cf_Release (hk_Config (withDefault hk))) u - {keyOf tmpl})"
    by (simp add: assms(7) m slots_same [OF u(1)])
  obtain t where "sameObjects srv u t" "exec (as_answer srv) (Run lib hk req) s =
      (Inl (retryable (AtCapacity n (cf_MaxActiveSessions (hk_Config hk)))), t)"
    using capReached_stops [OF assms(1) u(2) full tmpl stored [symmetric, THEN fun_cong] n] run by auto
  moreover have "cf_MaxActiveSessions (hk_Config hk) \<le> int n" using assms(6,7) m by (simp add: capReached_def)
  ultimately show ?thesis
    using sameObjects_trans [OF u(1)] by (simp add: ExitCodeFor_def retryable_def ExitRetryable_def)
qed

text \<open>Another session runs; the cap is one.\<close>

definition fullStore :: store where
  "fullStore = emptyStore\<lparr>st_sandboxes := [sampleRunning\<lparr>sb_namespace := ''ns'', sb_name := ''other''\<rparr>]\<rparr>"

lemma other_name: "SandboxName release session \<noteq> ''other''" "''other'' \<noteq> SandboxName release session"
proof -
  have "CHR ''-'' \<in> set (SandboxName release session)" by (simp add: SandboxName_def scopedName_def Let_def)
  then show "SandboxName release session \<noteq> ''other''" by auto
  then show "''other'' \<noteq> SandboxName release session" by (rule not_sym)
qed

lemma fullStore_slots: "slots (storeServer sampleFiles) ''ns'' ''rel'' fullStore = {(''ns'', ''other'')}"
proof -
  let ?o = "sampleRunning\<lparr>sb_namespace := ''ns'', sb_name := ''other''\<rparr>"
  have "SelectorLabels ComponentRunner ''rel'' \<subseteq>\<^sub>m sb_labels ?o" "holdsSlot ?o" "keyOf ?o = (''ns'', ''other'')"
    using sample_holdsSlot by (simp_all add: sample_defs SelectorLabels_def map_le_def holdsSlot_def deleting_def keyOf_def)
  then show ?thesis
    by (auto simp: slots_def fullStore_def emptyStore_def findSandbox_def split: if_splits)
qed

theorem at_capacity_witness:
  "\<exists>t. exec (storeAnswer sampleFiles) (Run sampleLib sampleHook sampleRequest) fullStore = (Inl (retryable (AtCapacity 1 1)), t) \<and>
     findSandbox t = findSandbox fullStore \<and> findSecret t = findSecret fullStore"
proof -
  obtain tmpl where tmpl: "templateFor (storeServer sampleFiles) sampleLib sampleHook sampleRequest tmpl"
    using sample_templateFor by blast
  let ?key = "(''ns'', SandboxName ''rel'' ''S-1'')"
  have c: "rq_SessionID sampleRequest = ''S-1''" "0 \<le> hk_MaxAttempts sampleHook" "cf_Namespace (hk_Config sampleHook) = ''ns''"
      "cf_Release (hk_Config sampleHook) = ''rel''" "cf_MaxActiveSessions (hk_Config sampleHook) = 1"
    by (simp_all add: sampleRequest_def sampleHook_def)
  have k: "keyOf tmpl = ?key" using templateFor_result(1) [OF tmpl] by (simp add: c)
  have d: "slots (storeServer sampleFiles) ''ns'' ''rel'' fullStore - {?key} = {(''ns'', ''other'')}"
    using other_name by (auto simp: fullStore_slots)
  have "findSandbox fullStore ?key = None" using other_name by (simp add: fullStore_def emptyStore_def findSandbox_def keyOf_def)
  then have "capReached (storeServer sampleFiles) sampleHook sampleRequest tmpl fullStore"
    by (simp add: capReached_def k c d)
  moreover have "validStore fullStore" by (simp add: validStore_def fullStore_def emptyStore_def sample_defs)
  ultimately show ?thesis
    using at_capacity [OF storeServer_obeys _ _ c(2) tmpl _ refl, of fullStore] by (auto simp: c d sameObjects_def)
qed

end
