(* ===== verification/Quiescence.thy ===== *)
theory Quiescence
  imports Progress
begin

text \<open>
  The session controller comes to rest: left alone, a Sandbox is written at most four times, by
  a wake, the observation of the spawn, a sleep and the deletion, and then never again.
\<close>

section \<open>The writes a Sandbox has left\<close>

definition writesLeft :: "sandbox option \<Rightarrow> nat" where
  "writesLeft x = (case x of None \<Rightarrow> 0 | Some sb \<Rightarrow> if deleting sb then 0
     else if pendingOf sb \<noteq> [] then (if sb_operatingMode sb = Suspended then 4 else 3)
     else if sb_operatingMode sb = Running then 2 else 1)"

lemma writesLeft_simps [simp]:
  "writesLeft None = 0" "writesLeft x \<le> 4"
  "writesLeft (Some (sb\<lparr>sb_resourceVersion := rv, sb_generation := g\<rparr>)) = writesLeft (Some sb)"
  by (auto simp: writesLeft_def deleting_def split: option.split)

lemma writesLeft_session:
  "writesLeft (Some sb) = (if deleting sb then 0
     else if s_pending (sessionOf sb) \<noteq> [] then (if s_mode (sessionOf sb) = Suspended then 4 else 3)
     else if s_mode (sessionOf sb) = Running then 2 else 1)"
  by (simp add: writesLeft_def sessionOf_def)

lemma replacedBy_less:
  assumes "replacedBy release sb new"
  shows "writesLeft new < writesLeft (Some sb)"
proof (cases new)
  case None
  then show ?thesis using assms by (auto simp: replacedBy_def writesLeft_session)
next
  case (Some sb')
  then obtain a mut rv g where a: "a \<in> {Observe, Sleep, Wake}" "legalPatch release sb a mut"
      "sb' = mut\<lparr>sb_resourceVersion := rv, sb_generation := g\<rparr>"
    using assms by (auto simp: replacedBy_def)
  have d: "\<not> deleting sb" "\<not> deleting mut" using a(2) by (auto simp: legalPatch_def samePart_def deleting_def)
  have "lifecycle (derivedName release sb) (sessionOf sb) a (sessionOf mut)" using a(2) by (simp add: legalPatch_def)
  then have "writesLeft (Some mut) < writesLeft (Some sb)"
    using a(1) d by (cases rule: lifecycle.cases) (auto simp: writesLeft_session)
  then show ?thesis using Some a(3) by simp
qed

lemma pass_writes:
  assumes "obeysAPI srv" and "as_valid srv s" and "t = snd (exec (as_answer srv) (Reconcile lib rc st ns n) s)"
  shows "as_sandbox srv t key = as_sandbox srv s key \<or> writesLeft (as_sandbox srv t key) < writesLeft (as_sandbox srv s key)"
  using pass_effect [OF assms(1,2), of rc ns n lib st] replacedBy_less unfolding assms(3) passEffect_def by auto

section \<open>Passes with nothing new for them\<close>

text \<open>
  Any number of passes of any controllers over any Sandboxes, each with what the controller
  remembers at that time; between them others may do what leaves the Sandbox no more writes,
  such as the status the agent-sandbox controller writes, Pods that start and end, a user who
  deletes it, a redelivery that completes its pointers. The numbers count the writes to \<open>key\<close>.
\<close>

inductive calm :: "'s apiServer \<Rightarrow> objectKey \<Rightarrow> 's \<Rightarrow> nat \<Rightarrow> 's \<Rightarrow> bool"
  for srv :: "'s apiServer" and key :: objectKey where
  none: "calm srv key s 0 s"
| pass: "calm srv key s k t \<Longrightarrow> u = snd (exec (as_answer srv) (Reconcile lib rc st ns n) t) \<Longrightarrow>
    calm srv key s (if as_sandbox srv u key = as_sandbox srv t key then k else Suc k) u"
| outside: "calm srv key s k t \<Longrightarrow> as_valid srv u \<Longrightarrow> writesLeft (as_sandbox srv u key) \<le> writesLeft (as_sandbox srv t key) \<Longrightarrow>
    calm srv key s k u"

lemma calm_left:
  assumes "calm srv key s k t" and "obeysAPI srv" and "as_valid srv s"
  shows "as_valid srv t \<and> k + writesLeft (as_sandbox srv t key) \<le> writesLeft (as_sandbox srv s key)"
  using assms
proof (induction rule: calm.induct)
  case (pass s k t u lib rc st ns n)
  then have IH: "as_valid srv t" "k + writesLeft (as_sandbox srv t key) \<le> writesLeft (as_sandbox srv s key)" by simp_all
  have "as_valid srv u" unfolding pass.hyps(2) by (rule exec_valid [OF pass.prems(1) IH(1)])
  then show ?case using IH(2) pass_writes [OF pass.prems(1) IH(1) pass.hyps(2), of key] by auto
qed auto

section \<open>Properties\<close>

text \<open>
  C7: The controller comes to rest. In any sequence of passes between which no new order is
  accepted, a Sandbox is written at most as often as its state leaves steps to the deletion, at
  most four times: waking and the observation of the spawn while an order is pending, going to
  sleep while it runs, the deletion once it is idle; and one that is being deleted, never.
\<close>

theorem controller_comes_to_rest:
  assumes "obeysAPI srv" and "as_valid srv s" and "calm srv key s k t"
  shows "k + writesLeft (as_sandbox srv t key) \<le> writesLeft (as_sandbox srv s key) \<and> k \<le> 4 \<and>
    (\<forall>sb :: sandbox. as_sandbox srv s key = Some sb \<and> deleting sb \<longrightarrow> k = 0)"
  using calm_left [OF assms(3,1,2)] writesLeft_simps(2) [of "as_sandbox srv s key"] by (auto simp: writesLeft_def)

theorem controller_comes_to_rest_witness:
  "\<exists>s t. calm (storeServer sampleFiles) (keyOf sampleFinished) s 1 t \<and> writesLeft (findSandbox s (keyOf sampleFinished)) = 2 \<and>
     writesLeft (findSandbox t (keyOf sampleFinished)) \<le> 1"
proof -
  let ?srv = "storeServer sampleFiles" and ?key = "keyOf sampleFinished"
  define s where "s = \<lparr>st_sandboxes = [sampleFinished], st_secrets = [], st_pods = [], st_clock = 0, st_next = 9\<rparr>"
  have v: "as_valid ?srv s" by (simp add: validStore_def s_def sampleFinished_def sampleRunning_def sampleLive_def)
  have live: "as_sandbox ?srv s (fst ?key, snd ?key) = Some sampleFinished" by (simp add: s_def findSandbox_def)
  obtain t rv g now where t: "snd (exec (as_answer ?srv) (Reconcile sampleLib sampleReconciler freshState (fst ?key) (snd ?key)) s) = t"
      "putSandbox ?srv s (fst ?key, snd ?key) (Some ((asleep sampleFinished now)\<lparr>sb_resourceVersion := rv, sb_generation := g\<rparr>)) t"
    using sleep_exec [OF storeServer_obeys v live sample_finished sampleLib_builds, of freshState] by (metis snd_conv)
  have f: "sb_operatingMode sampleFinished = Running" "pendingOf sampleFinished = []" "\<not> deleting sampleFinished"
    using sample_finished by (simp_all add: finishedRun_def actsOn_def)
  then have "as_sandbox ?srv t ?key \<noteq> as_sandbox ?srv s ?key"
    using t(2) live by (auto simp: putSandbox_def asleep_def dest: arg_cong [of _ _ sb_operatingMode])
  then have c: "calm ?srv ?key s 1 t" using calm.pass [OF calm.none [of ?srv ?key] t(1) [symmetric]] by simp
  have "writesLeft (findSandbox s ?key) = 2" using f live by (simp add: writesLeft_def)
  then show ?thesis using controller_comes_to_rest [OF storeServer_obeys v c] c by (intro exI [of _ s] exI [of _ t]) simp
qed

end
