(* ===== verification/Metrics.thy ===== *)
theory Metrics
  imports Reconciler
begin

text \<open>
  internal/sessioncontroller/metrics.go: the series \<open>StateCollector\<close> exports at a scrape. A value
  of the gauge is a whole number or the seconds of a duration; how the latter rounds to a float
  is left to the client library.
\<close>

section \<open>Series\<close>

datatype desc = DescCondition | DescPendingAge | DescTerminating | DescSandboxes | DescInfo

datatype gauge = Whole int | SecondsOf duration

record metric =
  mt_desc :: desc
  mt_value :: gauge
  mt_labels :: "string list"

definition boolString :: "bool \<Rightarrow> string" where
  "boolString b = (if b then ''true'' else ''false'')"

definition modeString :: "operatingMode \<Rightarrow> string" where
  "modeString m = (case m of Running \<Rightarrow> ''Running'' | Suspended \<Rightarrow> ''Suspended'' | OtherMode s \<Rightarrow> s)"

text \<open>\<open>Describe\<close> announces these descriptors.\<close>

definition Describe :: "desc list" where
  "Describe = [DescCondition, DescPendingAge, DescTerminating, DescSandboxes, DescInfo]"

section \<open>Collecting\<close>

definition conditionMetric :: "sandbox \<Rightarrow> condition \<Rightarrow> metric" where
  "conditionMetric sb c = \<lparr>mt_desc = DescCondition,
     mt_value = Whole (if cd_status c = ConditionTrue then 1 else if cd_status c = ConditionUnknown then -1 else 0),
     mt_labels = [sb_name sb, cd_type c, cd_reason c, modeString (sb_operatingMode sb),
                  boolString (cd_observedGeneration c = sb_generation sb)]\<rparr>"

definition infoMetric :: "sandbox \<Rightarrow> metric" where
  "infoMetric sb = \<lparr>mt_desc = DescInfo, mt_value = Whole 1,
     mt_labels = [sb_name sb, modeString (sb_operatingMode sb), boolString (annot sb AnnotationPendingSpawn \<noteq> [])]\<rparr>"

definition pendingAgeMetrics :: "gotime \<Rightarrow> sandbox \<Rightarrow> metric list" where
  "pendingAgeMetrics now sb =
     (let pending = (annot sb AnnotationPendingSpawn \<noteq> []); at = annot sb AnnotationPendingSpawnAt in
      if pending \<and> at \<noteq> [] then
        (case parseRFC3339 at of None \<Rightarrow> []
         | Some t \<Rightarrow> [\<lparr>mt_desc = DescPendingAge, mt_value = SecondsOf (timeSub now t), mt_labels = [sb_name sb]\<rparr>])
      else [])"

definition sandboxMetrics :: "gotime \<Rightarrow> sandbox \<Rightarrow> metric list" where
  "sandboxMetrics now sb = infoMetric sb # map (conditionMetric sb) (sb_conditions sb) @ pendingAgeMetrics now sb"

text \<open>
  The loop over the Sandboxes counts them by mode and maps UIDs to names. The keys of the count
  are kept in the order of their first use; Go ranges over its map in any order.
\<close>

definition countMode :: "string \<Rightarrow> (string \<times> nat) list \<Rightarrow> (string \<times> nat) list" where
  "countMode m byMode = (case map_of byMode m of None \<Rightarrow> byMode @ [(m, 1)]
     | Some n \<Rightarrow> map (\<lambda>(k, v). if k = m then (k, Suc n) else (k, v)) byMode)"

fun sandboxLoop :: "gotime \<Rightarrow> sandbox list \<Rightarrow> (string \<times> nat) list \<Rightarrow> strmap \<Rightarrow> metric list
    \<Rightarrow> (string \<times> nat) list \<times> strmap \<times> metric list" where
  "sandboxLoop now [] byMode byUID out = (byMode, byUID, out)"
| "sandboxLoop now (sb # sbs) byMode byUID out =
     sandboxLoop now sbs (countMode (modeString (sb_operatingMode sb)) byMode)
       (byUID(sb_uid sb \<mapsto> sb_name sb)) (out @ sandboxMetrics now sb)"

definition modeMetric :: "string \<times> nat \<Rightarrow> metric" where
  "modeMetric mn = \<lparr>mt_desc = DescSandboxes, mt_value = Whole (int (snd mn)), mt_labels = [fst mn]\<rparr>"

definition terminatingMetric :: "k8sLib \<Rightarrow> gotime \<Rightarrow> strmap \<Rightarrow> pod \<Rightarrow> metric option" where
  "terminatingMetric lib now byUID p =
     (case p_deletionTimestamp p of None \<Rightarrow> None
      | Some t \<Rightarrow> (case lib_getControllerOf lib (p_owners p) of None \<Rightarrow> None
        | Some ref \<Rightarrow> (case byUID (or_uid ref) of None \<Rightarrow> None
          | Some name \<Rightarrow> Some \<lparr>mt_desc = DescTerminating, mt_value = SecondsOf (timeSub now t), mt_labels = [name, p_name p]\<rparr>)))"

text \<open>A failing list ends the collection with what has been sent so far.\<close>

definition Collect :: "k8sLib \<Rightarrow> string \<Rightarrow> metric list prog" where
  "Collect lib namespace =
     bindP (request asTime Now) (\<lambda>now.
       bindP (request asSandboxes (ListSandboxes namespace Map.empty)) (\<lambda>x. case x of
         Inl e \<Rightarrow> Ret []
       | Inr items \<Rightarrow>
         (let (byMode, byUID, out) = sandboxLoop now items [] Map.empty []; out = out @ map modeMetric byMode
          in bindP (request asPods (ListPods namespace Map.empty)) (\<lambda>y. case y of
              Inl e \<Rightarrow> Ret out
            | Inr pods \<Rightarrow> Ret (out @ List.map_filter (terminatingMetric lib now byUID) pods)))))"

section \<open>What the loop computes\<close>

lemma countMode_keys: "set (map fst (countMode m byMode)) = insert m (set (map fst byMode))"
  by (force simp: countMode_def map_of_eq_None_iff split: option.splits dest: map_of_SomeD)

lemma countMode_distinct:
  assumes "distinct (map fst byMode)"
  shows "distinct (map fst (countMode m byMode))"
proof (cases "map_of byMode m")
  case None
  then have "m \<notin> fst ` set byMode" by (simp add: map_of_eq_None_iff)
  then show ?thesis using assms None by (simp add: countMode_def)
next
  case (Some n)
  have "map fst (map (\<lambda>(k, v). if k = m then (k, Suc n) else (k, v)) byMode) = map fst byMode"
    by (induction byMode) auto
  then show ?thesis using assms Some by (simp add: countMode_def del: map_map)
qed

lemma countMode_sum:
  "distinct (map fst byMode) \<Longrightarrow> sum_list (map snd (countMode m byMode)) = Suc (sum_list (map snd byMode))"
proof (induction byMode)
  case (Cons kv byMode)
  have u: "m \<notin> fst ` set l \<Longrightarrow> map (\<lambda>(k, v). if k = m then (k, Suc n) else (k, v)) l = l" for l and n :: nat
    by (induction l) auto
  obtain k v where kv: "kv = (k, v)" by fastforce
  show ?case
  proof (cases "k = m")
    case True
    then show ?thesis using Cons.prems u [of byMode v] by (auto simp: countMode_def kv)
  next
    case False
    then have "countMode m (kv # byMode) = kv # countMode m byMode"
      by (simp add: countMode_def kv split: option.splits)
    then show ?thesis using Cons by (simp add: kv)
  qed
qed (simp add: countMode_def)

lemma sandboxLoop_result:
  assumes "distinct (map fst byMode)" and "sandboxLoop now sbs byMode byUID out = (byMode', byUID', out')"
  shows "distinct (map fst byMode') \<and> sum_list (map snd byMode') = sum_list (map snd byMode) + length sbs \<and>
     out' = out @ concat (map (sandboxMetrics now) sbs)"
  using assms
proof (induction sbs arbitrary: byMode byUID out)
  case (Cons sb sbs)
  let ?m = "modeString (sb_operatingMode sb)"
  have r: "sandboxLoop now sbs (countMode ?m byMode) (byUID(sb_uid sb \<mapsto> sb_name sb)) (out @ sandboxMetrics now sb) = (byMode', byUID', out')"
    using Cons.prems(2) by simp
  show ?case
    using Cons.IH [OF countMode_distinct [OF Cons.prems(1)] r] countMode_sum [OF Cons.prems(1), of ?m] by simp
qed simp

section \<open>Series are not repeated\<close>

text \<open>What identifies a series: the descriptor and the labels.\<close>

definition seriesOf :: "metric \<Rightarrow> desc \<times> string list" where
  "seriesOf m = (mt_desc m, mt_labels m)"

text \<open>
  What the API server guarantees of a namespace: names are unique, and the conditions of an
  object are keyed by their type.
\<close>

definition wellKeyed :: "sandbox list \<Rightarrow> pod list \<Rightarrow> bool" where
  "wellKeyed sbs pods \<longleftrightarrow> distinct (map sb_name sbs) \<and> distinct (map p_name pods) \<and>
     list_all (\<lambda>sb. distinct (map cd_type (sb_conditions sb))) sbs"

lemma pendingAge_cases:
  "map seriesOf (pendingAgeMetrics now sb) = [] \<or> map seriesOf (pendingAgeMetrics now sb) = [(DescPendingAge, [sb_name sb])]"
  by (auto simp: pendingAgeMetrics_def Let_def seriesOf_def split: option.splits)

lemma distinct_between:
  "distinct bs \<Longrightarrow> a \<notin> set bs \<Longrightarrow> c \<notin> set bs \<Longrightarrow> a \<noteq> c \<Longrightarrow> t = [] \<or> t = [c] \<Longrightarrow> distinct (a # bs @ t)"
  by auto

lemma sandboxMetrics_series:
  assumes "distinct (map cd_type (sb_conditions sb))"
  shows "distinct (map seriesOf (sandboxMetrics now sb))"
    and "s \<in> seriesOf ` set (sandboxMetrics now sb) \<Longrightarrow> hd (snd s) = sb_name sb \<and> fst s \<in> {DescInfo, DescCondition, DescPendingAge}"
proof -
  have shape: "map seriesOf (sandboxMetrics now sb) = seriesOf (infoMetric sb) #
      map (\<lambda>c. seriesOf (conditionMetric sb c)) (sb_conditions sb) @ map seriesOf (pendingAgeMetrics now sb)"
    by (simp add: sandboxMetrics_def)
  have "distinct (map (\<lambda>c. seriesOf (conditionMetric sb c)) (sb_conditions sb))"
    using assms by (auto simp: distinct_map seriesOf_def conditionMetric_def inj_on_def)
  moreover have "seriesOf (infoMetric sb) \<notin> set (map (\<lambda>c. seriesOf (conditionMetric sb c)) (sb_conditions sb))"
      "(DescPendingAge, l) \<notin> set (map (\<lambda>c. seriesOf (conditionMetric sb c)) (sb_conditions sb))"
      "seriesOf (infoMetric sb) \<noteq> (DescPendingAge, l)" for l
    by (auto simp: seriesOf_def conditionMetric_def infoMetric_def)
  ultimately have "distinct (seriesOf (infoMetric sb) # map (\<lambda>c. seriesOf (conditionMetric sb c)) (sb_conditions sb) @
      map seriesOf (pendingAgeMetrics now sb))"
    using pendingAge_cases [of now sb] by (rule distinct_between)
  with shape show "distinct (map seriesOf (sandboxMetrics now sb))" by simp
  show "hd (snd s) = sb_name sb \<and> fst s \<in> {DescInfo, DescCondition, DescPendingAge}"
    if "s \<in> seriesOf ` set (sandboxMetrics now sb)"
  proof -
    have "s \<in> set (map seriesOf (sandboxMetrics now sb))" using that by simp
    then consider "s = seriesOf (infoMetric sb)" | c where "s = seriesOf (conditionMetric sb c)"
      | "s = (DescPendingAge, [sb_name sb])"
      using pendingAge_cases [of now sb] unfolding shape by auto
    then show ?thesis by cases (simp_all add: seriesOf_def infoMetric_def conditionMetric_def)
  qed
qed

lemma concat_series:
  assumes "distinct (map sb_name sbs)" and "list_all (\<lambda>sb. distinct (map cd_type (sb_conditions sb))) sbs"
  shows "distinct (map seriesOf (concat (map (sandboxMetrics now) sbs))) \<and>
     (\<forall>s \<in> set (map seriesOf (concat (map (sandboxMetrics now) sbs))).
        hd (snd s) \<in> sb_name ` set sbs \<and> fst s \<in> {DescInfo, DescCondition, DescPendingAge})"
  using assms
proof (induction sbs)
  case (Cons sb sbs)
  have c: "distinct (map cd_type (sb_conditions sb))" using Cons.prems(2) by simp
  let ?rest = "map seriesOf (concat (map (sandboxMetrics now) sbs))"
  have ih: "distinct ?rest" "\<forall>s \<in> set ?rest. hd (snd s) \<in> sb_name ` set sbs \<and> fst s \<in> {DescInfo, DescCondition, DescPendingAge}"
    using Cons by simp_all
  have here: "\<forall>s \<in> set (map seriesOf (sandboxMetrics now sb)). hd (snd s) = sb_name sb \<and> fst s \<in> {DescInfo, DescCondition, DescPendingAge}"
    using sandboxMetrics_series(2) [OF c] by simp
  have "sb_name sb \<notin> sb_name ` set sbs" using Cons.prems(1) by simp
  then have "set (map seriesOf (sandboxMetrics now sb)) \<inter> set ?rest = {}" using here ih(2) by fastforce
  then have "distinct (map seriesOf (concat (map (sandboxMetrics now) (sb # sbs))))"
    using sandboxMetrics_series(1) [OF c] ih(1) by simp
  moreover have "\<forall>s \<in> set (map seriesOf (concat (map (sandboxMetrics now) (sb # sbs)))).
      hd (snd s) \<in> sb_name ` set (sb # sbs) \<and> fst s \<in> {DescInfo, DescCondition, DescPendingAge}"
    using here ih(2) by (simp add: ball_Un)
  ultimately show ?case by blast
qed simp

lemma terminating_series:
  assumes "distinct (map p_name pods)"
  shows "distinct (map seriesOf (List.map_filter (terminatingMetric lib now byUID) pods)) \<and>
     (\<forall>s \<in> set (map seriesOf (List.map_filter (terminatingMetric lib now byUID) pods)).
        fst s = DescTerminating \<and> last (snd s) \<in> p_name ` set pods)"
  using assms
proof (induction pods)
  case (Cons p pods)
  have m: "mt_desc m = DescTerminating \<and> last (mt_labels m) = p_name p" if "terminatingMetric lib now byUID p = Some m" for m
    using that by (auto simp: terminatingMetric_def split: option.splits)
  show ?case
  proof (cases "terminatingMetric lib now byUID p")
    case None
    then show ?thesis using Cons by (simp add: map_filter_simps)
  next
    case (Some m)
    have "seriesOf m \<notin> set (map seriesOf (List.map_filter (terminatingMetric lib now byUID) pods))"
    proof
      assume "seriesOf m \<in> set (map seriesOf (List.map_filter (terminatingMetric lib now byUID) pods))"
      moreover have "\<forall>s \<in> set (map seriesOf (List.map_filter (terminatingMetric lib now byUID) pods)). last (snd s) \<in> p_name ` set pods"
        using Cons by simp
      ultimately have "last (snd (seriesOf m)) \<in> p_name ` set pods" by blast
      with Cons.prems m [OF Some] show False by (simp add: seriesOf_def)
    qed
    then show ?thesis using Cons m [OF Some] Some by (simp add: map_filter_simps) (auto simp: seriesOf_def)
  qed
qed (simp add: map_filter_simps)

text \<open>
  C38: A scrape of a namespace whose names are unique never exports a series twice (the
  Prometheus registry would refuse the whole scrape), and the Sandboxes counted by mode add up
  to the Sandboxes listed.
\<close>

theorem Collect_series:
  assumes "wellKeyed sbs pods"
    and "result (Collect lib ns) [RTime now, RSandboxes sbs, RPods pods] = Some out"
  shows "distinct (map seriesOf out) \<and>
     sum_list (map (\<lambda>m. case mt_value m of Whole n \<Rightarrow> n | SecondsOf d \<Rightarrow> 0)
       (filter (\<lambda>m. mt_desc m = DescSandboxes) out)) = int (length sbs)"
proof -
  obtain byMode byUID o1 where l: "sandboxLoop now sbs [] Map.empty [] = (byMode, byUID, o1)"
    by (metis prod_cases3)
  note r = sandboxLoop_result [OF _ l, simplified]
  let ?pods = "List.map_filter (terminatingMetric lib now byUID) pods"
  have out: "out = concat (map (sandboxMetrics now) sbs) @ map modeMetric byMode @ ?pods"
    using assms(2) r by (simp add: Collect_def request_def asTime_def asSandboxes_def asPods_def l Let_def)
  note c = concat_series [of sbs now]
  note t = terminating_series [of pods lib now byUID]
  have w: "distinct (map sb_name sbs)" "list_all (\<lambda>sb. distinct (map cd_type (sb_conditions sb))) sbs" "distinct (map p_name pods)"
    using assms(1) by (simp_all add: wellKeyed_def)
  have m: "distinct (map seriesOf (map modeMetric byMode))" "\<forall>s \<in> set (map seriesOf (map modeMetric byMode)). fst s = DescSandboxes"
    using r by (auto simp: distinct_map seriesOf_def modeMetric_def inj_on_def)
  have "distinct (map seriesOf out)"
    unfolding out map_append distinct_append using c [OF w(1,2)] t [OF w(3)] m by fastforce
  moreover have "filter (\<lambda>m. mt_desc m = DescSandboxes) (concat (map (sandboxMetrics now) sbs)) = []"
    using c [OF w(1,2)] by (fastforce simp: filter_empty_conv seriesOf_def)
  moreover have "filter (\<lambda>m. mt_desc m = DescSandboxes) ?pods = []"
    using t [OF w(3)] by (fastforce simp: filter_empty_conv seriesOf_def)
  moreover have "filter (\<lambda>m. mt_desc m = DescSandboxes) (map modeMetric byMode) = map modeMetric byMode"
    by (simp add: filter_id_conv modeMetric_def)
  moreover have "sum_list (map (\<lambda>m. case mt_value m of Whole n \<Rightarrow> n | SecondsOf d \<Rightarrow> 0) (map modeMetric l)) = int (sum_list (map snd l))"
    for l by (induction l) (simp_all add: modeMetric_def)
  ultimately show ?thesis using r by (simp add: out)
qed

theorem Collect_series_witness:
  "\<exists>out. result (Collect sampleLib ''ns'') [RTime 0, RSandboxes [sampleLive], RPods []] = Some out \<and>
     distinct (map seriesOf out) \<and> out \<noteq> []"
proof -
  have w: "wellKeyed [sampleLive] []" by (simp add: wellKeyed_def sampleLive_def sampleTemplate_def)
  obtain out where out: "result (Collect sampleLib ''ns'') [RTime 0, RSandboxes [sampleLive], RPods []] = Some out"
    by (simp add: Collect_def request_def asTime_def asSandboxes_def asPods_def Let_def)
  then have "out \<noteq> []"
    by (auto simp: Collect_def request_def asTime_def asSandboxes_def asPods_def sandboxMetrics_def Let_def)
  with Collect_series [OF w out] out show ?thesis by blast
qed

end
