(* ===== verification/Buildinfo.thy ===== *)
theory Buildinfo
  imports Prelude
begin

text \<open>
  internal/buildinfo/buildinfo.go: what the binary was built from, out of the settings the Go
  toolchain stamps into it, and its one-line rendering. What \<open>debug.ReadBuildInfo\<close> and
  \<open>runtime.Version\<close> return is an argument.
\<close>

section \<open>Definitions\<close>

record Info =
  in_Version :: string
  in_Revision :: string
  in_Time :: string
  in_Modified :: bool
  in_GoVersion :: string

text \<open>The fields of \<open>debug.BuildInfo\<close> the code reads.\<close>

record buildInfo =
  bi_MainVersion :: string
  bi_GoVersion :: string
  bi_Settings :: "(string \<times> string) list"

definition readSetting :: "string \<times> string \<Rightarrow> Info \<Rightarrow> Info" where
  "readSetting s info =
     (if fst s = ''vcs.revision'' then info\<lparr>in_Revision := snd s\<rparr>
      else if fst s = ''vcs.time'' then info\<lparr>in_Time := snd s\<rparr>
      else if fst s = ''vcs.modified'' then info\<lparr>in_Modified := (snd s = ''true'')\<rparr>
      else info)"

definition FromBuildInfo :: "buildInfo \<Rightarrow> Info" where
  "FromBuildInfo bi =
     (let info = \<lparr>in_Version = bi_MainVersion bi, in_Revision = [], in_Time = [], in_Modified = False,
                  in_GoVersion = bi_GoVersion bi\<rparr>;
          info = (if in_Version info = [] then info\<lparr>in_Version := ''(devel)''\<rparr> else info);
          info = fold readSetting (bi_Settings bi) info
      in if in_Revision info = [] then info\<lparr>in_Revision := ''unknown''\<rparr> else info)"

definition Get :: "buildInfo option \<Rightarrow> string \<Rightarrow> Info" where
  "Get bi goVersion = (case bi of
     None \<Rightarrow> \<lparr>in_Version = ''unknown'', in_Revision = ''unknown'', in_Time = [], in_Modified = False,
              in_GoVersion = goVersion\<rparr>
   | Some b \<Rightarrow> FromBuildInfo b)"

definition ShortRevision :: "Info \<Rightarrow> string" where
  "ShortRevision i = (if length (in_Revision i) > 12 then take 12 (in_Revision i) else in_Revision i)"

definition String :: "Info \<Rightarrow> string" where
  "String i = in_Version i @ '' ('' @ ShortRevision i @
     (if in_Modified i then ''-dirty'' else []) @
     (if in_Time i \<noteq> [] then '', '' @ in_Time i else []) @ '') '' @ in_GoVersion i"

section \<open>Lemmas\<close>

lemma readSetting_fields [simp]:
  "in_Version (readSetting s i) = in_Version i" "in_GoVersion (readSetting s i) = in_GoVersion i"
  "in_Revision (readSetting s i) = (if fst s = ''vcs.revision'' then snd s else in_Revision i)"
  "in_Time (readSetting s i) = (if fst s = ''vcs.time'' then snd s else in_Time i)"
  "in_Modified (readSetting s i) = (if fst s = ''vcs.modified'' then snd s = ''true'' else in_Modified i)"
  by (simp_all add: readSetting_def)

text \<open>The last setting of a key, or nothing.\<close>

definition lastSetting :: "(string \<times> string) list \<Rightarrow> string \<Rightarrow> string" where
  "lastSetting ss k = mget (map_of (rev ss)) k"

lemma fold_settings:
  "in_Version (fold readSetting ss i) = in_Version i \<and> in_GoVersion (fold readSetting ss i) = in_GoVersion i \<and>
   in_Revision (fold readSetting ss i) = (case map_of (rev ss) ''vcs.revision'' of None \<Rightarrow> in_Revision i | Some v \<Rightarrow> v) \<and>
   in_Time (fold readSetting ss i) = (case map_of (rev ss) ''vcs.time'' of None \<Rightarrow> in_Time i | Some v \<Rightarrow> v) \<and>
   in_Modified (fold readSetting ss i) = (case map_of (rev ss) ''vcs.modified'' of None \<Rightarrow> in_Modified i | Some v \<Rightarrow> v = ''true'')"
proof (induction ss rule: rev_induct)
  case (snoc s ss)
  then show ?case by (cases s) simp
qed simp

section \<open>Properties\<close>

text \<open>
  Whatever settings the toolchain stamped, in any order and with repetitions: version and
  revision are never empty, each field is the last setting of its key, and the rendered line
  tells a clean build from a dirty one of the same version, revision and time.
\<close>

theorem FromBuildInfo_fields:
  "let i = FromBuildInfo bi; ss = bi_Settings bi in
     in_Version i = (if bi_MainVersion bi = [] then ''(devel)'' else bi_MainVersion bi) \<and>
     in_Revision i = (if lastSetting ss ''vcs.revision'' = [] then ''unknown'' else lastSetting ss ''vcs.revision'') \<and>
     in_Time i = lastSetting ss ''vcs.time'' \<and>
     (in_Modified i \<longleftrightarrow> lastSetting ss ''vcs.modified'' = ''true'') \<and> in_GoVersion i = bi_GoVersion bi \<and>
     length (ShortRevision i) = min 12 (length (in_Revision i)) \<and>
     String i \<noteq> String (i\<lparr>in_Modified := \<not> in_Modified i\<rparr>)"
proof -
  note f = fold_settings [of "bi_Settings bi"]
  show ?thesis
    by (auto simp: FromBuildInfo_def Let_def f lastSetting_def mget_def ShortRevision_def String_def
        split: option.splits)
qed

end
