(* ===== verification/Manager.thy ===== *)
theory Manager
  imports Metrics Buildinfo
begin

text \<open>
  internal/sessioncontroller/manager.go: the probe for the Sandbox CRD, the wait for it before
  the controller starts, the re-checks while it runs, and the status the probes of the kubelet
  get, and the start of the controller. What discovery answers, when the ticker fires, when the
  caches have synced and which library calls of the set-up fail are arguments.
\<close>

section \<open>Options\<close>

record managerOptions =
  mo_Namespace :: string
  mo_Release :: string
  mo_BindAddress :: string
  mo_ResyncPeriod :: duration
  mo_CRDCheckInterval :: duration
  mo_Lifecycle :: gcOptions

definition defaultCheckInterval :: duration where "defaultCheckInterval = 15 * nsPerSec"

definition withDefaultInterval :: "managerOptions \<Rightarrow> managerOptions" where
  "withDefaultInterval opts =
     (if mo_CRDCheckInterval opts = 0 then opts\<lparr>mo_CRDCheckInterval := defaultCheckInterval\<rparr> else opts)"

lemma withDefaultInterval_keeps [simp]:
  "mo_Namespace (withDefaultInterval opts) = mo_Namespace opts" "mo_Release (withDefaultInterval opts) = mo_Release opts"
  "mo_Lifecycle (withDefaultInterval opts) = mo_Lifecycle opts"
  by (simp_all add: withDefaultInterval_def)

text \<open>What the informer cache holds of Sandboxes and Pods: the release's runners in the namespace.\<close>

definition cacheSelector :: "managerOptions \<Rightarrow> strmap" where
  "cacheSelector opts = SelectorLabels ComponentRunner (mo_Release opts)"

definition cached :: "managerOptions \<Rightarrow> string \<Rightarrow> strmap \<Rightarrow> bool" where
  "cached opts namespace labels \<longleftrightarrow> namespace = mo_Namespace opts \<and> cacheSelector opts \<subseteq>\<^sub>m labels"

section \<open>The CRD probe\<close>

text \<open>The classes of discovery errors the code tells apart; the answer lists resource names.\<close>

datatype discoveryError = GroupDiscoveryFailed | DiscoveryNotFound | OtherDiscovery string

type_synonym discovery = "discoveryError + string list"

definition isNotFound :: "discoveryError \<Rightarrow> bool" where
  "isNotFound err \<longleftrightarrow> err = DiscoveryNotFound"

text \<open>The probe's flag and the gauge \<open>shock_crd_served\<close>.\<close>

record crdProbe =
  pr_served :: bool
  pr_gauge :: int

definition check :: "discovery \<Rightarrow> crdProbe \<Rightarrow> crdProbe \<times> (discoveryError + bool)" where
  "check res p =
     (case res of
        Inl err \<Rightarrow> (p\<lparr>pr_served := False\<rparr>,
          if err = GroupDiscoveryFailed \<or> isNotFound err then Inr False else Inl err)
      | Inr names \<Rightarrow>
          (if list_ex (\<lambda>n. n = ''sandboxes'') names then (p\<lparr>pr_served := True, pr_gauge := 1\<rparr>, Inr True)
           else (p\<lparr>pr_served := False, pr_gauge := 0\<rparr>, Inr False)))"

section \<open>Waiting for the CRD\<close>

text \<open>What ends a wait of the loop: the context or the ticker, with what discovery then answers.\<close>

datatype wakeup = Cancelled | Ticked discovery

datatype waitResult = Served | ListenFailed | ContextDone | TickerPanics | StillWaiting

fun waitLoop :: "wakeup list \<Rightarrow> crdProbe \<Rightarrow> crdProbe \<times> waitResult" where
  "waitLoop [] p = (p, StillWaiting)"
| "waitLoop (Cancelled # ws) p = (p, ContextDone)"
| "waitLoop (Ticked res # ws) p =
     (case check res p of
        (p, Inl err) \<Rightarrow> waitLoop ws p
      | (p, Inr ok) \<Rightarrow> (if ok then (p, Served) else waitLoop ws p))"

text \<open>\<open>time.NewTicker\<close> panics on an interval that is not positive.\<close>

definition tickerPanics :: "managerOptions \<Rightarrow> bool" where
  "tickerPanics opts \<longleftrightarrow> mo_CRDCheckInterval opts \<le> 0"

definition waitForCRD :: "managerOptions \<Rightarrow> discovery \<Rightarrow> bool \<Rightarrow> wakeup list \<Rightarrow> crdProbe \<Rightarrow> crdProbe \<times> waitResult" where
  "waitForCRD opts res listens ws p =
     (case check res p of
        (p, Inr True) \<Rightarrow> (p, Served)
      | (p, _) \<Rightarrow> (if \<not> listens then (p, ListenFailed) else if tickerPanics opts then (p, TickerPanics) else waitLoop ws p))"

section \<open>Running\<close>

text \<open>The re-checks once the caches have synced.\<close>

fun recheckLoop :: "wakeup list \<Rightarrow> crdProbe \<Rightarrow> crdProbe" where
  "recheckLoop [] p = p"
| "recheckLoop (Cancelled # ws) p = p"
| "recheckLoop (Ticked res # ws) p = recheckLoop ws (fst (check res p))"

text \<open>
  What the controller does: waits for the CRD, runs with its caches synced or not yet, has returned
  an error, or has crashed in a panic.
\<close>

datatype phase = Waiting | Started bool | Ended | Crashed

text \<open>What \<open>WaitForCacheSync\<close> has answered.\<close>

datatype cacheSync = Syncing | NeverSynced | Synced

definition runnable :: "managerOptions \<Rightarrow> cacheSync \<Rightarrow> wakeup list \<Rightarrow> crdProbe \<Rightarrow> crdProbe \<times> phase" where
  "runnable opts cs rs p =
     (case cs of Syncing \<Rightarrow> (p, Started False)
      | NeverSynced \<Rightarrow> (p, Ended)
      | Synced \<Rightarrow> (if tickerPanics opts then (p, Crashed) else (recheckLoop rs p, Started True)))"

text \<open>
  \<open>Run\<close> from its start: the first check, whether the wait could listen, the wakeups of the
  wait, what the wait for the caches has answered since, and the wakeups after that.
\<close>

definition managerRun :: "managerOptions \<Rightarrow> discovery \<Rightarrow> bool \<Rightarrow> wakeup list \<Rightarrow> cacheSync \<Rightarrow> wakeup list \<Rightarrow> crdProbe
    \<Rightarrow> crdProbe \<times> phase" where
  "managerRun opts res listens ws cs rs p =
     (let opts = withDefaultInterval opts in
      case waitForCRD opts res listens ws p of
        (p, Served) \<Rightarrow> runnable opts cs rs p
      | (p, StillWaiting) \<Rightarrow> (p, Waiting)
      | (p, TickerPanics) \<Rightarrow> (p, Crashed)
      | (p, _) \<Rightarrow> (p, Ended))"

text \<open>
  The start, in the order of the code: the errors of the library calls it makes, \<open>None\<close> for
  success, and what runs in the end: the series \<open>shock_build_info\<close>, what the cache selects, the
  reconciler, and the namespace the collector scrapes.
\<close>

record setupCalls =
  su_discoveryClient :: "string option"
  su_newManager :: "string option"
  su_complete :: "string option"
  su_addRunnable :: "string option"
  su_healthz :: "string option"
  su_readyz :: "string option"

record running =
  rn_buildInfo :: "string list"
  rn_cache :: "string \<times> strmap"
  rn_reconciler :: reconciler
  rn_collector :: string

datatype runError = SetupFailed string | CreatingManager string | WaitFailed waitResult

definition newReconciler :: "managerOptions \<Rightarrow> reconciler" where
  "newReconciler opts = \<lparr>rc_Release = mo_Release opts, rc_Options = mo_Lifecycle opts\<rparr>"

definition startManager :: "setupCalls \<Rightarrow> Info \<Rightarrow> managerOptions \<Rightarrow> runError + running" where
  "startManager su bi opts =
     (case su_newManager su of Some e \<Rightarrow> Inl (CreatingManager e) | None \<Rightarrow>
      (case su_complete su of Some e \<Rightarrow> Inl (SetupFailed e) | None \<Rightarrow>
      (case su_addRunnable su of Some e \<Rightarrow> Inl (SetupFailed e) | None \<Rightarrow>
      (case su_healthz su of Some e \<Rightarrow> Inl (SetupFailed e) | None \<Rightarrow>
      (case su_readyz su of Some e \<Rightarrow> Inl (SetupFailed e) | None \<Rightarrow>
        Inr \<lparr>rn_buildInfo = [in_Version bi, in_Revision bi, in_GoVersion bi],
             rn_cache = (mo_Namespace opts, cacheSelector opts),
             rn_reconciler = newReconciler opts, rn_collector = mo_Namespace opts\<rparr>)))))"

text \<open>\<open>None\<close> while it waits for the CRD.\<close>

definition startUp :: "setupCalls \<Rightarrow> Info \<Rightarrow> managerOptions \<Rightarrow> discovery \<Rightarrow> bool \<Rightarrow> wakeup list \<Rightarrow> crdProbe
    \<Rightarrow> crdProbe \<times> (runError + running) option" where
  "startUp su bi opts res listens ws p =
     (let opts = withDefaultInterval opts in
      case su_discoveryClient su of Some e \<Rightarrow> (p, Some (Inl (SetupFailed e)))
      | None \<Rightarrow> (case waitForCRD opts res listens ws p of
          (p, Served) \<Rightarrow> (p, Some (startManager su bi opts))
        | (p, StillWaiting) \<Rightarrow> (p, None)
        | (p, r) \<Rightarrow> (p, Some (Inl (WaitFailed r)))))"

section \<open>Probes of the kubelet\<close>

definition StatusOK :: nat where "StatusOK = 200"
definition StatusServiceUnavailable :: nat where "StatusServiceUnavailable = 503"

definition healthz :: "phase \<Rightarrow> nat option" where
  "healthz ph = (if ph = Ended \<or> ph = Crashed then None else Some StatusOK)"

definition readyz :: "crdProbe \<Rightarrow> phase \<Rightarrow> nat option" where
  "readyz p ph = (case ph of
     Waiting \<Rightarrow> Some StatusServiceUnavailable
   | Started synced \<Rightarrow> Some (if \<not> pr_served p then StatusServiceUnavailable
       else if \<not> synced then StatusServiceUnavailable else StatusOK)
   | _ \<Rightarrow> None)"

section \<open>Lemmas\<close>

text \<open>A discovery answer that lists the resource, and the answers up to a cancellation.\<close>

definition lists :: "discovery \<Rightarrow> bool" where
  "lists res \<longleftrightarrow> (\<exists>names. res = Inr names \<and> ''sandboxes'' \<in> set names)"

fun ticks :: "wakeup list \<Rightarrow> discovery list" where
  "ticks [] = []"
| "ticks (Cancelled # ws) = []"
| "ticks (Ticked res # ws) = res # ticks ws"

lemma check_served [simp]: "pr_served (fst (check res p)) \<longleftrightarrow> lists res"
  by (auto simp: check_def lists_def list_ex_iff split: sum.splits)

lemma check_result: "snd (check res p) = Inr True \<longleftrightarrow> lists res"
  by (auto simp: check_def lists_def list_ex_iff split: sum.splits)

lemma waitLoop_served: "snd (waitLoop ws p) = Served \<longleftrightarrow> (\<exists>res \<in> set (ticks ws). lists res)"
proof (induction ws p rule: waitLoop.induct)
  case (3 res ws p)
  obtain q x where c: "check res p = (q, x)" by fastforce
  have "lists res \<longleftrightarrow> x = Inr True" using check_result [of res p] by (simp add: c)
  with 3 c show ?case by (cases x) auto
qed auto

lemma waitLoop_probe: "snd (waitLoop ws p) = Served \<Longrightarrow> pr_served (fst (waitLoop ws p))"
proof (induction ws p rule: waitLoop.induct)
  case (3 res ws p)
  obtain q x where c: "check res p = (q, x)" by fastforce
  have "pr_served q \<longleftrightarrow> x = Inr True" using check_result [of res p] check_served [of res p] by (simp add: c)
  with 3 c show ?case by (cases x) (auto split: if_splits)
qed auto

lemma waitForCRD_served:
  "snd (waitForCRD opts res listens ws p) = Served \<longleftrightarrow>
     lists res \<or> listens \<and> \<not> tickerPanics opts \<and> (\<exists>d \<in> set (ticks ws). lists d)"
  and waitForCRD_probe: "snd (waitForCRD opts res listens ws p) = Served \<Longrightarrow> pr_served (fst (waitForCRD opts res listens ws p))"
proof -
  obtain q x where c: "check res p = (q, x)" by fastforce
  have l: "lists res \<longleftrightarrow> x = Inr True" "pr_served q \<longleftrightarrow> x = Inr True"
    using check_result [of res p] check_served [of res p] by (simp_all add: c)
  have w: "waitForCRD opts res listens ws p = (if x = Inr True then (q, Served) else if \<not> listens then (q, ListenFailed)
      else if tickerPanics opts then (q, TickerPanics) else waitLoop ws q)"
    by (simp add: waitForCRD_def c split: sum.splits bool.splits)
  show "snd (waitForCRD opts res listens ws p) = Served \<longleftrightarrow>
      lists res \<or> listens \<and> \<not> tickerPanics opts \<and> (\<exists>d \<in> set (ticks ws). lists d)"
    using l waitLoop_served by (simp add: w)
  show "snd (waitForCRD opts res listens ws p) = Served \<Longrightarrow> pr_served (fst (waitForCRD opts res listens ws p))"
    using l waitLoop_probe by (simp add: w split: if_splits)
qed

lemma recheckLoop_probe: "pr_served (recheckLoop rs p) \<longleftrightarrow> (if ticks rs = [] then pr_served p else lists (last (ticks rs)))"
  by (induction rs p rule: recheckLoop.induct) auto

text \<open>What a controller that has started is made of.\<close>

lemma startUp_running:
  assumes "snd (startUp su bi opts res listens ws p) = Some (Inr rn)"
  shows "rn_cache rn = (mo_Namespace opts, cacheSelector opts)" and "rn_reconciler rn = newReconciler opts"
    and "rn_collector rn = mo_Namespace opts" and "pr_served (fst (startUp su bi opts res listens ws p))"
proof -
  let ?opts = "withDefaultInterval opts"
  obtain q r where w: "waitForCRD ?opts res listens ws p = (q, r)" by fastforce
  have r: "r = Served" "startManager su bi ?opts = Inr rn" "fst (startUp su bi opts res listens ws p) = q"
    using assms by (auto simp: startUp_def w Let_def split: option.splits waitResult.splits)
  then show "rn_cache rn = (mo_Namespace opts, cacheSelector opts)" "rn_reconciler rn = newReconciler opts"
      "rn_collector rn = mo_Namespace opts"
    by (auto simp: startManager_def newReconciler_def cacheSelector_def split: option.splits)
  show "pr_served (fst (startUp su bi opts res listens ws p))"
    using waitForCRD_probe [of ?opts res listens ws p] r by (simp add: w)
qed

section \<open>Properties\<close>

text \<open>
  C39: The controller reports ready exactly when the CRD was found served, at the start or at a
  later tick of the wait before the context ended, the caches have synced since, and the latest
  re-check still found it served. With a negative check interval it is never ready: it panics at
  the latest once the caches have synced.
\<close>

theorem readyz_iff:
  "(case managerRun opts res listens ws cs rs p of (q, ph) \<Rightarrow> readyz q ph) = Some StatusOK \<longleftrightarrow>
     0 \<le> mo_CRDCheckInterval opts \<and> (lists res \<or> listens \<and> (\<exists>d \<in> set (ticks ws). lists d)) \<and> cs = Synced \<and>
     (ticks rs = [] \<or> lists (last (ticks rs)))"
proof -
  let ?opts = "withDefaultInterval opts"
  obtain q r where w: "waitForCRD ?opts res listens ws p = (q, r)" by fastforce
  have s: "r = Served \<longleftrightarrow> lists res \<or> listens \<and> \<not> tickerPanics ?opts \<and> (\<exists>d \<in> set (ticks ws). lists d)"
    using waitForCRD_served [of ?opts res listens ws p] by (simp add: w)
  have t: "\<not> tickerPanics ?opts \<longleftrightarrow> 0 \<le> mo_CRDCheckInterval opts"
    by (auto simp: tickerPanics_def withDefaultInterval_def defaultCheckInterval_def nsPerSec_def)
  have "r = Served \<Longrightarrow> pr_served q" using waitForCRD_probe [of ?opts res listens ws p] by (simp add: w)
  then have "(case managerRun opts res listens ws cs rs p of (q, ph) \<Rightarrow> readyz q ph) = Some StatusOK \<longleftrightarrow>
      r = Served \<and> cs = Synced \<and> \<not> tickerPanics ?opts \<and> (ticks rs = [] \<or> lists (last (ticks rs)))"
    by (cases r; cases cs)
      (auto simp: managerRun_def runnable_def w readyz_def recheckLoop_probe StatusOK_def StatusServiceUnavailable_def)
  then show ?thesis unfolding s t by blast
qed

text \<open>The probe after a sequence of checks.\<close>

definition checks :: "discovery list \<Rightarrow> crdProbe \<Rightarrow> crdProbe" where
  "checks ds p = fold (\<lambda>d p. fst (check d p)) ds p"

lemma checks_gauge:
  "pr_gauge (checks ds p) = (case filter (\<lambda>d. \<not> isl d) ds of [] \<Rightarrow> pr_gauge p
     | l \<Rightarrow> if lists (last l) then 1 else 0)"
proof (induction ds rule: rev_induct)
  case (snoc d ds)
  then show ?case
    by (cases d) (auto simp: checks_def check_def lists_def list_ex_iff split: list.splits)
qed (simp add: checks_def)

text \<open>
  C40: The gauge \<open>shock_crd_served\<close> follows the answers of discovery that list resources, and
  only those: it is 1 exactly when the last of them listed the Sandboxes. A CRD that is removed
  together with its group, which discovery reports as not found, leaves the gauge at 1 while the
  probe and readiness say it is not served.
\<close>

theorem crd_gauge_follows_listings:
  "pr_gauge (checks (ds @ [d]) p) = (case filter (\<lambda>d. \<not> isl d) (ds @ [d]) of [] \<Rightarrow> pr_gauge p
     | l \<Rightarrow> if lists (last l) then 1 else 0) \<and>
   (pr_served (checks (ds @ [d]) p) \<longleftrightarrow> lists d) \<and>
   pr_gauge (checks [Inr [''sandboxes''], Inl DiscoveryNotFound] p) = 1 \<and>
   \<not> pr_served (checks [Inr [''sandboxes''], Inl DiscoveryNotFound] p)"
proof -
  have "pr_served (checks (ds @ [d]) p) \<longleftrightarrow> lists d" by (simp add: checks_def)
  moreover have "pr_gauge (checks [Inr [''sandboxes''], Inl DiscoveryNotFound] p) = 1"
      "\<not> pr_served (checks [Inr [''sandboxes''], Inl DiscoveryNotFound] p)"
    by (simp_all add: checks_def check_def)
  ultimately show ?thesis using checks_gauge by simp
qed

end
