(* ===== verification/GoFlags.thy ===== *)
theory GoFlags
  imports GoTime
begin

text \<open>
  What cmd/shock uses of the Go standard library to read its settings: \<open>filepath.Base\<close>,
  \<open>strconv.ParseBool\<close>, \<open>strconv.ParseInt\<close> with base 0, \<open>time.ParseDuration\<close> with the
  float64 arithmetic of its fractions, and the flag package's parser.
\<close>

section \<open>Paths and booleans\<close>

definition Base :: "string \<Rightarrow> string" where
  "Base p = (if p = [] then ''.'' else
     let q = trimRightWhile (\<lambda>c. c = CHR ''/'') p;
         e = rev (takeWhile (\<lambda>c. c \<noteq> CHR ''/'') (rev q))
     in if e = [] then ''/'' else e)"

definition ParseBool :: "string \<Rightarrow> bool option" where
  "ParseBool s =
     (if s \<in> {''1'', ''t'', ''T'', ''TRUE'', ''true'', ''True''} then Some True
      else if s \<in> {''0'', ''f'', ''F'', ''FALSE'', ''false'', ''False''} then Some False
      else None)"

section \<open>Integers with a base prefix\<close>

definition lowerChar :: "char \<Rightarrow> nat" where
  "lowerChar c = (if isUpperRune (byte c) then byte c + 32 else byte c)"

definition digitOf :: "char \<Rightarrow> nat option" where
  "digitOf c = (if isDigit c then Some (byte c - 48)
     else if 97 \<le> lowerChar c \<and> lowerChar c \<le> 122 then Some (lowerChar c - 87) else None)"

text \<open>The base of a literal and its digits.\<close>

definition basePrefix :: "string \<Rightarrow> nat \<times> string" where
  "basePrefix s = (case s of
     c # rest \<Rightarrow>
       (if c \<noteq> CHR ''0'' then (10, s)
        else case rest of
          d # e # ds \<Rightarrow>
            (if lowerChar d = 98 then (2, e # ds) else if lowerChar d = 111 then (8, e # ds)
             else if lowerChar d = 120 then (16, e # ds) else (8, rest))
        | _ \<Rightarrow> (8, rest))
   | [] \<Rightarrow> (10, []))"

fun uintLoop :: "nat \<Rightarrow> string \<Rightarrow> nat \<Rightarrow> nat option" where
  "uintLoop base [] n = Some n"
| "uintLoop base (c # cs) n =
     (if c = CHR ''_'' then uintLoop base cs n
      else case digitOf c of None \<Rightarrow> None
        | Some d \<Rightarrow> (if base \<le> d then None else uintLoop base cs (n * base + d)))"

text \<open>
  Underscores may stand between digits and after a base prefix only. The state is what was
  seen last: a digit or prefix, an underscore, or something else.
\<close>

datatype lastSeen = AtDigit | AtUnderscore | AtOther

fun underscoreScan :: "bool \<Rightarrow> lastSeen \<Rightarrow> string \<Rightarrow> bool" where
  "underscoreScan hex l [] \<longleftrightarrow> l \<noteq> AtUnderscore"
| "underscoreScan hex l (c # cs) \<longleftrightarrow>
     (if isDigit c \<or> hex \<and> 97 \<le> lowerChar c \<and> lowerChar c \<le> 102 then underscoreScan hex AtDigit cs
      else if c = CHR ''_'' then l = AtDigit \<and> underscoreScan hex AtUnderscore cs
      else l \<noteq> AtUnderscore \<and> underscoreScan hex AtOther cs)"

definition underscoreOK :: "string \<Rightarrow> bool" where
  "underscoreOK s = (case s of
     c # d # ds \<Rightarrow> (if c = CHR ''0'' \<and> lowerChar d \<in> {98, 111, 120} then underscoreScan (lowerChar d = 120) AtDigit ds
       else underscoreScan False AtOther s)
   | _ \<Rightarrow> underscoreScan False AtOther s)"

definition ParseUintBase0 :: "string \<Rightarrow> nat option" where
  "ParseUintBase0 s =
     (if s = [] then None
      else case basePrefix s of (base, digits) \<Rightarrow>
        (case uintLoop base digits 0 of None \<Rightarrow> None
         | Some n \<Rightarrow> (if 2 ^ 64 \<le> n then None
             else if CHR ''_'' \<in> set digits \<and> \<not> underscoreOK s then None else Some n)))"

definition ParseIntBase0 :: "string \<Rightarrow> int option" where
  "ParseIntBase0 s = (case s of [] \<Rightarrow> None
     | c # cs \<Rightarrow>
       (let neg = (c = CHR ''-''); t = (if neg \<or> c = CHR ''+'' then cs else s)
        in case ParseUintBase0 t of None \<Rightarrow> None
          | Some n \<Rightarrow> (let i = (if neg then - int n else int n) in if inInt64 i then Some i else None)))"

section \<open>Durations\<close>

text \<open>Float64: a positive rational, as numerator and denominator, rounded to 53 bits, ties to even.\<close>

fun bitLen :: "nat \<Rightarrow> nat" where
  "bitLen n = (if n = 0 then 0 else Suc (bitLen (n div 2)))"

declare bitLen.simps [simp del]

definition roundEven :: "nat \<Rightarrow> nat \<Rightarrow> nat" where
  "roundEven n d = (let q = n div d; r = n mod d in
     if 2 * r < d then q else if d < 2 * r then Suc q else if even q then q else Suc q)"

definition scaled :: "int \<Rightarrow> nat \<times> nat \<Rightarrow> nat \<times> nat" where
  "scaled e x = (if 0 \<le> e then (fst x, snd x * 2 ^ nat e) else (fst x * 2 ^ nat (- e), snd x))"

definition float64 :: "nat \<times> nat \<Rightarrow> nat \<times> nat" where
  "float64 x = (if fst x = 0 then (0, 1) else
     let e0 = int (bitLen (fst x)) - int (bitLen (snd x)) - 53;
         (n, d) = scaled e0 x;
         e = (if 2 ^ 53 * d \<le> n then e0 + 1 else e0);
         (n, d) = scaled e x;
         m = roundEven n d
     in (if 0 \<le> e then (m * 2 ^ nat e, 1) else (m, 2 ^ nat (- e))))"

definition mulF :: "nat \<times> nat \<Rightarrow> nat \<times> nat \<Rightarrow> nat \<times> nat" where
  "mulF x y = float64 (fst x * fst y, snd x * snd y)"

definition divF :: "nat \<times> nat \<Rightarrow> nat \<times> nat \<Rightarrow> nat \<times> nat" where
  "divF x y = float64 (fst x * snd y, snd x * fst y)"

definition truncF :: "nat \<times> nat \<Rightarrow> nat" where
  "truncF x = fst x div snd x"

text \<open>Leading digits: the number and the rest, with the overflow check of every digit.\<close>

fun leadingInt :: "string \<Rightarrow> nat \<Rightarrow> (nat \<times> string) option" where
  "leadingInt [] x = Some (x, [])"
| "leadingInt (c # cs) x =
     (if \<not> isDigit c then Some (x, c # cs)
      else if 2 ^ 63 div 10 < x then None
      else let x = x * 10 + digitVal c in if 2 ^ 63 < x then None else leadingInt cs x)"

text \<open>The digits of a fraction, those that overflow dropped; the power of ten is the scale.\<close>

fun leadingFraction :: "string \<Rightarrow> nat \<Rightarrow> nat \<Rightarrow> bool \<Rightarrow> nat \<times> nat \<times> string" where
  "leadingFraction [] x k over = (x, k, [])"
| "leadingFraction (c # cs) x k over =
     (if \<not> isDigit c then (x, k, c # cs)
      else if over then leadingFraction cs x k over
      else if (2 ^ 63 - 1) div 10 < x then leadingFraction cs x k True
      else let y = x * 10 + digitVal c in
        if 2 ^ 63 < y then leadingFraction cs x k True else leadingFraction cs y (Suc k) over)"

definition unitMap :: "string \<Rightarrow> nat option" where
  "unitMap u = map_of [(''ns'', 1), (''us'', 1000), ([char_of (0xC2::nat), char_of (0xB5::nat), CHR ''s''], 1000),
     ([char_of (0xCE::nat), char_of (0xBC::nat), CHR ''s''], 1000), (''ms'', 1000000), (''s'', 1000000000),
     (''m'', 60000000000), (''h'', 3600000000000)] u"

definition isUnitChar :: "char \<Rightarrow> bool" where
  "isUnitChar c \<longleftrightarrow> c \<noteq> CHR ''.'' \<and> \<not> isDigit c"

text \<open>One number with its unit: its value in nanoseconds and the rest.\<close>

definition fractionPart :: "string \<Rightarrow> nat \<times> nat \<times> string \<times> bool" where
  "fractionPart s = (case s of
     c # cs \<Rightarrow> (if c = CHR ''.'' then
         (let (f, k, t) = leadingFraction cs 0 0 False in (f, k, t, length t \<noteq> length cs))
       else (0, 0, s, False))
   | [] \<Rightarrow> (0, 0, [], False))"

definition unitValue :: "nat \<Rightarrow> nat \<Rightarrow> nat \<Rightarrow> nat \<Rightarrow> nat option" where
  "unitValue v f k u =
     (if 2 ^ 63 div u < v then None
      else let v = v * u in
        if f > 0 then
          (let v = v + truncF (mulF (float64 (f, 1)) (divF (u, 1) (10 ^ k, 1)))
           in if 2 ^ 63 < v then None else Some v)
        else Some v)"

definition durationTerm :: "string \<Rightarrow> (nat \<times> string) option" where
  "durationTerm s =
     (if s = [] \<or> \<not> (hd s = CHR ''.'' \<or> isDigit (hd s)) then None
      else case leadingInt s 0 of None \<Rightarrow> None
        | Some (v, t) \<Rightarrow>
          (case fractionPart t of (f, k, r, post) \<Rightarrow>
             (if length t = length s \<and> \<not> post then None
              else let u = takeWhile isUnitChar r in
              if u = [] then None
              else case unitMap u of None \<Rightarrow> None
                | Some n \<Rightarrow> (case unitValue v f k n of None \<Rightarrow> None
                    | Some d \<Rightarrow> Some (d, dropWhile isUnitChar r)))))"

text \<open>Every term consumes input, at least its unit.\<close>

lemma leadingInt_length: "leadingInt s x = Some (v, t) \<Longrightarrow> length t \<le> length s"
  by (induction s x rule: leadingInt.induct) (auto simp: Let_def split: if_splits)

lemma leadingFraction_length: "leadingFraction s x k over = (f, m, t) \<Longrightarrow> length t \<le> length s"
  by (induction s x k over rule: leadingFraction.induct) (auto simp: Let_def split: if_splits)

lemma fractionPart_length: "fractionPart s = (f, k, r, post) \<Longrightarrow> length r \<le> length s"
  by (auto simp: fractionPart_def split: list.splits if_splits prod.splits dest!: leadingFraction_length)

lemma dropWhile_shorter: "takeWhile P xs \<noteq> [] \<Longrightarrow> length (dropWhile P xs) < length xs"
  by (metis append_Nil length_append length_greater_0_conv less_add_same_cancel2 takeWhile_dropWhile_id)

lemma durationTerm_shorter:
  assumes "durationTerm s = Some (v, t)"
  shows "length t < length s"
proof -
  obtain i r f k q post where p: "leadingInt s 0 = Some (i, r)" "fractionPart r = (f, k, q, post)"
      "takeWhile isUnitChar q \<noteq> []" "t = dropWhile isUnitChar q"
    using assms by (auto simp: durationTerm_def Let_def split: if_splits option.splits prod.splits)
  have "length t < length q" using dropWhile_shorter [OF p(3)] by (simp add: p(4))
  also have "\<dots> \<le> length r" by (rule fractionPart_length [OF p(2)])
  also have "\<dots> \<le> length s" by (rule leadingInt_length [OF p(1)])
  finally show ?thesis .
qed

function durationSum :: "string \<Rightarrow> nat \<Rightarrow> nat option" where
  "durationSum [] d = Some d"
| "durationSum (c # cs) d =
     (case durationTerm (c # cs) of None \<Rightarrow> None
      | Some (v, t) \<Rightarrow> (if 2 ^ 63 < d + v then None else durationSum t (d + v)))"
  by pat_completeness auto
termination
  by (relation "measure (length \<circ> fst)") (auto dest!: durationTerm_shorter)

definition ParseDuration :: "string \<Rightarrow> duration option" where
  "ParseDuration s =
     (let signed = (s \<noteq> [] \<and> (hd s = CHR ''-'' \<or> hd s = CHR ''+'')); neg = (s \<noteq> [] \<and> hd s = CHR ''-'');
          s = (if signed then tl s else s)
      in if s = ''0'' then Some 0
         else if s = [] then None
         else case durationSum s 0 of None \<Rightarrow> None
           | Some d \<Rightarrow> (if neg then Some (- int d) else if 2 ^ 63 - 1 < d then None else Some (int d)))"

section \<open>Flags\<close>

text \<open>A flag's value, of the kind the flag was declared with, and what can go wrong.\<close>

datatype flagValue = StringValue string | DurationValue duration | BoolValue bool | IntValue int

type_synonym flagSet = "string \<rightharpoonup> flagValue"

datatype flagError = BadFlagSyntax string | FlagNotDefined string | HelpRequested
  | InvalidFlagValue string string | NeedsArgument string

text \<open>\<open>Value.Set\<close>: the value of the kind of the one the flag has.\<close>

definition setFlag :: "flagSet \<Rightarrow> string \<Rightarrow> string \<Rightarrow> flagError + flagSet" where
  "setFlag fs name v =
     (case fs name of
        None \<Rightarrow> Inl (if name = ''help'' \<or> name = ''h'' then HelpRequested else FlagNotDefined name)
      | Some old \<Rightarrow>
        (case (case old of StringValue _ \<Rightarrow> Some (StringValue v)
             | DurationValue _ \<Rightarrow> map_option DurationValue (ParseDuration v)
             | BoolValue _ \<Rightarrow> map_option BoolValue (ParseBool v)
             | IntValue _ \<Rightarrow> map_option IntValue (ParseIntBase0 v)) of
           None \<Rightarrow> Inl (InvalidFlagValue name v)
         | Some new \<Rightarrow> Inr (fs(name \<mapsto> new))))"

definition isBoolFlag :: "flagSet \<Rightarrow> string \<Rightarrow> bool" where
  "isBoolFlag fs name = (case fs name of Some (BoolValue _) \<Rightarrow> True | _ \<Rightarrow> False)"

text \<open>The name and the value after the first equals sign that is not the first character.\<close>

definition splitFlag :: "string \<Rightarrow> string \<times> string option" where
  "splitFlag s = (case s of [] \<Rightarrow> ([], None)
     | c # cs \<Rightarrow> (case dropWhile (\<lambda>c. c \<noteq> CHR ''='') cs of [] \<Rightarrow> (s, None)
        | _ # v \<Rightarrow> (c # takeWhile (\<lambda>c. c \<noteq> CHR ''='') cs, Some v)))"

text \<open>
  One flag of \<open>FlagSet.Parse\<close>: the flags after it and the arguments left, or nothing at the first
  argument that is not a flag and at \<^verbatim>\<open>--\<close>. A flag that is not defined is an error before its
  argument is looked at; a boolean flag takes no separate argument.
\<close>

definition parseOne :: "flagSet \<Rightarrow> string \<Rightarrow> string list \<Rightarrow> flagError + (flagSet \<times> string list) option" where
  "parseOne fs s args =
     (if length s < 2 \<or> hd s \<noteq> CHR ''-'' \<or> s = ''--'' then Inr None
      else let rest = (if s ! 1 = CHR ''-'' then drop 2 s else drop 1 s) in
      if hd rest = CHR ''-'' \<or> hd rest = CHR ''='' then Inl (BadFlagSyntax s)
      else let (name, value) = splitFlag rest in
      if fs name \<noteq> None \<and> \<not> isBoolFlag fs name \<and> value = None \<and> args = [] then Inl (NeedsArgument name)
      else let (v, args) = (case value of Some v \<Rightarrow> (v, args)
             | None \<Rightarrow> (if fs name = None \<or> isBoolFlag fs name then (''true'', args) else (hd args, tl args)))
      in case setFlag fs name v of Inl e \<Rightarrow> Inl e | Inr fs \<Rightarrow> Inr (Some (fs, args)))"

lemma parseOne_consumes: "parseOne fs s args = Inr (Some (fs', args')) \<Longrightarrow> length args' \<le> length args"
  by (auto simp: parseOne_def Let_def split: if_splits prod.splits option.splits sum.splits)

function parseFlags :: "flagSet \<Rightarrow> string list \<Rightarrow> flagError + flagSet" where
  "parseFlags fs [] = Inr fs"
| "parseFlags fs (s # args) = (case parseOne fs s args of
     Inl e \<Rightarrow> Inl e
   | Inr None \<Rightarrow> Inr fs
   | Inr (Some (fs', args')) \<Rightarrow> parseFlags fs' args')"
  by pat_completeness auto

termination
  by (relation "measure (\<lambda>(fs, args). length args)") (auto dest!: parseOne_consumes)

text \<open>Setting a flag keeps which flags there are and of which kind.\<close>

fun sameKind :: "flagValue \<Rightarrow> flagValue \<Rightarrow> bool" where
  "sameKind (StringValue _) (StringValue _) = True"
| "sameKind (DurationValue _) (DurationValue _) = True"
| "sameKind (BoolValue _) (BoolValue _) = True"
| "sameKind (IntValue _) (IntValue _) = True"
| "sameKind _ _ = False"

lemma sameKind_refl [simp]: "sameKind v v"
  by (cases v) simp_all

lemma sameKind_trans: "sameKind u v \<Longrightarrow> sameKind v w \<Longrightarrow> sameKind u w"
  by (cases u; cases v; cases w) simp_all

definition sameFlags :: "flagSet \<Rightarrow> flagSet \<Rightarrow> bool" where
  "sameFlags fs fs' \<longleftrightarrow> (\<forall>name. case fs name of None \<Rightarrow> fs' name = None
     | Some v \<Rightarrow> \<exists>v'. fs' name = Some v' \<and> sameKind v v')"

lemma sameFlags_refl [simp]: "sameFlags fs fs"
  by (simp add: sameFlags_def split: option.splits)

lemma sameFlags_trans:
  assumes "sameFlags fs fs'" and "sameFlags fs' fs''"
  shows "sameFlags fs fs''"
  unfolding sameFlags_def
proof
  fix name
  show "case fs name of None \<Rightarrow> fs'' name = None | Some v \<Rightarrow> \<exists>v'. fs'' name = Some v' \<and> sameKind v v'"
    using assms [unfolded sameFlags_def, THEN spec, of name] sameKind_trans
    by (cases "fs name") auto
qed

lemma setFlag_kind: "setFlag fs name v = Inr fs' \<Longrightarrow> sameFlags fs fs'"
  by (auto simp: setFlag_def sameFlags_def split: option.splits flagValue.splits if_splits)

lemma parseOne_kind: "parseOne fs s args = Inr (Some (fs', args')) \<Longrightarrow> sameFlags fs fs'"
  by (auto simp: parseOne_def Let_def split: if_splits prod.splits option.splits sum.splits intro: setFlag_kind)

lemma parseFlags_kind: "parseFlags fs args = Inr fs' \<Longrightarrow> sameFlags fs fs'"
proof (induction fs args rule: parseFlags.induct)
  case (2 fs s args)
  then show ?case
    by (auto split: sum.splits option.splits intro: sameFlags_trans [OF parseOne_kind])
qed simp

end
