(* ===== verification/Cmd.thy ===== *)
theory Cmd
  imports Manager Buildinfo GoFlags HookProps
begin

text \<open>
  cmd/shock/main.go: the dispatch on the arguments, the hook process with its exit codes and its
  time budget, the settings of the session controller from flags, environment and defaults, and
  its signals.
\<close>

section \<open>Environment\<close>

definition envOr :: "(string \<Rightarrow> string) \<Rightarrow> string \<Rightarrow> string \<Rightarrow> string" where
  "envOr getenv key def = (let v = getenv key in if v \<noteq> [] then v else def)"

definition envDuration :: "(string \<Rightarrow> string) \<Rightarrow> string \<Rightarrow> duration \<Rightarrow> duration" where
  "envDuration getenv key def =
     (let v = getenv key in
      if v \<noteq> [] then (case ParseDuration v of Some d \<Rightarrow> d | None \<Rightarrow> def) else def)"

text \<open>An invalid integer ends the process with code 2.\<close>

definition envInt :: "(string \<Rightarrow> string) \<Rightarrow> string \<Rightarrow> int \<Rightarrow> int + int" where
  "envInt getenv key def =
     (let v = getenv key in
      if v = [] then Inr def
      else case ParseInt v of None \<Rightarrow> Inl 2 | Some n \<Rightarrow> (if n < 0 then Inl 2 else Inr n))"

definition envBool :: "(string \<Rightarrow> string) \<Rightarrow> string \<Rightarrow> bool \<Rightarrow> bool" where
  "envBool getenv key def =
     (let v = getenv key in
      if v \<noteq> [] then (case ParseBool v of Some b \<Rightarrow> b | None \<Rightarrow> def) else def)"

section \<open>The session controller's settings\<close>

datatype ctlError = FlagsRejected flagError | MissingNamespaceOrRelease

datatype ctlOutcome = Exited int | CtlFailed ctlError | CtlRuns managerOptions

definition stringFlag :: "flagSet \<Rightarrow> string \<Rightarrow> string" where
  "stringFlag fs n = (case fs n of Some (StringValue s) \<Rightarrow> s | _ \<Rightarrow> [])"

definition durationFlag :: "flagSet \<Rightarrow> string \<Rightarrow> duration" where
  "durationFlag fs n = (case fs n of Some (DurationValue d) \<Rightarrow> d | _ \<Rightarrow> 0)"

definition boolFlag :: "flagSet \<Rightarrow> string \<Rightarrow> bool" where
  "boolFlag fs n = (case fs n of Some (BoolValue b) \<Rightarrow> b | _ \<Rightarrow> False)"

definition intFlag :: "flagSet \<Rightarrow> string \<Rightarrow> int" where
  "intFlag fs n = (case fs n of Some (IntValue i) \<Rightarrow> i | _ \<Rightarrow> 0)"

text \<open>The flags with their defaults, which the environment may set.\<close>

definition controllerFlags :: "(string \<Rightarrow> string) \<Rightarrow> int \<Rightarrow> flagSet" where
  "controllerFlags getenv maxIdleSessions =
     [''bind-address'' \<mapsto> StringValue (envOr getenv ''SHOCK_BIND_ADDRESS'' '':8080''),
      ''namespace'' \<mapsto> StringValue (getenv ''SHOCK_NAMESPACE''),
      ''release'' \<mapsto> StringValue (getenv ''SHOCK_RELEASE''),
      ''resync'' \<mapsto> DurationValue (envDuration getenv ''SHOCK_RESYNC'' (300 * nsPerSec)),
      ''gc-enabled'' \<mapsto> BoolValue (envBool getenv ''SHOCK_GC_ENABLED'' True),
      ''gc-max-idle-age'' \<mapsto> DurationValue (envDuration getenv ''SHOCK_GC_MAX_IDLE_AGE'' (336 * 3600 * nsPerSec)),
      ''gc-max-idle-sessions'' \<mapsto> IntValue maxIdleSessions,
      ''zombie-enabled'' \<mapsto> BoolValue (envBool getenv ''SHOCK_ZOMBIE_ENABLED'' True),
      ''zombie-alert-after'' \<mapsto> DurationValue (envDuration getenv ''SHOCK_ZOMBIE_ALERT_AFTER'' (5 * 60 * nsPerSec)),
      ''crd-check-interval'' \<mapsto> DurationValue (envDuration getenv ''SHOCK_CRD_CHECK_INTERVAL'' (15 * nsPerSec))]"

definition optionsOf :: "flagSet \<Rightarrow> managerOptions" where
  "optionsOf fs = \<lparr>mo_Namespace = stringFlag fs ''namespace'', mo_Release = stringFlag fs ''release'',
     mo_BindAddress = stringFlag fs ''bind-address'', mo_ResyncPeriod = durationFlag fs ''resync'',
     mo_CRDCheckInterval = durationFlag fs ''crd-check-interval'',
     mo_Lifecycle = \<lparr>op_GCEnabled = boolFlag fs ''gc-enabled'', op_GCMaxIdleAge = durationFlag fs ''gc-max-idle-age'',
       op_GCMaxIdleSessions = intFlag fs ''gc-max-idle-sessions'', op_ZombieEnabled = boolFlag fs ''zombie-enabled'',
       op_ZombieAlertAfter = durationFlag fs ''zombie-alert-after''\<rparr>\<rparr>"

definition runSessionController :: "(string \<Rightarrow> string) \<Rightarrow> string list \<Rightarrow> ctlOutcome" where
  "runSessionController getenv args =
     (case envInt getenv ''SHOCK_GC_MAX_IDLE_SESSIONS'' 10 of
        Inl code \<Rightarrow> Exited code
      | Inr maxIdleSessions \<Rightarrow>
        (case parseFlags (controllerFlags getenv maxIdleSessions) args of
           Inl e \<Rightarrow> CtlFailed (FlagsRejected e)
         | Inr fs \<Rightarrow>
           (if stringFlag fs ''namespace'' = [] \<or> stringFlag fs ''release'' = []
            then CtlFailed MissingNamespaceOrRelease else CtlRuns (optionsOf fs))))"

section \<open>The hook process\<close>

text \<open>\<open>time.Duration(n) * time.Second * 8 / 10\<close>: each product wraps, the division truncates.\<close>

definition truncDiv :: "int \<Rightarrow> int \<Rightarrow> int" where
  "truncDiv a b = (if 0 \<le> a then a div b else - ((- a) div b))"

definition hookBudget :: "int \<Rightarrow> duration" where
  "hookBudget timeoutSeconds = truncDiv (wrapInt64 (wrapInt64 (timeoutSeconds * nsPerSec) * 8)) 10"

text \<open>
  Whether the kubeconfig loads and the client can be built are arguments. The budget bounds the
  context of every call; its end is an error among the answers of the calls.
\<close>

text \<open>A panic ends a Go process with code 2.\<close>

definition processExit :: "hookError + unit \<Rightarrow> int" where
  "processExit r = (case r of Inl NilDereference \<Rightarrow> 2 | _ \<Rightarrow> ExitCodeFor r)"

definition runHook :: "k8sLib \<Rightarrow> (string \<Rightarrow> string) \<Rightarrow> (string \<Rightarrow> string + string) \<Rightarrow> bool \<Rightarrow> bool \<Rightarrow> int prog" where
  "runHook lib getenv readFile kubeconfig client =
     (case ConfigFromEnv getenv of Inl e \<Rightarrow> Ret ExitNonRetryable
      | Inr cfg \<Rightarrow>
        (case RequestFromEnv getenv readFile of Inl e \<Rightarrow> Ret ExitNonRetryable
         | Inr req \<Rightarrow>
           (if \<not> kubeconfig then Ret ExitRetryable
            else if \<not> client then Ret ExitRetryable
            else bindP (Run lib \<lparr>hk_Config = cfg, hk_MaxAttempts = 0\<rparr> req) (\<lambda>r. Ret (processExit r)))))"

section \<open>Dispatch\<close>

datatype dispatch = ExitsWith int | RunsHook | RunsController managerOptions | PrintsVersion

definition mainDispatch :: "(string \<Rightarrow> string) \<Rightarrow> string \<Rightarrow> string list \<Rightarrow> dispatch" where
  "mainDispatch getenv arg0 args =
     (if Base arg0 = ''spawn-runner'' then RunsHook
      else case args of [] \<Rightarrow> ExitsWith 2
        | cmd # rest \<Rightarrow>
          (if cmd = ''hook'' then (if rest = [] \<or> hd rest \<noteq> ''spawn-runner'' then ExitsWith 2 else RunsHook)
           else if cmd = ''session-controller'' then
             (case runSessionController getenv rest of Exited code \<Rightarrow> ExitsWith code
              | CtlFailed _ \<Rightarrow> ExitsWith 1 | CtlRuns opts \<Rightarrow> RunsController opts)
           else if cmd = ''version'' then PrintsVersion
           else ExitsWith 2))"

section \<open>Signals\<close>

text \<open>
  The signals of the session controller: the first interrupt or termination request cancels the
  context, the second ends the process with code 1. Signals of other kinds are not delivered.
\<close>

datatype osSignal = Interrupt | SIGTERM | OtherSignal

datatype signalState = Watching | CancelledByFirst | ExitedBy int

definition onSignal :: "osSignal \<Rightarrow> signalState \<Rightarrow> signalState" where
  "onSignal sig st =
     (if sig \<noteq> Interrupt \<and> sig \<noteq> SIGTERM then st
      else case st of Watching \<Rightarrow> CancelledByFirst | CancelledByFirst \<Rightarrow> ExitedBy 1 | ExitedBy code \<Rightarrow> ExitedBy code)"

definition signalContext :: "osSignal list \<Rightarrow> signalState" where
  "signalContext sigs = fold onSignal sigs Watching"

section \<open>Lemmas\<close>

text \<open>The process is cancelled by one, and ended by two, of the signals it asked for.\<close>

lemma signalContext_counts:
  "signalContext sigs = (case length (filter (\<lambda>s. s \<noteq> OtherSignal) sigs) of 0 \<Rightarrow> Watching
     | Suc 0 \<Rightarrow> CancelledByFirst | Suc (Suc _) \<Rightarrow> ExitedBy 1)"
proof (induction sigs rule: rev_induct)
  case (snoc sig sigs)
  then show ?case by (cases sig) (auto simp: signalContext_def onSignal_def split: nat.splits)
qed (simp add: signalContext_def)

lemma envInt_nonneg: "envInt getenv key def = Inr n \<Longrightarrow> 0 \<le> def \<Longrightarrow> 0 \<le> n"
  by (auto simp: envInt_def Let_def split: if_splits option.splits)

text \<open>Whatever the arguments, the settings keep their kinds, so every accessor reads a value.\<close>

lemma controllerFlags_kinds:
  assumes "parseFlags (controllerFlags getenv m) args = Inr fs"
  shows "\<exists>s. fs ''namespace'' = Some (StringValue s)" and "\<exists>s. fs ''release'' = Some (StringValue s)"
    and "\<exists>i. fs ''gc-max-idle-sessions'' = Some (IntValue i)"
    and "\<exists>d. fs ''crd-check-interval'' = Some (DurationValue d)"
proof -
  have k: "case controllerFlags getenv m n of None \<Rightarrow> fs n = None | Some v \<Rightarrow> \<exists>v'. fs n = Some v' \<and> sameKind v v'" for n
    using parseFlags_kind [OF assms] unfolding sameFlags_def by blast
  show "\<exists>s. fs ''namespace'' = Some (StringValue s)" "\<exists>s. fs ''release'' = Some (StringValue s)"
    "\<exists>i. fs ''gc-max-idle-sessions'' = Some (IntValue i)" "\<exists>d. fs ''crd-check-interval'' = Some (DurationValue d)"
    using k [of "''namespace''"] k [of "''release''"] k [of "''gc-max-idle-sessions''"] k [of "''crd-check-interval''"]
    by (auto simp: controllerFlags_def elim: sameKind.elims)
qed

text \<open>
  A negative check interval is accepted: \<open>Run\<close> replaces only zero by the default, and
  \<open>time.NewTicker\<close> panics on it.
\<close>

lemma sample_interval: "ParseDuration ''-1s'' = Some (- nsPerSec)"
  by (simp add: ParseDuration_def Let_def durationTerm_def fractionPart_def unitValue_def unitMap_def isUnitChar_def
      isDigit_def isDigitRune_def byte_def digitVal_def nsPerSec_def)

theorem negative_interval_accepted:
  "case runSessionController ((\<lambda>_. [])(''SHOCK_NAMESPACE'' := ''ns'', ''SHOCK_RELEASE'' := ''rel''))
       [''-crd-check-interval'', ''-1s''] of CtlRuns opts \<Rightarrow> mo_CRDCheckInterval (withDefaultInterval opts) = - nsPerSec
   | _ \<Rightarrow> False"
  by (simp add: runSessionController_def envInt_def parseOne_def splitFlag_def controllerFlags_def isBoolFlag_def
      setFlag_def sample_interval stringFlag_def optionsOf_def durationFlag_def withDefaultInterval_def Let_def nsPerSec_def)

section \<open>Properties\<close>

text \<open>
  C34: The hook process exits with 0, 1 or 2. An invalid configuration or request exits 2 before
  any call; without a client it exits 1; it exits 0 only when both are valid and the order is
  settled in the sense of the hook.
\<close>

theorem hook_process_exit:
  assumes "result (runHook lib getenv readFile kubeconfig client) rs = Some code"
  shows "code \<in> {ExitSubmitted, ExitRetryable, ExitNonRetryable} \<and>
     (isl (ConfigFromEnv getenv) \<or> isl (RequestFromEnv getenv readFile) \<longrightarrow>
        code = ExitNonRetryable \<and> issued (runHook lib getenv readFile kubeconfig client) rs = []) \<and>
     (code = ExitSubmitted \<longrightarrow> (\<exists>cfg req tmpl. ConfigFromEnv getenv = Inr cfg \<and> RequestFromEnv getenv readFile = Inr req \<and>
        settled \<lparr>hk_Config = cfg, hk_MaxAttempts = 0\<rparr> tmpl req
          (finalHistory (Run lib \<lparr>hk_Config = cfg, hk_MaxAttempts = 0\<rparr> req) rs)))"
proof (cases "isl (ConfigFromEnv getenv) \<or> isl (RequestFromEnv getenv readFile) \<or> \<not> kubeconfig \<or> \<not> client")
  case True
  then show ?thesis
    using assms by (auto simp: runHook_def issued_def ExitSubmitted_def ExitRetryable_def ExitNonRetryable_def
        split: sum.splits if_splits)
next
  case False
  then obtain cfg req where v: "ConfigFromEnv getenv = Inr cfg" "RequestFromEnv getenv readFile = Inr req" "kubeconfig" "client"
    by (metis sum.collapse(2) sum.disc(2) isl_def sum.exhaust)
  let ?hk = "\<lparr>hk_Config = cfg, hk_MaxAttempts = 0\<rparr>"
  obtain x where x: "result (Run lib ?hk req) rs = Some x" "code = processExit x"
    using assms v by (auto simp: runHook_def)
  have "outcome lib ?hk req x (finalHistory (Run lib ?hk req) rs)"
    by (rule wp_final [OF Run_wp [OF RequestFromEnv_valid [OF v(2)]] x(1)])
  then show ?thesis
    using v x(2) by (cases x) (auto simp: outcome_def exits_def processExit_def ExitCodeFor_def ExitRetryable_def ExitNonRetryable_def ExitSubmitted_def)
qed

definition sampleEnv :: "string \<Rightarrow> string" where
  "sampleEnv = (\<lambda>_. [])(EnvShockRelease := ''rel'', EnvShockNamespace := ''ns'', EnvOrderID := ''o2'',
     EnvSessionID := ''S-1'', EnvAttempt := ''2'', EnvWorkOrderFile := ''/f'')"

theorem hook_process_exit_witness:
  "result (runHook sampleLib (sampleEnv(EnvAttempt := ''x'')) (\<lambda>_. Inr ''jwt'') True True) [] = Some ExitNonRetryable \<and>
   issued (runHook sampleLib (sampleEnv(EnvAttempt := ''x'')) (\<lambda>_. Inr ''jwt'') True True) [] = []"
proof -
  let ?env = "sampleEnv(EnvAttempt := ''x'')"
  have r: "isl (RequestFromEnv ?env (\<lambda>_. Inr ''jwt''))" by code_simp
  then have "result (runHook sampleLib ?env (\<lambda>_. Inr ''jwt'') True True) [] = Some ExitNonRetryable"
    by (auto simp: runHook_def isl_def split: sum.splits)
  from hook_process_exit [OF this] r this show ?thesis by blast
qed

text \<open>
  C35: The hook's budget is eight tenths of the configured timeout, positive and below it,
  exactly up to 1152921504 seconds; the configuration accepts any positive number, and above
  that the product wraps and the budget is something else.
\<close>

theorem hook_budget:
  assumes "0 < n" and "n \<le> maxInt64"
  shows "(hookBudget n = 800000000 * n \<longleftrightarrow> n \<le> 1152921504) \<and>
     (n \<le> 1152921504 \<longrightarrow> 0 < hookBudget n \<and> hookBudget n < n * nsPerSec)"
proof -
  have le: "n \<le> 1152921504 \<Longrightarrow> hookBudget n = 800000000 * n"
    using assms(1) by (simp add: hookBudget_def nsPerSec_def wrapInt64_id inInt64_def minInt64_def maxInt64_def truncDiv_def)
  have "hookBudget n \<le> 922337203685477580" for n
    using wrapInt64_range [of "wrapInt64 (n * nsPerSec) * 8"]
    by (auto simp: hookBudget_def truncDiv_def inInt64_def minInt64_def maxInt64_def)
  then have "hookBudget n = 800000000 * n \<Longrightarrow> 800000000 * n \<le> 922337203685477580" by metis
  then have "hookBudget n = 800000000 * n \<longleftrightarrow> n \<le> 1152921504" using le by auto
  with le assms(1) show ?thesis by (auto simp: nsPerSec_def)
qed

theorem hook_budget_witness:
  "hookBudget 30 = 24 * nsPerSec \<and> hookBudget 2000000000 \<noteq> 800000000 * 2000000000"
  using hook_budget [of 30] hook_budget [of 2000000000] by (simp add: maxInt64_def nsPerSec_def)

end
