(* ===== verification/Confinement.thy ===== *)
theory Confinement
  imports Cmd ReconcilerProps
begin

text \<open>
  The work order is a credential. Two runs of the hook, or two passes of the controller, that
  differ only in the content of work orders, the one handed in and those in the Secrets read,
  issue the same calls with the same contents, but for the data of the Secret the hook creates.
\<close>

section \<open>Calls and answers without the credentials\<close>

definition hideCall :: "call \<Rightarrow> call" where
  "hideCall c = (case c of CreateSecret se \<Rightarrow> CreateSecret (se\<lparr>se_data := Map.empty\<rparr>) | _ \<Rightarrow> c)"

text \<open>Of a Secret that is read, the keys and which values are empty remain.\<close>

definition hideData :: "(string \<rightharpoonup> string) \<Rightarrow> (string \<rightharpoonup> string)" where
  "hideData m = (\<lambda>k. map_option (\<lambda>d. if d = [] then [] else ''*'') (m k))"

definition hideSecret :: "secret \<Rightarrow> secret" where
  "hideSecret se = se\<lparr>se_data := hideData (se_data se)\<rparr>"

definition hideAnswer :: "resp \<Rightarrow> resp" where
  "hideAnswer r = (case r of RSecret se \<Rightarrow> RSecret (hideSecret se) | _ \<Rightarrow> r)"

lemma hideSecret_eq:
  assumes "hideSecret a = hideSecret b"
  shows "se_name a = se_name b" "se_immutable a = se_immutable b" "se_annotations a = se_annotations b"
    "se_owners a = se_owners b" "(mget (se_data a) k = []) = (mget (se_data b) k = [])"
proof -
  have "hideData (se_data a) k = hideData (se_data b) k"
    using arg_cong [OF assms, of se_data] by (simp add: hideSecret_def)
  then show "(mget (se_data a) k = []) = (mget (se_data b) k = [])"
    by (auto simp: hideData_def mget_def split: option.splits if_splits)
qed (use arg_cong [OF assms, of se_name] arg_cong [OF assms, of se_immutable] arg_cong [OF assms, of se_annotations]
     arg_cong [OF assms, of se_owners] in \<open>simp_all add: hideSecret_def\<close>)

lemma hideAnswer_decode:
  assumes "hideAnswer r = hideAnswer r'"
  shows "asOk r = asOk r'" "asBytes r = asBytes r'" "asSandbox r = asSandbox r'" "asSandboxes r = asSandboxes r'"
    "asPods r = asPods r'" "asTime r = asTime r'"
    "rel_sum (=) (\<lambda>a b. hideSecret a = hideSecret b) (asSecret r) (asSecret r')"
  using assms by (auto simp: hideAnswer_def decode_simps split: resp.splits)

section \<open>Programs alike\<close>

text \<open>
  Two programs are alike if, given answers alike, they issue calls alike and return related
  values, except that either may stop with a value of \<open>S\<close>.
\<close>

inductive alike :: "('a \<Rightarrow> 'a \<Rightarrow> bool) \<Rightarrow> ('a \<Rightarrow> bool) \<Rightarrow> 'a prog \<Rightarrow> 'a prog \<Rightarrow> bool"
  for R :: "'a \<Rightarrow> 'a \<Rightarrow> bool" and S :: "'a \<Rightarrow> bool" where
  both: "R x y \<Longrightarrow> alike R S (Ret x) (Ret y)"
| left: "S x \<Longrightarrow> alike R S (Ret x) q"
| right: "S y \<Longrightarrow> alike R S p (Ret y)"
| call: "hideCall c = hideCall c' \<Longrightarrow> (\<And>r r'. hideAnswer r = hideAnswer r' \<Longrightarrow> alike R S (k r) (k' r')) \<Longrightarrow>
    alike R S (Call c k) (Call c' k')"

lemma alike_refl_Ret [simp]: "alike (=) S (Ret x) (Ret x)"
  by (rule both) simp

lemma alike_bindP:
  assumes "alike R S p q" and "\<And>x y. R x y \<Longrightarrow> alike R' S' (f x) (g y)"
    and "\<And>x. S x \<Longrightarrow> \<exists>y. f x = Ret y \<and> S' y" and "\<And>x. S x \<Longrightarrow> \<exists>y. g x = Ret y \<and> S' y"
  shows "alike R' S' (bindP p f) (bindP q g)"
  using assms(1)
proof (induction rule: alike.induct)
  case (left x q)
  then show ?case using assms(3) [of x] by (auto intro: alike.left)
next
  case (right y p)
  then show ?case using assms(4) [of y] by (auto intro: alike.right)
qed (auto intro: assms(2) alike.call)

lemma alike_bind_same:
  "alike (=) S p q \<Longrightarrow> (\<And>x. alike R' S' (f x) (g x)) \<Longrightarrow> (\<And>x. S x \<Longrightarrow> \<exists>y. f x = Ret y \<and> S' y) \<Longrightarrow>
     (\<And>x. S x \<Longrightarrow> \<exists>y. g x = Ret y \<and> S' y) \<Longrightarrow> alike R' S' (bindP p f) (bindP q g)"
  by (rule alike_bindP [where R = "(=)" and S = S]) auto

text \<open>A request whose answer carries no credential, and what is done with it.\<close>

lemma alike_request:
  assumes "\<And>r r'. hideAnswer r = hideAnswer r' \<Longrightarrow> R (dec r) (dec r')" and "hideCall c = hideCall c'"
  shows "alike R S (request dec c) (request dec c')"
  unfolding request_def by (intro alike.call alike.both assms)

lemma alike_ask:
  assumes "\<And>r r'. hideAnswer r = hideAnswer r' \<Longrightarrow> dec r = dec r'" and "\<And>x. alike R S (f x) (g x)"
  shows "alike R S (bindP (request dec c) f) (bindP (request dec c) g)"
proof (rule alike_bind_same [where S = "\<lambda>_. False"])
  show "alike (=) (\<lambda>_. False) (request dec c) (request dec c)" 
    by (rule alike_request) (rule assms(1), assumption, rule refl)
qed (use assms(2) in simp_all)

lemma alike_mono: "alike R S p q \<Longrightarrow> (\<And>x y. R x y \<Longrightarrow> R' x y) \<Longrightarrow> (\<And>x. S x \<Longrightarrow> S' x) \<Longrightarrow> alike R' S' p q"
  by (induction rule: alike.induct) (auto intro: alike.intros)

text \<open>What likeness says of runs.\<close>

definition stopped :: "('a \<Rightarrow> bool) \<Rightarrow> 'a prog \<Rightarrow> resp list \<Rightarrow> bool" where
  "stopped S p rs \<longleftrightarrow> (\<exists>x. result p rs = Some x \<and> S x)"

lemma issuedAt_any_history: "map snd (issuedAt p h rs) = map snd (issuedAt p h' rs)"
  by (induction p h rs arbitrary: h' rule: issuedAt.induct) auto

lemma issued_simps [simp]:
  "issued (Ret x) rs = []" "issued (Call c k) [] = [c]" "issued (Call c k) (r # rs) = c # issued (k r) rs"
  using issuedAt_any_history by (simp_all add: issued_def)

lemma alike_run:
  assumes "alike (=) S p q" and "map hideAnswer rs = map hideAnswer rs'"
  shows "stopped S p rs \<or> stopped S q rs' \<or>
    map hideCall (issued p rs) = map hideCall (issued q rs') \<and> result p rs = result q rs'"
  using assms
proof (induction arbitrary: rs rs' rule: alike.induct)
  case (call c c' k k')
  then show ?case
    by (cases rs; cases rs') (auto simp: stopped_def)
qed (auto simp: stopped_def)

section \<open>The hook\<close>

text \<open>The one thing the hook may tell: that the stored Secret of the order holds another work order.\<close>

abbreviation otherData :: "hookError + 'a \<Rightarrow> bool" where
  "otherData x \<equiv> x = Inl (nonRetryable SecretOtherData)"

abbreviation attemptOtherData :: "attemptResult \<Rightarrow> bool" where
  "attemptOtherData x \<equiv> x = Return (Inl (nonRetryable SecretOtherData))"


lemma verifySecret_alike:
  assumes "hideSecret a = hideSecret b"
  shows "otherData (verifySecret a (workOrderSecret sb l req n)) \<or>
    otherData (verifySecret b (workOrderSecret sb l (req\<lparr>rq_WorkOrder := w\<rparr>) n)) \<or>
    verifySecret a (workOrderSecret sb l req n) = verifySecret b (workOrderSecret sb l (req\<lparr>rq_WorkOrder := w\<rparr>) n)"
  unfolding verifySecret_def hideSecret_eq(2-4) [OF assms] by (simp add: workOrderSecret_def)

lemma ensureSecret_alike:
  "alike (=) otherData (ensureSecret sb tmpl req n) (ensureSecret sb tmpl (req\<lparr>rq_WorkOrder := w\<rparr>) n)"
proof -
  let ?req = "req\<lparr>rq_WorkOrder := w\<rparr>"
  have v: "alike (=) otherData (Ret (verifySecret a (workOrderSecret sb (sb_labels tmpl) req n)))
      (Ret (verifySecret b (workOrderSecret sb (sb_labels tmpl) ?req n)))" if "hideSecret a = hideSecret b" for a b
    using verifySecret_alike [OF that, of sb "sb_labels tmpl" req n w]
    by (elim disjE) (simp_all add: alike.left alike.right)
  have g: "alike (rel_sum (=) (\<lambda>a b. hideSecret a = hideSecret b)) (\<lambda>_. False)
      (request asSecret (GetSecret (sb_namespace sb) n)) (request asSecret (GetSecret (sb_namespace sb) n))"
    by (rule alike_request) (rule hideAnswer_decode(7), assumption, rule refl)
  have c: "alike (=) (\<lambda>_. False) (request asOk (CreateSecret (workOrderSecret sb (sb_labels tmpl) req n)))
      (request asOk (CreateSecret (workOrderSecret sb (sb_labels tmpl) ?req n)))"
    
    by (rule alike_request) (rule hideAnswer_decode(1), assumption, simp add: hideCall_def workOrderSecret_def)
  show ?thesis unfolding ensureSecret_def Let_def
    by (rule alike_bind_same [OF c])
      (auto split: sum.split intro!: alike_bindP [OF g] v elim!: rel_sum.cases)
qed

text \<open>A program that reads no Secret is alike to itself.\<close>

definition readsSecret :: "call \<Rightarrow> bool" where
  "readsSecret c \<longleftrightarrow> (\<exists>ns n. c = GetSecret ns n)"

lemma thenP_alike:
  assumes "alike (=) otherData p q" and "\<And>x. alike (=) otherData (f x) (g x)"
  shows "alike (=) otherData (thenP p f) (thenP q g)"
  unfolding thenP_def using assms by (intro alike_bind_same [where S = otherData]) (auto split: sum.split)

lemma hookPatch_alike: "alike (=) S (hookPatch lib orig mut) (hookPatch lib orig mut)"
  by (auto simp: hookPatch_def split: sum.split intro!: alike_ask hideAnswer_decode(1))

lemma checkCapacity_alike: "alike (=) S (checkCapacity h own n) (checkCapacity h own n)"
  by (auto simp: checkCapacity_def Let_def split: sum.split intro!: alike_ask hideAnswer_decode(4))

lemma request_other [simp]:
  "rq_OrderID (req\<lparr>rq_WorkOrder := w\<rparr>) = rq_OrderID req" "rq_SessionID (req\<lparr>rq_WorkOrder := w\<rparr>) = rq_SessionID req"
  "rq_Attempt (req\<lparr>rq_WorkOrder := w\<rparr>) = rq_Attempt req" "rq_AccountID (req\<lparr>rq_WorkOrder := w\<rparr>) = rq_AccountID req"
  by simp_all

lemma withoutWorkOrder:
  "evaluate sb (req\<lparr>rq_WorkOrder := w\<rparr>) rel = evaluate sb req rel"
  "orderSecretName h sb (req\<lparr>rq_WorkOrder := w\<rparr>) = orderSecretName h sb req"
  "acceptNewer sb (req\<lparr>rq_WorkOrder := w\<rparr>) n now pt = acceptNewer sb req n now pt"
  "newSandbox sb (req\<lparr>rq_WorkOrder := w\<rparr>) now = newSandbox sb req now"
  "requestIdentity h (req\<lparr>rq_WorkOrder := w\<rparr>) = requestIdentity h req"
  "repairPointers (req\<lparr>rq_WorkOrder := w\<rparr>) n sb = repairPointers req n sb"
  unfolding evaluate_def orderSecretName_def acceptNewer_def newSandbox_def requestIdentity_def
    repairPointers_def request_other by (rule refl)+

lemma reconcileExisting_alike:
  "alike (=) otherData (reconcileExisting lib h sb tmpl req) (reconcileExisting lib h sb tmpl (req\<lparr>rq_WorkOrder := w\<rparr>))"
  unfolding reconcileExisting_def repairRedelivery_def publishNewer_def Let_def withoutWorkOrder
  by (auto split: sum.split decision.split prod.split option.split
      intro!: thenP_alike ensureSecret_alike hookPatch_alike checkCapacity_alike alike_ask hideAnswer_decode(6))

lemma afterRead_alike:
  "alike (=) attemptOtherData (afterRead lib h req tmpl sb) (afterRead lib h (req\<lparr>rq_WorkOrder := w\<rparr>) tmpl sb)"
  unfolding afterRead_def by (rule alike_bind_same [OF reconcileExisting_alike])
    (auto simp: nonRetryable_def staleError_def split: sum.split)

lemma sessionAttempt_alike:
  "alike (=) attemptOtherData (sessionAttempt lib h req tmpl n) (sessionAttempt lib h (req\<lparr>rq_WorkOrder := w\<rparr>) tmpl n)"
proof -
  have "alike (=) attemptOtherData (createPath lib h req tmpl) (createPath lib h (req\<lparr>rq_WorkOrder := w\<rparr>) tmpl)"
    unfolding createPath_def createSandbox_def bindP_assoc withoutWorkOrder
    by (rule alike_bind_same [OF checkCapacity_alike [where S = "\<lambda>_. False"]])
      (auto split: sum.split intro!: alike_ask hideAnswer_decode(3,6) afterRead_alike)
  moreover have "alike (=) (\<lambda>_. False) (backoff n) (backoff n)"
    by (auto simp: backoff_def intro!: alike_request hideAnswer_decode(1))
  ultimately show ?thesis unfolding sessionAttempt_def
    by (intro alike_bind_same [where p = "backoff n" and S = "\<lambda>_. False"])
      (auto split: sum.split intro!: alike_ask hideAnswer_decode(3) afterRead_alike)
qed

lemma sessionLoop_alike:
  "alike (=) otherData (sessionLoop lib h req tmpl n k) (sessionLoop lib h (req\<lparr>rq_WorkOrder := w\<rparr>) tmpl n k)"
proof (induction n arbitrary: k)
  case (Suc n)
  then show ?case unfolding sessionLoop.simps
    by (intro alike_bind_same [OF sessionAttempt_alike]) (auto split: attemptResult.split)
qed simp

lemma Run_alike: "alike (=) otherData (Run lib h req) (Run lib h (req\<lparr>rq_WorkOrder := w\<rparr>))"
proof -
  have "alike (=) otherData (hookTemplate lib h i) (hookTemplate lib h i)" for h i
    unfolding hookTemplate_def LoadTemplate_def bindP_assoc
    by (rule alike_ask [OF hideAnswer_decode(2)]) (auto split: sum.split)
  then show ?thesis
    by (auto simp: Run_def Let_def runSession_def withoutWorkOrder intro!: thenP_alike sessionLoop_alike)
qed

section \<open>A pass of the controller\<close>

abbreviation never :: "'a \<Rightarrow> bool" where
  "never x \<equiv> False"

lemma validate_alike:
  assumes "hideSecret a = hideSecret b"
  shows "validateWorkOrderSecret a sb order rel = validateWorkOrderSecret b sb order rel"
  unfolding validateWorkOrderSecret_def hideSecret_eq [OF assms] by (rule refl)

lemma thenP_never:
  assumes "alike (=) never p q" and "\<And>x. alike (=) never (f x) (g x)"
  shows "alike (=) never (thenP p f) (thenP q g)"
  unfolding thenP_def using assms by (intro alike_bind_same [where S = never]) (auto split: sum.split)

lemma emit_alike: "(\<And>x. alike R S (f x) (g x)) \<Longrightarrow> alike R S (bindP (emit sb t r a) f) (bindP (emit sb t r a) g)"
  unfolding emit_def by (rule alike_ask) auto

lemma recPatch_alike: "alike (=) never (recPatch lib orig mut) (recPatch lib orig mut)"
  by (auto simp: recPatch_def split: sum.split intro!: alike_ask hideAnswer_decode(1))

lemma observe_alike: "alike (=) never (spawnObservation lib sb pods) (spawnObservation lib sb pods)"
  by (auto simp: spawnObservation_def Let_def split: option.split intro!: thenP_never recPatch_alike emit_alike)

lemma sleep_alike: "alike (=) never (recSleep lib sb) (recSleep lib sb)"
  by (auto simp: recSleep_def intro!: alike_ask hideAnswer_decode(6) thenP_never recPatch_alike emit_alike)

lemma wake_alike: "alike (=) never (wake lib rc sb) (wake lib rc sb)"
proof -
  have g: "alike (rel_sum (=) (\<lambda>a b. hideSecret a = hideSecret b)) never
      (request asSecret (GetSecret ns n)) (request asSecret (GetSecret ns n))" for ns n
    by (rule alike_request) (rule hideAnswer_decode(7), assumption, rule refl)
  have v: "alike (=) never
      (case validateWorkOrderSecret a sb order rel of Inl e \<Rightarrow> bindP (emit sb t r (args e)) (\<lambda>_. Ret (x e)) | Inr _ \<Rightarrow> q)
      (case validateWorkOrderSecret b sb order rel of Inl e \<Rightarrow> bindP (emit sb t r (args e)) (\<lambda>_. Ret (x e)) | Inr _ \<Rightarrow> q)"
    if "hideSecret a = hideSecret b" and "alike (=) never q q" for a b order rel t r args x and q :: "(recError + bool) prog"
    unfolding validate_alike [OF that(1)] using that(2) by (auto split: sum.split intro: emit_alike)
  show ?thesis unfolding wake_def Let_def
    by (simp, intro impI conjI emit_alike alike_refl_Ret alike_bindP [OF g])
      (auto elim!: rel_sum.cases intro!: v emit_alike thenP_never recPatch_alike)
qed

lemma zombieLoop_alike: "alike (=) never (zombieLoop rc sb now pods d f) (zombieLoop rc sb now pods d f)"
  by (induction pods arbitrary: d f) (auto simp: Let_def split: option.split intro!: emit_alike)

lemma gc_alike: "alike (=) never (gc lib rc sb) (gc lib rc sb)"
proof -
  have "alike (=) never (idleVictims lib rc ns) (idleVictims lib rc ns)" for ns
    unfolding idleVictims_def by (rule alike_ask [OF hideAnswer_decode(4)]) (auto split: sum.split)
  then have r: "alike (=) never (gcReasonOf lib rc sb idle) (gcReasonOf lib rc sb idle)" for idle
    by (auto simp: gcReasonOf_def intro!: thenP_never)
  show ?thesis unfolding gc_def Let_def
    by (auto split: sum.split option.split intro!: alike_ask hideAnswer_decode(1,6) thenP_never r emit_alike)
qed

lemma predicate_alike:
  assumes "alike (=) never p p" and "alike (=) never rest rest"
  shows "alike (=) never (predicate p st rest) (predicate p st rest)"
  unfolding predicate_def using assms by (intro alike_bind_same [where S = never]) (auto split: sum.split)

lemma lastPredicates_alike: "alike (=) never (lastPredicates lib rc st sb pods) (lastPredicates lib rc st sb pods)"
proof -
  have z: "alike (=) never (zombie rc st sb pods) (zombie rc st sb pods)" for st
    by (auto simp: zombie_def intro!: alike_ask hideAnswer_decode(6) alike_bind_same [where S = never] zombieLoop_alike)
  have a: "alike (=) never (alarm lib st sb) (alarm lib st sb)" for st
    by (auto simp: alarm_def Let_def intro!: emit_alike)
  show ?thesis unfolding lastPredicates_def Let_def
    by (auto intro!: alike_bind_same [where S = never and p = "zombie rc st sb pods"] z
        alike_bind_same [where S = never and p = "gc lib rc sb"] gc_alike
        alike_bind_same [where S = never and p = "alarm lib st' sb" for st'] a split: sum.split)
qed

lemma Reconcile_alike: "alike (=) never (Reconcile lib rc st ns n) (Reconcile lib rc st ns n)"
proof -
  have o: "alike (=) never (ownedPods lib rc sb) (ownedPods lib rc sb)" for sb
    by (auto simp: ownedPods_def split: sum.split intro!: alike_ask hideAnswer_decode(5))
  have p: "alike (=) never (bindP (ownedPods lib rc sb) f) (bindP (ownedPods lib rc sb) f)"
    if "\<And>x. alike (=) never (f x) (f x)" for sb and f :: "recError + pod list \<Rightarrow> (recState \<times> (recError + duration)) prog"
    using o that by (rule alike_bind_same [where S = never]) simp_all
  show ?thesis unfolding Reconcile_def
    by (rule alike_ask [OF hideAnswer_decode(3)])
      (auto split: sum.split intro!: p predicate_alike observe_alike sleep_alike wake_alike lastPredicates_alike)
qed

lemma Reconcile_calls: "map hideCall (issued (Reconcile lib rc st ns n) rs) = issued (Reconcile lib rc st ns n) rs"
proof (rule map_idI)
  fix c
  assume "c \<in> set (issued (Reconcile lib rc st ns n) rs)"
  then obtain h where "reconcileGuard lib rc ns n h c"
    using wp_issuedAt [OF Reconcile_wp] by (fastforce simp: issued_def)
  then show "hideCall c = c" by (cases c) (simp_all add: hideCall_def reconcileGuard_def)
qed

section \<open>Properties\<close>

text \<open>
  C13: No credential leaves by another way than the Secret meant to hold it. Two invocations of the
  hook for the same order that are handed different work orders and find different work orders in
  the Secrets they read issue the same calls, but for the data of the Secret they create, and
  return the same result, unless one finds another work order than its own in the order's
  Secret and says just that. Two passes of the controller that read different work orders issue
  the same calls, events included, and return the same result.
\<close>

theorem work_order_confined:
  assumes "map hideAnswer rs = map hideAnswer rs'"
  shows "(let req' = req\<lparr>rq_WorkOrder := w\<rparr>; told = Some (Inl (nonRetryable SecretOtherData)) in
      result (Run lib hk req) rs = told \<or> result (Run lib hk req') rs' = told \<or>
      map hideCall (issued (Run lib hk req) rs) = map hideCall (issued (Run lib hk req') rs') \<and>
      result (Run lib hk req) rs = result (Run lib hk req') rs') \<and>
    issued (Reconcile lib rc st ns n) rs = issued (Reconcile lib rc st ns n) rs' \<and>
    result (Reconcile lib rc st ns n) rs = result (Reconcile lib rc st ns n) rs'"
  using alike_run [OF Run_alike assms, of lib hk req w] alike_run [OF Reconcile_alike assms, of lib rc st ns n]
  by (auto simp: stopped_def Let_def Reconcile_calls)

theorem work_order_confined_witness:
  "\<exists>mut p. PatchSandbox sampleAccepted mut p \<in> set (issued (Reconcile sampleLib sampleReconciler freshState ''ns'' ''n'')
     [RSandbox sampleAccepted, RPods [], RSecret (sampleSecret\<lparr>se_data := [WorkOrderSecretKey \<mapsto> ''other'']\<rparr>), ROk, ROk])"
proof -
  let ?rs = "\<lambda>se. [RSandbox sampleAccepted, RPods [], RSecret se, ROk, ROk]"
  let ?se = "sampleSecret\<lparr>se_data := [WorkOrderSecretKey \<mapsto> ''other'']\<rparr>"
  have "hideData (se_data sampleSecret) = hideData (se_data ?se)"
    by (auto simp: hideData_def sampleSecret_def workOrderSecret_def sampleRequest_def)
  then have "hideSecret sampleSecret = hideSecret ?se" by (simp add: hideSecret_def)
  then have "map hideAnswer (?rs sampleSecret) = map hideAnswer (?rs ?se)" by (simp add: hideAnswer_def)
  then have "issued (Reconcile sampleLib sampleReconciler freshState ''ns'' ''n'') (?rs sampleSecret) =
      issued (Reconcile sampleLib sampleReconciler freshState ''ns'' ''n'') (?rs ?se)"
    using work_order_confined by blast
  moreover obtain h mut p where "(h, PatchSandbox sampleAccepted mut p)
      \<in> set (issuedAt (Reconcile sampleLib sampleReconciler freshState ''ns'' ''n'') [] (?rs sampleSecret))"
    using sample_wake [of freshState] by blast
  then have "PatchSandbox sampleAccepted mut p
      \<in> set (issued (Reconcile sampleLib sampleReconciler freshState ''ns'' ''n'') (?rs sampleSecret))"
    unfolding issued_def by force
  ultimately show ?thesis by metis
qed

lemmas env_names = EnvWorkOrderFile_def EnvOrderID_def EnvSessionID_def EnvSessionUUID_def EnvAttempt_def
  EnvAccountID_def EnvAccountEmail_def EnvPrimaryRepo_def EnvPoolID_def EnvShockRelease_def EnvShockNamespace_def
  EnvShockTemplatePath_def EnvShockBaseDir_def EnvShockMountPath_def EnvShockGracePeriod_def EnvShockHookTimeout_def
  EnvShockMaxActive_def

text \<open>What the process is not to read, it does not depend on.\<close>

lemma runHook_ignores:
  assumes "key \<in> {EnvAccountEmail, EnvPrimaryRepo, EnvPoolID}"
  shows "runHook lib (getenv(key := v)) readFile kubeconfig client = runHook lib getenv readFile kubeconfig client"
proof -
  have keys: "EnvWorkOrderFile \<noteq> key" "EnvOrderID \<noteq> key" "EnvSessionID \<noteq> key" "EnvSessionUUID \<noteq> key"
      "EnvAttempt \<noteq> key" "EnvAccountID \<noteq> key" "EnvShockRelease \<noteq> key" "EnvShockNamespace \<noteq> key"
      "EnvShockTemplatePath \<noteq> key" "EnvShockBaseDir \<noteq> key" "EnvShockMountPath \<noteq> key"
      "EnvShockGracePeriod \<noteq> key" "EnvShockHookTimeout \<noteq> key" "EnvShockMaxActive \<noteq> key"
    using assms by (elim insertE emptyE; simp add: env_names)+
  note get = keys [THEN fun_upd_other]
  have c: "ConfigFromEnv (getenv(key := v)) = ConfigFromEnv getenv"
    unfolding ConfigFromEnv_def intVar_def get by (rule refl)
  have r: "RequestFromEnv (getenv(key := v)) readFile = RequestFromEnv getenv readFile"
    unfolding RequestFromEnv_def get by (rule refl)
  show ?thesis unfolding runHook_def c r by (rule refl)
qed

end
