(* ===== verification/Annotations.thy ===== *)
theory Annotations
  imports HookProps ReconcilerProps
begin

text \<open>
  The annotations as typed data: which texts the program's own annotations may hold, that every
  Sandbox the hook and the controller write keeps to it, and that nothing they read of such a
  Sandbox is unreadable.
\<close>

section \<open>The types of the annotations\<close>

text \<open>A name of a Secret (an RFC 1123 subdomain, here without dots), an order id, a time; or absent.\<close>

definition secretRef :: "string \<Rightarrow> bool" where
  "secretRef s \<longleftrightarrow> s = [] \<or> length s \<le> 253 \<and> lowerAlnum (hd s) \<and> lowerAlnum (last s) \<and> list_all dnsChar s"

definition orderRef :: "string \<Rightarrow> bool" where
  "orderRef s \<longleftrightarrow> s = [] \<or> orderIDPattern s"

definition timeRef :: "string \<Rightarrow> bool" where
  "timeRef s \<longleftrightarrow> s = [] \<or> parseRFC3339 s \<noteq> None"

definition typedSession :: "session \<Rightarrow> bool" where
  "typedSession s \<longleftrightarrow> s_lastAttempt s \<noteq> None \<and> orderRef (s_pending s) \<and> orderRef (s_applied s) \<and> orderRef (s_lastID s) \<and>
     secretRef (s_pendingSecret s) \<and> secretRef (s_lastSecret s)"

definition typedSandbox :: "sandbox \<Rightarrow> bool" where
  "typedSandbox sb \<longleftrightarrow> typedSession (sessionOf sb) \<and> timeRef (annot sb AnnotationPendingSpawnAt) \<and>
     timeRef (annot sb AnnotationLastSuspendedAt)"

lemma typed_absent [simp]: "secretRef []" "orderRef []" "timeRef []"
  by (simp_all add: secretRef_def orderRef_def timeRef_def)

lemma WorkOrderSecretName_secretRef: "secretRef (WorkOrderSecretName r s u orderID)"
proof -
  let ?d = "secretDigest (secretEncoding [r, s, u, orderID])" and ?p = "releasePrefix r @ secretPrefix @ ''-''"
  have name: "WorkOrderSecretName r s u orderID = ?p @ ?d" by (simp add: WorkOrderSecretName_def)
  have letters: "lowerAlnum CHR ''w''" "lowerAlnum CHR ''o''" by (simp_all add: lowerAlnum_def isLowerRune_def byte_def)
  have "list_all dnsChar ?p" "list_all dnsChar ?d"
    using releasePrefix_chars letters sha.digest_hex [of "secretEncoding [r, s, u, orderID]"] hex_lowerAlnum
    by (auto simp: secretPrefix_def list_all_iff)
  then have "list_all dnsChar (?p @ ?d)" by simp
  moreover have "lowerAlnum (hd (?p @ ?d))"
    using letters by (cases rule: releasePrefix_cases [of r]) (auto simp: secretPrefix_def clean_def)
  moreover have "lowerAlnum (last (?p @ ?d))" by (rule hex_lowerAlnum [OF sha.last_name])
  moreover have "length (?p @ ?d) \<le> 253"
    using length_releasePrefix [of r] sha.digest_length [of "secretEncoding [r, s, u, orderID]"] by (simp add: secretPrefix_def)
  ultimately show ?thesis unfolding secretRef_def name by blast
qed

lemma derivedName_secretRef: "derivedName release sb ord name \<Longrightarrow> secretRef name"
  unfolding derivedName_def using WorkOrderSecretName_secretRef by blast

lemma lifecycle_typed:
  assumes "lifecycle (derivedName release sb) s a t" and "typedSession s" and "\<And>ord n. a = Accept ord n \<Longrightarrow> orderIDPattern ord"
  shows "typedSession t"
  using assms by (cases rule: lifecycle.cases) (auto simp: typedSession_def orderRef_def dest: derivedName_secretRef)

lemma stamped_typed:
  assumes "stamped h orig mut" and "\<forall>now \<in> toldTimes h. yearZeroTo9999 now" and "k \<in> {AnnotationPendingSpawnAt, AnnotationLastSuspendedAt}"
    and "timeRef (annot orig k)"
  shows "timeRef (annot mut k)"
proof -
  have "timeRef (formatRFC3339 now)" if "now \<in> toldTimes h" for now
    using assms(2) that parse_format by (simp add: timeRef_def)
  then show ?thesis using assms(1,3,4) unfolding stamped_def by auto
qed

lemma patch_typed:
  assumes "legalPatch release orig a mut" and "stamped h orig mut" and "\<forall>now \<in> toldTimes h. yearZeroTo9999 now"
    and "\<And>ord n. a = Accept ord n \<Longrightarrow> orderIDPattern ord" and "typedSandbox orig"
  shows "typedSandbox mut"
  using assms lifecycle_typed [of release orig "sessionOf orig" a "sessionOf mut"] stamped_typed [OF assms(2,3)]
  by (simp add: typedSandbox_def legalPatch_def)

lemma created_typed:
  assumes "validRequest req" and "yearZeroTo9999 now"
  shows "typedSandbox (newSandbox tmpl req now)"
  using assms parse_format [OF assms(2)]
  by (simp add: typedSandbox_def typedSession_def sessionOf_def newSandbox_def validRequest_def orderRef_def timeRef_def)

lemma typed_readable:
  assumes "typedSandbox sb"
  shows "evaluate sb req release \<noteq> Inl (nonRetryable UnreadableAttempt)" and "idleSince lib sb \<noteq> Inl UnreadableSuspendedAt"
  using assms
  by (auto simp: typedSandbox_def typedSession_def sessionOf_def timeRef_def evaluate_def Let_def idleSince_def
      nonRetryable_def retryable_def split: option.splits if_splits)

section \<open>The program writes typed annotations\<close>

text \<open>
  C18: The annotations are typed: when every Sandbox an invocation of the hook or a pass of the
  controller was given has a readable attempt, readable times, order ids and Secret names in its
  annotations, so has every Sandbox it writes, whatever the template holds; the attempt and the
  time of such a Sandbox are never reported as unreadable.
\<close>

theorem annotations_typed:
  assumes "validRequest req"
    and "(h, c) \<in> set (issuedAt (Run lib hk req) [] rs) \<or>
      namedAsAsked h \<and> (h, c) \<in> set (issuedAt (Reconcile lib rc st ns n) [] rs)"
    and "c = CreateSandbox new \<or> (\<exists>orig doc. c = PatchSandbox orig new doc)"
    and "\<forall>sb. received h sb \<longrightarrow> typedSandbox sb" and "\<forall>now \<in> toldTimes h. yearZeroTo9999 now"
  shows "typedSandbox new \<and> evaluate new req' release \<noteq> Inl (nonRetryable UnreadableAttempt) \<and>
     idleSince lib' new \<noteq> Inl UnreadableSuspendedAt"
proof -
  have "typedSandbox new"
    using assms(2)
  proof
    assume run: "(h, c) \<in> set (issuedAt (Run lib hk req) [] rs)"
    then obtain tmpl where g: "hookGuard lib hk tmpl req h c"
      using Run_guard [OF assms(1) run] assms(3) by (auto simp: runGuard_def)
    show ?thesis
      using assms(3)
    proof
      assume "c = CreateSandbox new"
      then show ?thesis using g created_typed [OF assms(1)] assms(5) by (auto simp: hookGuard_def)
    next
      assume "\<exists>orig doc. c = PatchSandbox orig new doc"
      then obtain orig doc where "c = PatchSandbox orig new doc" by blast
      then obtain a where a: "received h orig" "stamped h orig new" "legalPatch (cf_Release (hk_Config hk)) orig a new"
          "a = Accept (rq_OrderID req) (rq_Attempt req) \<or> a = Repair (rq_OrderID req)"
        using g by (auto simp: hookGuard_def acceptGuard_def)
      then show ?thesis using assms(1,4,5) by (intro patch_typed [OF a(3,2)]) (auto simp: validRequest_def)
    qed
  next
    assume pass: "namedAsAsked h \<and> (h, c) \<in> set (issuedAt (Reconcile lib rc st ns n) [] rs)"
    then have g: "reconcileGuard lib rc ns n h c" using Reconcile_guard by blast
    then obtain orig doc where c: "c = PatchSandbox orig new doc" using assms(3) by (auto simp: reconcileGuard_def)
    then have o: "readBy rc ns n h orig" "stamped h orig new" "patchGuard lib rc h orig new"
      using g pass by (auto simp: reconcileGuard_def)
    then obtain a where a: "legalPatch (rc_Release rc) orig a new" "a \<in> {Observe, Sleep, Wake}" by (auto simp: patchGuard_def)
    have "received h orig" using o(1) by (force simp: readBy_def received_def)
    then show ?thesis using assms(4,5) a(2) by (intro patch_typed [OF a(1) o(2)]) auto
  qed
  then show ?thesis using typed_readable by blast
qed

theorem annotations_typed_witness:
  "\<exists>h mut doc. (h, PatchSandbox sampleRunning mut doc) \<in> set (issuedAt (Run sampleLib sampleHook sampleRequest) [] sampleResponses) \<and>
     typedSandbox mut \<and> pendingOf mut = ''o2''"
proof -
  obtain t :: sandbox and pt p where r: "run (Run sampleLib sampleHook sampleRequest) sampleResponses =
        ([(ReadFile ''/t'', RBytes ''yaml''), (GetSandbox (sb_namespace t) (sb_name t), RSandbox sampleRunning),
          (CreateSecret (workOrderSecret sampleRunning (sb_labels t) sampleRequest (orderSecretName sampleHook sampleRunning sampleRequest)), ROk),
          (Now, RTime 0), (PatchSandbox sampleRunning
            (acceptNewer sampleRunning sampleRequest (orderSecretName sampleHook sampleRunning sampleRequest) 0 pt) p, ROk)], Some (Inr ()))"
    using sample_run unfolding Let_def by blast
  let ?mut = "acceptNewer sampleRunning sampleRequest (orderSecretName sampleHook sampleRunning sampleRequest) 0 pt"
  let ?h = "[(Now, RTime 0), (CreateSecret (workOrderSecret sampleRunning (sb_labels t) sampleRequest
      (orderSecretName sampleHook sampleRunning sampleRequest)), ROk), (GetSandbox (sb_namespace t) (sb_name t), RSandbox sampleRunning),
    (ReadFile ''/t'', RBytes ''yaml'')]"
  have i: "(?h, PatchSandbox sampleRunning ?mut p) \<in> set (issuedAt (Run sampleLib sampleHook sampleRequest) [] sampleResponses)"
    using run_issues [OF r, of 4 "PatchSandbox sampleRunning ?mut p"] by simp
  have "orderIDPattern ''o1''" by (simp add: orderIDPattern_def asciiAlnum_def isLowerRune_def isDigitRune_def byte_def)
  then have "typedSandbox sampleRunning"
    by (simp add: typedSandbox_def typedSession_def sessionOf_def orderRef_def parseAttempt_1 sampleRunning_def sampleLive_def sampleTemplate_def)
  then have "\<forall>sb. received ?h sb \<longrightarrow> typedSandbox sb" by (simp add: received_def)
  moreover have "\<forall>now \<in> toldTimes ?h. yearZeroTo9999 now"
    by (auto simp: toldTimes_def asTime_def yearZeroTo9999_def epochSecs_def daysBefore_def)
  ultimately have "typedSandbox ?mut" using annotations_typed [OF sampleRequest_valid disjI1 [OF i]] by blast
  moreover have "pendingOf ?mut = ''o2''" by (simp add: acceptNewer_def sampleRequest_def)
  ultimately show ?thesis using i by blast
qed

end
