(* ===== verification/Scope.thy ===== *)
theory Scope
  imports Cmd ReconcilerProps
begin

text \<open>
  The session controller process from its arguments to its calls: what it starts, and that a
  pass stays within the release and the namespace it was started for. Its lists ask for exactly
  what the informer cache holds, so a list answered by the cache misses nothing.
\<close>

section \<open>The lists of a pass\<close>

definition listsAt :: "string \<Rightarrow> strmap \<Rightarrow> call \<Rightarrow> bool" where
  "listsAt namespace sel c \<longleftrightarrow> (\<forall>ns s. c = ListPods ns s \<or> c = ListSandboxes ns s \<longrightarrow> ns = namespace \<and> s = sel)"

lemma listsAt_simps [simp]:
  "listsAt namespace sel (GetSandbox ns n)" "listsAt namespace sel (GetSecret ns n)" "listsAt namespace sel (Emit e)"
  "listsAt namespace sel Now" "listsAt namespace sel (PatchSandbox orig mut doc)"
  "listsAt namespace sel (DeleteSandbox ns n uid rv)"
  "listsAt namespace sel (ListPods ns s) \<longleftrightarrow> ns = namespace \<and> s = sel"
  "listsAt namespace sel (ListSandboxes ns s) \<longleftrightarrow> ns = namespace \<and> s = sel"
  by (auto simp: listsAt_def)

text \<open>What a pass may list.\<close>

lemma only_predicate: "only P p \<Longrightarrow> only P rest \<Longrightarrow> only P (predicate p st rest)"
  unfolding predicate_def by (intro only_bindP only_case_sum only_if only_Ret)

lemmas only_pass = only_intros only_predicate listsAt_simps(1-6)

lemma only_emit: "only (listsAt ns sel) (emit sb t rsn args)"
  unfolding emit_def by (intro only_pass)

lemma only_recPatch: "only (listsAt ns sel) (recPatch lib orig mut)"
  unfolding recPatch_def by (intro only_pass)

lemma only_zombieLoop: "only (listsAt ns sel) (zombieLoop rc sb now pods requeue alerted)"
proof (induction pods arbitrary: requeue alerted)
  case (Cons p pods)
  show ?case unfolding zombieLoop.simps Let_def by (intro only_pass only_emit Cons.IH)
qed (simp add: only_Ret)

text \<open>A pass on the Sandbox it has read: its predicates in turn.\<close>

lemma only_predicates:
  fixes rc :: reconciler and sb :: sandbox
  defines "N \<equiv> sb_namespace sb" and "S \<equiv> SelectorLabels ComponentRunner (rc_Release rc)"
  shows "only (listsAt N S) (predicate (spawnObservation lib sb pods) st (predicate (recSleep lib sb) st
     (predicate (wake lib rc sb) st (lastPredicates lib rc st sb pods))))"
proof -
  note parts = spawnObservation_def recSleep_def wake_def lastPredicates_def zombie_def gc_def gcReasonOf_def
    idleVictims_def alarm_def Let_def
  have "listsAt N S (ListSandboxes (sb_namespace sb) (SelectorLabels ComponentRunner (rc_Release rc)))"
    by (simp add: N_def S_def)
  then show ?thesis
    unfolding parts by (intro only_pass only_emit only_recPatch only_zombieLoop)
qed

lemma Reconcile_lists:
  assumes "(h, c) \<in> set (issuedAt (Reconcile lib rc st ns n) [] rs)" and "c = ListPods ns' sel \<or> c = ListSandboxes ns' sel"
  shows "sel = SelectorLabels ComponentRunner (rc_Release rc) \<and> (\<exists>sb. readBy rc ns n h sb \<and> ns' = sb_namespace sb)"
proof -
  define G where "G h c \<longleftrightarrow> (\<forall>ns' sel. c = ListPods ns' sel \<or> c = ListSandboxes ns' sel \<longrightarrow>
    sel = SelectorLabels ComponentRunner (rc_Release rc) \<and> (\<exists>sb. readBy rc ns n h sb \<and> ns' = sb_namespace sb))" for h c
  have read: "G h c" if "readBy rc ns n h sb" "listsAt (sb_namespace sb) (SelectorLabels ComponentRunner (rc_Release rc)) c" for h c sb
    using that unfolding G_def listsAt_def by blast
  have act: "wp G (\<lambda>_ _. True) (predicate (spawnObservation lib sb pods) st (predicate (recSleep lib sb) st
     (predicate (wake lib rc sb) st (lastPredicates lib rc st sb pods)))) h" if "readBy rc ns n h sb" for sb pods h
    by (rule wp_mono [OF only_wp [OF only_predicates [of sb rc]]]) (use read [OF rec_history_mono(1) [OF that]] in auto)
  have get: "G h (GetSandbox ns n)" for h by (simp add: G_def)
  have list: "G h (ListPods (sb_namespace sb) (SelectorLabels ComponentRunner (rc_Release rc)))" if "readBy rc ns n h sb" for h sb
    using read [OF that] by simp
  have "wp G (\<lambda>_ _. True) (Reconcile lib rc st ns n) []"
    unfolding Reconcile_def ownedPods_def
    by (auto simp: prog_simps get readBy_def intro!: list act split: sum.splits)
  from wp_issuedAt [OF this assms(1)] show ?thesis using assms(2) unfolding G_def by blast
qed

section \<open>Properties\<close>

lemma dispatched_options:
  "mainDispatch getenv arg0 args = RunsController opts \<Longrightarrow> mo_Namespace opts \<noteq> [] \<and> mo_Release opts \<noteq> []"
  by (auto simp: mainDispatch_def runSessionController_def optionsOf_def
      split: if_splits list.splits ctlOutcome.splits sum.splits)

lemma readBy_cached:
  assumes "readBy (newReconciler opts) ns n h sb" and "mo_Release opts \<noteq> []" and "sb_namespace sb = mo_Namespace opts"
  shows "cached opts (sb_namespace sb) (sb_labels sb)"
  using assms
  by (auto simp: cached_def cacheSelector_def SelectorLabels_def readBy_def newReconciler_def map_le_def mget_def
      ComponentRunner_def split: option.splits)

text \<open>
  C20: From its flags and environment to its calls, the session controller stays in its scope:
  it runs only with a namespace and a release, a pass lists exactly what its cache holds of that
  namespace and release, and it patches and deletes only Sandboxes of them.
\<close>

theorem controller_scope:
  assumes "mainDispatch getenv arg0 args = RunsController opts"
    and "snd (startUp su bi opts res listens ws p) = Some (Inr rn)"
    and "(h, c) \<in> set (issuedAt (Reconcile lib (rn_reconciler rn) st (mo_Namespace opts) n) [] rs)"
    and "\<forall>sb. (GetSandbox (mo_Namespace opts) n, RSandbox sb) \<in> set h \<longrightarrow> sb_namespace sb = mo_Namespace opts"
  shows "mo_Namespace opts \<noteq> [] \<and> mo_Release opts \<noteq> [] \<and>
     (\<forall>ns sel. c = ListPods ns sel \<or> c = ListSandboxes ns sel \<longrightarrow>
        ns = mo_Namespace opts \<and> (\<forall>labels. sel \<subseteq>\<^sub>m labels \<longleftrightarrow> cached opts ns labels)) \<and>
     (\<forall>orig mut doc. c = PatchSandbox orig mut doc \<longrightarrow> cached opts (sb_namespace orig) (sb_labels orig)) \<and>
     (\<forall>ns' n' uid rv. c = DeleteSandbox ns' n' uid rv \<longrightarrow>
        (\<exists>sb :: sandbox. sb_uid sb = uid \<and> sb_resourceVersion sb = rv \<and> cached opts ns' (sb_labels sb)))"
proof -
  note opts = dispatched_options [OF assms(1)]
  note calls = assms(3) [unfolded startUp_running(2) [OF assms(2)]]
  have here: "sb_namespace sb = mo_Namespace opts" if "readBy (newReconciler opts) (mo_Namespace opts) n h sb" for sb
    using assms(4) that by (simp add: readBy_def)
  have lists: "ns = mo_Namespace opts \<and> (\<forall>labels. sel \<subseteq>\<^sub>m labels \<longleftrightarrow> cached opts ns labels)"
    if "c = ListPods ns sel \<or> c = ListSandboxes ns sel" for ns sel
    using Reconcile_lists [OF calls that] here by (auto simp: cached_def cacheSelector_def newReconciler_def)
  have guard: "reconcileGuard lib (newReconciler opts) (mo_Namespace opts) n h c" by (rule Reconcile_guard [OF calls])
  have mine: "cached opts (sb_namespace sb) (sb_labels sb)" if "readBy (newReconciler opts) (mo_Namespace opts) n h sb" for sb
    using readBy_cached [OF that] opts here [OF that] by blast
  then have "cached opts (sb_namespace orig) (sb_labels orig)" if "c = PatchSandbox orig mut doc" for orig mut doc
    using guard that by (simp add: reconcileGuard_def)
  moreover have "\<exists>sb :: sandbox. sb_uid sb = uid \<and> sb_resourceVersion sb = rv \<and> cached opts ns' (sb_labels sb)"
    if del: "c = DeleteSandbox ns' n' uid rv" for ns' n' uid rv
  proof -
    obtain sb where sb: "readBy (newReconciler opts) (mo_Namespace opts) n h sb" "ns' = sb_namespace sb"
        "uid = sb_uid sb" "rv = sb_resourceVersion sb"
      using guard del by (auto simp: reconcileGuard_def)
    show ?thesis using mine [OF sb(1)] unfolding sb(2-4) by blast
  qed
  ultimately show ?thesis using opts lists by blast
qed

definition sampleArgs :: "string list" where
  "sampleArgs = [''session-controller'', ''-namespace'', ''ns'', ''-release=rel'']"

theorem controller_scope_witness:
  "\<exists>opts. mainDispatch (\<lambda>_. []) ''shock'' sampleArgs = RunsController opts \<and>
     (\<forall>labels. SelectorLabels ComponentRunner ''rel'' \<subseteq>\<^sub>m labels \<longleftrightarrow> cached opts ''ns'' labels)"
proof -
  have base: "Base ''shock'' = ''shock''" by code_simp
  obtain opts where d: "mainDispatch (\<lambda>_. []) ''shock'' sampleArgs = RunsController opts"
      and o: "mo_Namespace opts = ''ns''" "mo_Release opts = ''rel''"
    by (simp add: mainDispatch_def sampleArgs_def base runSessionController_def envInt_def parseOne_def splitFlag_def
      controllerFlags_def isBoolFlag_def setFlag_def stringFlag_def optionsOf_def Let_def)
  let ?su = "\<lparr>su_discoveryClient = None, su_newManager = None, su_complete = None, su_addRunnable = None,
     su_healthz = None, su_readyz = None\<rparr>"
  let ?bi = "Get None ''go''" and ?p = "\<lparr>pr_served = False, pr_gauge = 0\<rparr>"
  obtain rn where rn: "snd (startUp ?su ?bi opts (Inr [''sandboxes'']) True [] ?p) = Some (Inr rn)"
    by (simp add: startUp_def waitForCRD_def check_def startManager_def Let_def)
  let ?sb = "sampleRunning\<lparr>sb_namespace := ''ns''\<rparr>"
  have r: "rn_reconciler rn = newReconciler opts" by (rule startUp_running(2) [OF rn])
  have a: "\<not> deleting ?sb" "label ?sb LabelInstance = ''rel''" "label ?sb LabelName = ComponentRunner"
    by (simp_all add: deleting_def sample_defs)
  have "([(GetSandbox ''ns'' ''n'', RSandbox ?sb)], ListPods ''ns'' (SelectorLabels ComponentRunner ''rel''))
      \<in> set (issuedAt (Reconcile sampleLib (rn_reconciler rn) freshState (mo_Namespace opts) ''n'') [] [RSandbox ?sb])"
    using a by (simp add: r o newReconciler_def Reconcile_def request_def asSandbox_def ownedPods_def)
  from controller_scope [OF d rn this] d show ?thesis by (auto simp: o)
qed

end
